(* ===== verification/Prelude.thy ===== *)
theory Prelude imports Main "HOL-Library.Word" begin

text \<open>
  Shared vocabulary of the development: the C integer types, the collections of simplification
  facts the component theories fill, the generic lemmas on lists and on single bits of words
  that several components use, and the runs of a machine with their invariants.
\<close>

unbundle bit_operations_syntax

section \<open>Types\<close>

text \<open>The fixed-width integers of the sources (\<open>uint32_t\<close>, \<open>UINT64\<close>, ...).\<close>

type_synonym u8 = "8 word"
type_synonym u16 = "16 word"
type_synonym u32 = "32 word"
type_synonym u64 = "64 word"

section \<open>Collections\<close>

text \<open>
  \<open>kdefs\<close> holds the definitions of the small kernel accessors that every proof unfolds,
  \<open>frame_simps\<close> the facts that an operation leaves a part of the state alone.
\<close>

named_theorems kdefs
named_theorems frame_simps

section \<open>Lists\<close>

lemma length_remove1_in: "x \<in> set xs \<Longrightarrow> length (remove1 x xs) = length xs - 1"
  by (simp add: length_remove1)

lemma set_tl_distinct: "distinct xs \<Longrightarrow> xs \<noteq> [] \<Longrightarrow> set (tl xs) = set xs - {hd xs}"
  by (cases xs) auto

lemma filter_singleton_nth:
  "distinct xs \<Longrightarrow> i < length xs \<Longrightarrow> filter (\<lambda>y. y = xs ! i) xs = [xs ! i]"
proof (induction xs arbitrary: i)
  case Nil
  then show ?case by simp
next
  case (Cons x xs)
  show ?case
  proof (cases i)
    case 0
    with Cons.prems show ?thesis by (auto simp: filter_empty_conv)
  next
    case (Suc j)
    with Cons show ?thesis by (auto simp: nth_mem)
  qed
qed

section \<open>Single bits of a word\<close>

text \<open>\<open>w |= 1 << n\<close> and \<open>w &= ~(1 << n)\<close>, the two updates of the run queue bitmap.\<close>

lemma bit_or_exp [simp]:
  fixes w :: u32
  assumes "n < 32"
  shows "bit (w OR 2 ^ n) m \<longleftrightarrow> bit w m \<or> m = n"
  using assms by (auto simp: bit_simps)

lemma bit_and_not_exp [simp]:
  fixes w :: u32
  shows "bit (w AND NOT (2 ^ n)) m \<longleftrightarrow> bit w m \<and> m \<noteq> n"
  by (auto simp: bit_simps dest: bit_imp_le_length)

lemma and_not_exp_less:
  fixes w :: u32
  assumes "bit w n"
  shows "unat (w AND NOT (2 ^ n)) < unat w"
proof -
  let ?v = "w AND NOT (2 ^ n)"
  have "?v \<le> w" by (rule word_and_le2)
  moreover have "?v \<noteq> w"
  proof
    assume eq: "?v = w"
    have "\<not> bit ?v n" by simp
    with eq assms show False by simp
  qed
  ultimately have "?v < w" by simp
  then show ?thesis by (simp add: word_less_nat_alt)
qed

lemma word_nonzero_bit:
  fixes w :: u32
  assumes "w \<noteq> 0"
  obtains n where "n < 32" "bit w n"
proof -
  from assms obtain n where "bit w n" by (auto simp: bit_eq_iff)
  moreover from this have "n < 32" by (auto dest: bit_imp_le_length)
  ultimately show ?thesis by (rule that [rotated])
qed

section \<open>Machines\<close>

text \<open>Runs of a machine, with the calls made and the values returned.\<close>

inductive run :: "('s \<Rightarrow> 'a \<Rightarrow> 'v \<Rightarrow> 's \<Rightarrow> bool) \<Rightarrow> 's \<Rightarrow> ('a \<times> 'v) list \<Rightarrow> 's \<Rightarrow> bool"
  for nxt :: "'s \<Rightarrow> 'a \<Rightarrow> 'v \<Rightarrow> 's \<Rightarrow> bool" where
  run_nil: "run nxt s [] s"
| run_snoc: "run nxt s tr s' \<Longrightarrow> nxt s' a v s'' \<Longrightarrow> run nxt s (tr @ [(a, v)]) s''"

lemma run_Cons: "run nxt s' tr s'' \<Longrightarrow> nxt s a v s' \<Longrightarrow> run nxt s ((a, v) # tr) s''"
proof (induction rule: run.induct)
  case (run_nil s')
  then show ?case using run_snoc [OF run.run_nil, of nxt s a v s'] by simp
next
  case (run_snoc s' tr t b u t')
  then show ?case using run.run_snoc [of nxt s "(a, v) # tr" t b u t'] by simp
qed

text \<open>What holds at the start and is kept by every step holds at the end of every run.\<close>

locale invariant_machine =
  fixes start :: "'s \<Rightarrow> bool" and nxt :: "'s \<Rightarrow> 'a \<Rightarrow> 'v \<Rightarrow> 's \<Rightarrow> bool" and inv :: "'s \<Rightarrow> bool"
  assumes start_inv: "start s \<Longrightarrow> inv s"
    and nxt_inv: "inv s \<Longrightarrow> nxt s a v s' \<Longrightarrow> inv s'"
begin

lemma run_inv: "run nxt s tr s' \<Longrightarrow> start s \<Longrightarrow> inv s'"
  by (induction rule: run.induct) (auto intro: start_inv nxt_inv)

end

end
