(* ===== verification/Thread_State.thy ===== *)
theory Thread_State imports Prelude begin

text \<open>
  The state of the LK thread package (\<open>src/lk/kernel/thread.c\<close>, \<open>src/Include/lk/kernel/thread.h\<close>,
  \<open>wait.h\<close>, \<open>mutex.h\<close>, \<open>semaphore.h\<close>, \<open>event.h\<close>), its lock and interrupt primitives
  (\<open>spinlock.h\<close>, \<open>arch_ops.h\<close>), the run queues and \<open>thread_resched\<close>.

  The build modelled is the one of \<open>LKL.inf\<close>: one processor (no \<open>WITH_SMP\<close>), \<open>LK_DEBUGLEVEL\<close> 0
  (so \<open>DEBUG_ASSERT\<close> and the owner checks of the mutexes are compiled out and the stack
  high-water code is off), no \<open>PLATFORM_HAS_DYNAMIC_TIMER\<close>, no thread statistics, no thread-local
  storage entries.

  A C call stack is data here: a function that may reach \<open>thread_resched\<close> takes the list of
  the callers it has to return to (type \<open>frame\<close>, one constructor per call site), and the context
  switch saves that list in \<open>stacks\<close>. The list contents of the intrusive lists are HOL
  lists; theory \<open>Intrusive_List\<close> shows that the pointer code of \<open>list.h\<close> computes them.
\<close>

section \<open>Constants\<close>

definition NO_ERROR :: int where "NO_ERROR = 0"
definition ERR_NOT_READY :: int where "ERR_NOT_READY = -3"
definition ERR_INVALID_ARGS :: int where "ERR_INVALID_ARGS = -8"
definition ERR_NOT_SUSPENDED :: int where "ERR_NOT_SUSPENDED = -10"
definition ERR_OBJECT_DESTROYED :: int where "ERR_OBJECT_DESTROYED = -11"
definition ERR_NOT_BLOCKED :: int where "ERR_NOT_BLOCKED = -12"
definition ERR_TIMED_OUT :: int where "ERR_TIMED_OUT = -13"
definition ERR_THREAD_DETACHED :: int where "ERR_THREAD_DETACHED = -34"

lemmas err_defs [kdefs] = NO_ERROR_def ERR_NOT_READY_def ERR_INVALID_ARGS_def ERR_NOT_SUSPENDED_def
  ERR_OBJECT_DESTROYED_def ERR_NOT_BLOCKED_def ERR_TIMED_OUT_def ERR_THREAD_DETACHED_def

definition INFINITE_TIME :: u32 where "INFINITE_TIME = 0xFFFFFFFF"

definition NUM_PRIORITIES :: nat where "NUM_PRIORITIES = 32"
definition HIGHEST_PRIORITY :: int where "HIGHEST_PRIORITY = int NUM_PRIORITIES - 1"
definition IDLE_PRIORITY :: int where "IDLE_PRIORITY = 0"
definition DEFAULT_PRIORITY :: int where "DEFAULT_PRIORITY = int NUM_PRIORITIES div 2"

lemmas prio_consts [kdefs] =
  NUM_PRIORITIES_def HIGHEST_PRIORITY_def IDLE_PRIORITY_def DEFAULT_PRIORITY_def

definition THREAD_FLAG_DETACHED :: u32 where "THREAD_FLAG_DETACHED = push_bit 0 1"
definition THREAD_FLAG_FREE_STACK :: u32 where "THREAD_FLAG_FREE_STACK = push_bit 1 1"
definition THREAD_FLAG_FREE_STRUCT :: u32 where "THREAD_FLAG_FREE_STRUCT = push_bit 2 1"
definition THREAD_FLAG_REAL_TIME :: u32 where "THREAD_FLAG_REAL_TIME = push_bit 3 1"
definition THREAD_FLAG_IDLE :: u32 where "THREAD_FLAG_IDLE = push_bit 4 1"

lemmas flag_defs =
  THREAD_FLAG_DETACHED_def THREAD_FLAG_FREE_STACK_def THREAD_FLAG_FREE_STRUCT_def
  THREAD_FLAG_REAL_TIME_def THREAD_FLAG_IDLE_def

definition THREAD_MAGIC :: int where "THREAD_MAGIC = 0x74687264"
definition WAIT_QUEUE_MAGIC :: int where "WAIT_QUEUE_MAGIC = 0x77616974"
definition MUTEX_MAGIC :: int where "MUTEX_MAGIC = 0x6D757478"
definition SEMAPHORE_MAGIC :: int where "SEMAPHORE_MAGIC = 0x73656D61"
definition EVENT_MAGIC :: int where "EVENT_MAGIC = 0x65766E74"

section \<open>Threads, wait queues and the objects that contain them\<close>

type_synonym tid = nat

datatype thread_state =
  THREAD_SUSPENDED | THREAD_READY | THREAD_RUNNING | THREAD_BLOCKED | THREAD_SLEEPING | THREAD_DEATH

text \<open>The address of a \<open>wait_queue_t\<close> is the object it is embedded in.\<close>

datatype wq_ref = Retcode_wait tid | Mutex_wait nat | Sem_wait nat | Event_wait nat

record wait_queue =
  wq_magic :: int
  wq_list :: "tid list"
  wq_count :: int

record thread =
  t_magic :: int
  t_priority :: int
  t_state :: thread_state
  t_remaining_quantum :: int
  t_flags :: u32
  t_errno :: int
  t_blocking_wait_queue :: "wq_ref option"
  t_wait_queue_block_ret :: int
  t_stack :: "nat option"
  t_stack_size :: nat
  t_entry :: nat
  t_arg :: nat
  t_retcode :: int
  t_name :: string

record mutex =
  m_magic :: int
  m_holder :: "tid option"
  m_count :: int

record semaphore =
  s_magic :: int
  s_count :: int

record event =
  e_magic :: int
  e_signaled :: bool
  e_flags :: u32

text \<open>
  A frame is a return address inside the package: the place right after the call that reached
  \<open>thread_resched\<close>, with the locals that are still needed there (the saved interrupt state of
  \<open>THREAD_LOCK\<close>, the object, the value to return).
\<close>

datatype frame =
    In_initial_thread
  | In_thread_yield u32
  | In_thread_preempt u32
  | In_thread_set_priority u32
  | In_thread_sleep u32
  | In_thread_resume
  | In_thread_unblock
  | In_thread_exit
  | In_thread_join tid "nat option" u32
  | In_wait_queue_block u32
  | In_wait_queue_wake int
  | In_wait_queue_destroy wq_ref
  | In_mutex_acquire nat u32
  | In_mutex_release u32
  | In_mutex_destroy u32
  | In_sem_wait u32
  | In_sem_timedwait nat u32
  | In_sem_post u32
  | In_sem_destroy u32
  | In_event_wait u32
  | In_event_signal nat bool u32
  | In_event_destroy u32

text \<open>What \<open>free\<close> was called on.\<close>

datatype alloc = Stack_of tid | Struct_of tid

record kernel =
  threads :: "tid \<Rightarrow> thread"
  thread_list :: "tid list"
  run_queue :: "nat \<Rightarrow> tid list"
  run_queue_bitmap :: u32
  current_thread :: tid
  wait_queues :: "wq_ref \<Rightarrow> wait_queue"
  mutexes :: "nat \<Rightarrow> mutex"
  sems :: "nat \<Rightarrow> semaphore"
  events :: "nat \<Rightarrow> event"
  thread_lock :: u32
  ints_enabled :: bool
  fiqs_enabled :: bool
  errno :: int
  stacks :: "tid \<Rightarrow> frame list"
  cells :: "nat \<Rightarrow> int"
  freed :: "alloc list"

text \<open>The statically allocated idle thread of processor 0.\<close>

definition idle_thread :: tid where "idle_thread = 0"

text \<open>
  The outcome of a call: it returned a value in the calling thread, the processor now runs
  another thread (whose saved frames are still to be returned to), or the system stopped.
\<close>

datatype kres = Ret int kernel | Switch kernel | Panic string

fun kbind :: "kres \<Rightarrow> (int \<Rightarrow> kernel \<Rightarrow> kres) \<Rightarrow> kres" where
  "kbind (Ret v k) f = f v k"
| "kbind (Switch k) f = Switch k"
| "kbind (Panic s) f = Panic s"

text \<open>\<open>status_t\<close> values of void functions.\<close>

abbreviation ret_void :: "kernel \<Rightarrow> kres" where "ret_void k \<equiv> Ret 0 k"

definition upd_thread :: "tid \<Rightarrow> (thread \<Rightarrow> thread) \<Rightarrow> kernel \<Rightarrow> kernel" where
  "upd_thread t f k = k\<lparr>threads := (threads k)(t := f (threads k t))\<rparr>"

definition upd_wq :: "wq_ref \<Rightarrow> (wait_queue \<Rightarrow> wait_queue) \<Rightarrow> kernel \<Rightarrow> kernel" where
  "upd_wq w f k = k\<lparr>wait_queues := (wait_queues k)(w := f (wait_queues k w))\<rparr>"

abbreviation tstate :: "kernel \<Rightarrow> tid \<Rightarrow> thread_state" where
  "tstate k t \<equiv> t_state (threads k t)"

abbreviation tprio :: "kernel \<Rightarrow> tid \<Rightarrow> int" where
  "tprio k t \<equiv> t_priority (threads k t)"

abbreviation twait :: "kernel \<Rightarrow> tid \<Rightarrow> wq_ref option" where
  "twait k t \<equiv> t_blocking_wait_queue (threads k t)"

abbreviation waiters :: "kernel \<Rightarrow> wq_ref \<Rightarrow> tid list" where
  "waiters k w \<equiv> wq_list (wait_queues k w)"

section \<open>The thread lock and the interrupt state\<close>

definition SPIN_LOCK_FLAG_IRQ :: u32 where "SPIN_LOCK_FLAG_IRQ = 0x40000000"
definition SPIN_LOCK_FLAG_FIQ :: u32 where "SPIN_LOCK_FLAG_FIQ = 0x80000000"
definition SPIN_LOCK_STATE_RESTORE_IRQ :: u32 where "SPIN_LOCK_STATE_RESTORE_IRQ = 1"
definition SPIN_LOCK_STATE_RESTORE_FIQ :: u32 where "SPIN_LOCK_STATE_RESTORE_FIQ = 2"

lemmas spin_defs = SPIN_LOCK_FLAG_IRQ_def SPIN_LOCK_FLAG_FIQ_def
  SPIN_LOCK_STATE_RESTORE_IRQ_def SPIN_LOCK_STATE_RESTORE_FIQ_def

text \<open>
  \<open>gCpu->EnableInterrupt\<close>, \<open>DisableInterrupt\<close> and \<open>GetInterruptState\<close> set and read one flag.
\<close>

definition arch_enable_ints :: "kernel \<Rightarrow> kernel" where
  "arch_enable_ints k = k\<lparr>ints_enabled := True\<rparr>"

definition arch_disable_ints :: "kernel \<Rightarrow> kernel" where
  "arch_disable_ints k = k\<lparr>ints_enabled := False\<rparr>"

definition arch_ints_disabled :: "kernel \<Rightarrow> bool" where
  "arch_ints_disabled k = (\<not> ints_enabled k)"

definition arch_interrupt_save :: "u32 \<Rightarrow> kernel \<Rightarrow> u32 \<times> kernel" where
  "arch_interrupt_save flags k =
     (let state = 0;
          (state, k) =
            (if flags AND SPIN_LOCK_FLAG_IRQ \<noteq> 0 \<and> \<not> arch_ints_disabled k
             then (state OR SPIN_LOCK_STATE_RESTORE_IRQ, arch_disable_ints k)
             else (state, k));
          (state, k) =
            (if flags AND SPIN_LOCK_FLAG_FIQ \<noteq> 0 \<and> fiqs_enabled k
             then (state OR SPIN_LOCK_STATE_RESTORE_FIQ, k\<lparr>fiqs_enabled := False\<rparr>)
             else (state, k))
      in (state, k))"

definition arch_interrupt_restore :: "u32 \<Rightarrow> u32 \<Rightarrow> kernel \<Rightarrow> kernel" where
  "arch_interrupt_restore old_state flags k =
     (let k = (if flags AND SPIN_LOCK_FLAG_FIQ \<noteq> 0 \<and> old_state AND SPIN_LOCK_STATE_RESTORE_FIQ \<noteq> 0
               then k\<lparr>fiqs_enabled := True\<rparr> else k)
      in if flags AND SPIN_LOCK_FLAG_IRQ \<noteq> 0 \<and> old_state AND SPIN_LOCK_STATE_RESTORE_IRQ \<noteq> 0
         then arch_enable_ints k else k)"

definition spin_lock :: "kernel \<Rightarrow> kernel" where
  "spin_lock k = k\<lparr>thread_lock := 1\<rparr>"

definition spin_unlock :: "kernel \<Rightarrow> kernel" where
  "spin_unlock k = k\<lparr>thread_lock := 0\<rparr>"

definition spin_lock_held :: "kernel \<Rightarrow> bool" where
  "spin_lock_held k = (thread_lock k \<noteq> 0)"

text \<open>\<open>spin_trylock\<close> returns 0, which its comment calls success, and leaves the lock alone.\<close>

definition spin_trylock :: "kernel \<Rightarrow> int \<times> kernel" where
  "spin_trylock k = (0, k)"

definition spin_lock_init :: "kernel \<Rightarrow> kernel" where
  "spin_lock_init k = k\<lparr>thread_lock := 0\<rparr>"

definition arch_enable_fiqs :: "kernel \<Rightarrow> kernel" where
  "arch_enable_fiqs k = k\<lparr>fiqs_enabled := True\<rparr>"

definition arch_disable_fiqs :: "kernel \<Rightarrow> kernel" where
  "arch_disable_fiqs k = k\<lparr>fiqs_enabled := False\<rparr>"

definition arch_fiqs_disabled :: "kernel \<Rightarrow> bool" where
  "arch_fiqs_disabled k = (\<not> fiqs_enabled k)"

definition arch_curr_cpu_num :: "kernel \<Rightarrow> nat" where
  "arch_curr_cpu_num k = 0"

definition get_current_thread :: "kernel \<Rightarrow> tid" where
  "get_current_thread k = current_thread k"

definition set_current_thread :: "tid \<Rightarrow> kernel \<Rightarrow> kernel" where
  "set_current_thread t k = k\<lparr>current_thread := t\<rparr>"

text \<open>\<open>THREAD_LOCK\<close> and \<open>THREAD_UNLOCK\<close>: \<open>spin_lock_irqsave\<close> and \<open>spin_unlock_irqrestore\<close>.\<close>

definition THREAD_LOCK :: "kernel \<Rightarrow> u32 \<times> kernel" where
  "THREAD_LOCK k =
     (let (st, k) = arch_interrupt_save SPIN_LOCK_FLAG_IRQ k in (st, spin_lock k))"

definition THREAD_UNLOCK :: "u32 \<Rightarrow> kernel \<Rightarrow> kernel" where
  "THREAD_UNLOCK st k = arch_interrupt_restore st SPIN_LOCK_FLAG_IRQ (spin_unlock k)"

lemma THREAD_LOCK_eq:
  "THREAD_LOCK k =
     (if ints_enabled k then 1 else 0, k\<lparr>thread_lock := 1, ints_enabled := False\<rparr>)"
  by (auto simp: THREAD_LOCK_def arch_interrupt_save_def Let_def spin_defs spin_lock_def
      arch_disable_ints_def arch_ints_disabled_def)

lemma THREAD_UNLOCK_eq:
  "THREAD_UNLOCK st k =
     k\<lparr>thread_lock := 0, ints_enabled := (ints_enabled k \<or> st AND 1 \<noteq> 0)\<rparr>"
  by (auto simp: THREAD_UNLOCK_def arch_interrupt_restore_def Let_def spin_defs spin_unlock_def
      arch_enable_ints_def)

text \<open>A critical section gives back the interrupt state it found.\<close>

lemma THREAD_LOCK_UNLOCK:
  "ints_enabled (THREAD_UNLOCK (fst (THREAD_LOCK k)) (snd (THREAD_LOCK k))) = ints_enabled k"
  by (simp add: THREAD_LOCK_eq THREAD_UNLOCK_eq)

text \<open>A lock that \<open>spin_trylock\<close> reports as taken is not held by the caller.\<close>

lemma spin_trylock_free: "\<not> spin_lock_held (snd (spin_trylock (spin_lock_init k)))"
  by (simp add: spin_trylock_def spin_lock_init_def spin_lock_held_def)

end
