(* ===== verification/Scheduler.thy ===== *)
theory Scheduler imports Thread_State begin

text \<open>
  The run queues and the dispatcher of \<open>src/lk/kernel/thread.c\<close>: \<open>insert_in_run_queue_head\<close>,
  \<open>insert_in_run_queue_tail\<close>, \<open>get_top_thread\<close>, \<open>arch_context_switch\<close> and \<open>thread_resched\<close>,
  the invariant \<open>base_inv\<close> that ties the run queues, the bitmap and the wait queues to the thread
  states, and the facts that each primitive step keeps it.
\<close>

section \<open>Run queue manipulation\<close>

definition insert_in_run_queue_head :: "tid \<Rightarrow> kernel \<Rightarrow> kernel" where
  "insert_in_run_queue_head t k =
     (let p = nat (t_priority (threads k t));
          k = k\<lparr>run_queue := (run_queue k)(p := t # run_queue k p)\<rparr>
      in k\<lparr>run_queue_bitmap := run_queue_bitmap k OR push_bit p 1\<rparr>)"

definition insert_in_run_queue_tail :: "tid \<Rightarrow> kernel \<Rightarrow> kernel" where
  "insert_in_run_queue_tail t k =
     (let p = nat (t_priority (threads k t));
          k = k\<lparr>run_queue := (run_queue k)(p := run_queue k p @ [t])\<rparr>
      in k\<lparr>run_queue_bitmap := run_queue_bitmap k OR push_bit p 1\<rparr>)"

text \<open>\<open>__builtin_clz\<close>: the number of zero bits above the highest bit that is set.\<close>

definition clz32 :: "u32 \<Rightarrow> nat" where
  "clz32 w = length (takeWhile (\<lambda>n. \<not> bit w n) (rev [0..<32]))"

lemma clz32_top_bit:
  assumes "w \<noteq> 0"
  shows "bit w (31 - clz32 w)" and "\<And>n. bit w n \<Longrightarrow> n \<le> 31 - clz32 w" and "clz32 w < 32"
proof -
  let ?xs = "rev [0..<32]" and ?i = "clz32 w"
  obtain m where m: "m < 32" "bit w m" using assms by (rule word_nonzero_bit)
  then have ex: "\<exists>x\<in>set ?xs. bit w x" by (auto intro!: bexI [of _ m])
  then have lt: "?i < length ?xs"
    unfolding clz32_def by (metis (no_types, lifting) takeWhile_eq_all_conv length_takeWhile_le
        nat_less_le takeWhile_eq_take take_all_iff)
  then show "clz32 w < 32" by simp
  have nth: "?xs ! j = 31 - j" if "j < 32" for j
    using that by (subst rev_nth) auto
  have "bit w (?xs ! ?i)"
    using lt nth_length_takeWhile [of "\<lambda>n. \<not> bit w n" ?xs] by (simp add: clz32_def)
  with lt nth show "bit w (31 - clz32 w)" by simp
  show "n \<le> 31 - clz32 w" if "bit w n" for n
  proof (rule ccontr)
    assume "\<not> n \<le> 31 - clz32 w"
    moreover have "n < 32" using that by (auto dest: bit_imp_le_length)
    ultimately have lt': "31 - n < clz32 w" by simp
    then have "\<not> bit w (?xs ! (31 - n))"
      using takeWhile_nth [of "31 - n" "\<lambda>n. \<not> bit w n" ?xs] nth_mem [of "31 - n" "takeWhile (\<lambda>n. \<not> bit w n) ?xs"]
      unfolding clz32_def by (metis set_takeWhileD)
    with nth [of "31 - n"] \<open>n < 32\<close> that show False by simp
  qed
qed

text \<open>
  \<open>get_top_thread\<close>: the outer loop picks the highest queue left in the local copy of the
  bitmap, the inner loop takes the first entry of that queue (every thread qualifies on one
  processor). \<open>sizeof(run_queue_bitmap) * 8 - NUM_PRIORITIES\<close> is 0.
\<close>

definition next_queue :: "u32 \<Rightarrow> nat" where
  "next_queue w = nat (HIGHEST_PRIORITY - int (clz32 w) - (4 * 8 - int NUM_PRIORITIES))"

lemma next_queue_eq: "next_queue w = 31 - clz32 w"
  by (simp add: next_queue_def kdefs)

function get_top_loop :: "u32 \<Rightarrow> kernel \<Rightarrow> tid \<times> kernel" where
  "get_top_loop local_bitmap k =
     (if local_bitmap = 0 then (idle_thread, k)
      else let q = next_queue local_bitmap in
        case run_queue k q of
          [] \<Rightarrow> get_top_loop (local_bitmap AND NOT (push_bit q 1)) k
        | t # ts \<Rightarrow>
            (t, let k = k\<lparr>run_queue := (run_queue k)(q := ts)\<rparr>
                in if ts = [] then k\<lparr>run_queue_bitmap := run_queue_bitmap k AND NOT (push_bit q 1)\<rparr>
                   else k))"
  by pat_completeness auto
termination
  by (relation "measure (\<lambda>(w, k). unat w)")
    (auto simp: next_queue_eq clz32_top_bit intro!: and_not_exp_less)

declare get_top_loop.simps [simp del]

definition get_top_thread :: "kernel \<Rightarrow> tid \<times> kernel" where
  "get_top_thread k = get_top_loop (run_queue_bitmap k) k"

section \<open>The dispatcher\<close>

text \<open>
  \<open>swapcontext\<close> saves the call stack of the old thread and continues on the saved call stack
  of the new one; \<open>Arm_Switch\<close> shows that the assembler does so with the registers and the stack.
\<close>

definition arch_context_switch :: "tid \<Rightarrow> frame list \<Rightarrow> kernel \<Rightarrow> kernel" where
  "arch_context_switch oldthread fs k = k\<lparr>stacks := (stacks k)(oldthread := fs)\<rparr>"

definition thread_resched :: "frame list \<Rightarrow> kernel \<Rightarrow> kres" where
  "thread_resched fs k =
     (let oldthread = current_thread k;
          (newthread, k) = get_top_thread k;
          k = upd_thread newthread (\<lambda>t. t\<lparr>t_state := THREAD_RUNNING\<rparr>) k
      in if newthread = oldthread then ret_void k
         else
           let k = upd_thread newthread
                     (\<lambda>t. if t_remaining_quantum t \<le> 0 then t\<lparr>t_remaining_quantum := 5\<rparr> else t) k;
               k = k\<lparr>current_thread := newthread\<rparr>;
               k = upd_thread oldthread (\<lambda>t. t\<lparr>t_errno := errno k\<rparr>) k;
               k = k\<lparr>errno := t_errno (threads k newthread)\<rparr>
           in Switch (arch_context_switch oldthread fs k))"

section \<open>The invariant\<close>

text \<open>
  \<open>base_inv T k\<close>: the bitmap has exactly the bits of the non-empty queues; a run queue holds
  exactly the ready threads of its priority, each once, except the threads \<open>T\<close> that a
  routine has made ready and not inserted yet; a wait queue holds exactly the threads that are
  blocked on it, each once, and its counter is its length; priorities are in range; the idle
  thread never waits, sleeps or dies.
\<close>

definition runq_ok :: "tid set \<Rightarrow> kernel \<Rightarrow> bool" where
  "runq_ok T k \<longleftrightarrow>
     (\<forall>p. bit (run_queue_bitmap k) p \<longleftrightarrow> run_queue k p \<noteq> []) \<and>
     (\<forall>p. distinct (run_queue k p)) \<and>
     (\<forall>p t. t \<in> set (run_queue k p) \<longleftrightarrow>
        tstate k t = THREAD_READY \<and> tprio k t = int p \<and> t \<notin> T) \<and>
     (\<forall>t\<in>T. tstate k t = THREAD_READY)"

definition prio_ok :: "kernel \<Rightarrow> bool" where
  "prio_ok k \<longleftrightarrow> (\<forall>t. 0 \<le> tprio k t \<and> tprio k t < 32)"

definition waitq_ok :: "kernel \<Rightarrow> bool" where
  "waitq_ok k \<longleftrightarrow>
     (\<forall>w. distinct (waiters k w) \<and> wq_count (wait_queues k w) = int (length (waiters k w))) \<and>
     (\<forall>w t. t \<in> set (waiters k w) \<longleftrightarrow> tstate k t = THREAD_BLOCKED \<and> twait k t = Some w)"

definition idle_ok :: "kernel \<Rightarrow> bool" where
  "idle_ok k \<longleftrightarrow> tstate k idle_thread \<in> {THREAD_SUSPENDED, THREAD_READY, THREAD_RUNNING}"

definition base_inv :: "tid set \<Rightarrow> kernel \<Rightarrow> bool" where
  "base_inv T k \<longleftrightarrow> runq_ok T k \<and> prio_ok k \<and> waitq_ok k \<and> idle_ok k"

text \<open>
  \<open>sched_inv\<close> holds whenever code runs outside the dispatcher: exactly the current thread is in
  state \<open>THREAD_RUNNING\<close>. \<open>parked\<close> holds when \<open>thread_resched\<close> is called.
\<close>

definition sched_inv :: "kernel \<Rightarrow> bool" where
  "sched_inv k \<longleftrightarrow> base_inv {} k \<and> (\<forall>t. tstate k t = THREAD_RUNNING \<longleftrightarrow> t = current_thread k)"

definition parked :: "kernel \<Rightarrow> bool" where
  "parked k \<longleftrightarrow> base_inv {} k \<and> (\<forall>t. tstate k t \<noteq> THREAD_RUNNING)"

lemmas inv_defs = base_inv_def runq_ok_def prio_ok_def waitq_ok_def idle_ok_def

text \<open>The fields the invariant reads; an update of anything else keeps it.\<close>

lemma base_inv_cong:
  assumes "run_queue k' = run_queue k" "run_queue_bitmap k' = run_queue_bitmap k"
    and "wait_queues k' = wait_queues k"
    and "\<And>t. tstate k' t = tstate k t" "\<And>t. tprio k' t = tprio k t" "\<And>t. twait k' t = twait k t"
  shows "base_inv T k' \<longleftrightarrow> base_inv T k"
  using assms by (simp add: inv_defs)

lemma base_inv_upd_thread:
  assumes "\<And>x. t_state (f x) = t_state x" "\<And>x. t_priority (f x) = t_priority x"
    and "\<And>x. t_blocking_wait_queue (f x) = t_blocking_wait_queue x"
  shows "base_inv T (upd_thread t f k) \<longleftrightarrow> base_inv T k"
  by (rule base_inv_cong) (simp_all add: upd_thread_def assms)

lemma tstate_upd_thread [simp]:
  "tstate (upd_thread t f k) u = (if u = t then t_state (f (threads k t)) else tstate k u)"
  by (simp add: upd_thread_def)

lemma upd_thread_other [simp]:
  "run_queue (upd_thread t f k) = run_queue k"
  "run_queue_bitmap (upd_thread t f k) = run_queue_bitmap k"
  "current_thread (upd_thread t f k) = current_thread k"
  "wait_queues (upd_thread t f k) = wait_queues k"
  "mutexes (upd_thread t f k) = mutexes k"
  "sems (upd_thread t f k) = sems k"
  "events (upd_thread t f k) = events k"
  "stacks (upd_thread t f k) = stacks k"
  "errno (upd_thread t f k) = errno k"
  "thread_lock (upd_thread t f k) = thread_lock k"
  "ints_enabled (upd_thread t f k) = ints_enabled k"
  "thread_list (upd_thread t f k) = thread_list k"
  "freed (upd_thread t f k) = freed k"
  "threads (upd_thread t f k) u = (if u = t then f (threads k t) else threads k u)"
  by (simp_all add: upd_thread_def)

section \<open>Primitive steps keep the invariant\<close>

lemma base_inv_prio:
  assumes "base_inv T k"
  shows "0 \<le> tprio k t" "nat (tprio k t) < 32"
proof -
  from assms have "0 \<le> tprio k t \<and> tprio k t < 32" by (simp add: base_inv_def prio_ok_def)
  then show "0 \<le> tprio k t" "nat (tprio k t) < 32" by (simp_all add: nat_less_iff)
qed

lemma base_inv_make_ready:
  assumes "base_inv T k" "tstate k t \<noteq> THREAD_READY" "tstate k t \<noteq> THREAD_BLOCKED"
  shows "base_inv (insert t T) (upd_thread t (\<lambda>x. x\<lparr>t_state := THREAD_READY\<rparr>) k)"
  using assms by (auto simp: inv_defs)

lemma base_inv_insert_head:
  assumes "base_inv T k" "t \<in> T"
  shows "base_inv (T - {t}) (insert_in_run_queue_head t k)"
proof -
  from assms have p: "0 \<le> tprio k t" "nat (tprio k t) < 32"
    by (auto intro: base_inv_prio)
  with assms show ?thesis
    by (auto simp: inv_defs insert_in_run_queue_head_def Let_def)
qed

lemma base_inv_insert_tail:
  assumes "base_inv T k" "t \<in> T"
  shows "base_inv (T - {t}) (insert_in_run_queue_tail t k)"
proof -
  from assms have p: "0 \<le> tprio k t" "nat (tprio k t) < 32"
    by (auto intro: base_inv_prio)
  with assms show ?thesis
    by (auto simp: inv_defs insert_in_run_queue_tail_def Let_def)
qed

lemma insert_run_queue_other [simp]:
  "threads (insert_in_run_queue_head t k) = threads k"
  "threads (insert_in_run_queue_tail t k) = threads k"
  "current_thread (insert_in_run_queue_head t k) = current_thread k"
  "current_thread (insert_in_run_queue_tail t k) = current_thread k"
  "wait_queues (insert_in_run_queue_head t k) = wait_queues k"
  "wait_queues (insert_in_run_queue_tail t k) = wait_queues k"
  "stacks (insert_in_run_queue_head t k) = stacks k"
  "stacks (insert_in_run_queue_tail t k) = stacks k"
  "mutexes (insert_in_run_queue_head t k) = mutexes k"
  "mutexes (insert_in_run_queue_tail t k) = mutexes k"
  "sems (insert_in_run_queue_head t k) = sems k"
  "sems (insert_in_run_queue_tail t k) = sems k"
  "events (insert_in_run_queue_head t k) = events k"
  "events (insert_in_run_queue_tail t k) = events k"
  "errno (insert_in_run_queue_head t k) = errno k"
  "errno (insert_in_run_queue_tail t k) = errno k"
  "thread_list (insert_in_run_queue_head t k) = thread_list k"
  "thread_list (insert_in_run_queue_tail t k) = thread_list k"
  "freed (insert_in_run_queue_head t k) = freed k"
  "freed (insert_in_run_queue_tail t k) = freed k"
  "thread_lock (insert_in_run_queue_head t k) = thread_lock k"
  "thread_lock (insert_in_run_queue_tail t k) = thread_lock k"
  "ints_enabled (insert_in_run_queue_head t k) = ints_enabled k"
  "ints_enabled (insert_in_run_queue_tail t k) = ints_enabled k"
  by (simp_all add: insert_in_run_queue_head_def insert_in_run_queue_tail_def Let_def)

section \<open>What the dispatcher chooses\<close>

definition top_removed :: "nat \<Rightarrow> tid list \<Rightarrow> kernel \<Rightarrow> kernel" where
  "top_removed p ts k =
     (let k = k\<lparr>run_queue := (run_queue k)(p := ts)\<rparr>
      in if ts = [] then k\<lparr>run_queue_bitmap := run_queue_bitmap k AND NOT (push_bit p 1)\<rparr> else k)"

lemma get_top_thread_cases:
  assumes "runq_ok T k"
  obtains (idle) "\<And>p. run_queue k p = []" "get_top_thread k = (idle_thread, k)"
  | (top) p t ts where "run_queue k p = t # ts" "\<And>q. p < q \<Longrightarrow> run_queue k q = []"
      "get_top_thread k = (t, top_removed p ts k)"
proof (cases "run_queue_bitmap k = 0")
  case True
  then have "get_top_thread k = (idle_thread, k)"
    by (simp add: get_top_thread_def get_top_loop.simps)
  moreover from True assms have "run_queue k p = []" for p
    unfolding runq_ok_def by (metis bit_0_eq bot_apply bot_bool_def)
  ultimately show ?thesis by (rule idle [rotated])
next
  case False
  let ?p = "next_queue (run_queue_bitmap k)"
  from False have "bit (run_queue_bitmap k) ?p" by (simp add: next_queue_eq clz32_top_bit)
  with assms obtain t ts where q: "run_queue k ?p = t # ts"
    by (auto simp: runq_ok_def neq_Nil_conv)
  moreover have "run_queue k q = []" if "?p < q" for q
    using assms clz32_top_bit(2) [OF False, of q] that
    by (auto simp: runq_ok_def next_queue_eq)
  moreover from False q have "get_top_thread k = (t, top_removed ?p ts k)"
    by (simp add: get_top_thread_def get_top_loop.simps Let_def top_removed_def)
  ultimately show ?thesis by (rule top)
qed

lemma top_removed_other [simp]:
  "threads (top_removed p ts k) = threads k"
  "current_thread (top_removed p ts k) = current_thread k"
  "wait_queues (top_removed p ts k) = wait_queues k"
  "run_queue (top_removed p ts k) = (run_queue k)(p := ts)"
  "stacks (top_removed p ts k) = stacks k"
  "mutexes (top_removed p ts k) = mutexes k"
  "sems (top_removed p ts k) = sems k"
  "events (top_removed p ts k) = events k"
  "errno (top_removed p ts k) = errno k"
  "thread_list (top_removed p ts k) = thread_list k"
  "freed (top_removed p ts k) = freed k"
  "thread_lock (top_removed p ts k) = thread_lock k"
  "ints_enabled (top_removed p ts k) = ints_enabled k"
  by (simp_all add: top_removed_def Let_def)

lemma bit_top_removed:
  "bit (run_queue_bitmap (top_removed p ts k)) q \<longleftrightarrow>
     bit (run_queue_bitmap k) q \<and> (ts = [] \<longrightarrow> q \<noteq> p)"
  by (auto simp: top_removed_def Let_def)

lemma base_inv_top_removed:
  assumes inv: "base_inv T k" and q: "run_queue k p = t # ts"
  shows "base_inv (insert t T) (top_removed p ts k)"
proof -
  have t: "tstate k t = THREAD_READY" "tprio k t = int p" "t \<notin> T" "t \<notin> set ts" "distinct ts"
    using inv q unfolding base_inv_def runq_ok_def
    by (metis list.set_intros(1) distinct.simps(2))+
  have b: "bit (run_queue_bitmap k) p" using inv q by (simp add: base_inv_def runq_ok_def)
  from inv have "u \<in> set (run_queue k p) \<longleftrightarrow> tstate k u = THREAD_READY \<and> tprio k u = int p \<and> u \<notin> T" for u
    by (simp add: base_inv_def runq_ok_def)
  with q have mem: "u = t \<or> u \<in> set ts \<longleftrightarrow> tstate k u = THREAD_READY \<and> tprio k u = int p \<and> u \<notin> T" for u
    by simp
  from mem t have mem': "u \<in> set ts \<longleftrightarrow> tstate k u = THREAD_READY \<and> tprio k u = int p \<and> u \<notin> insert t T" for u
    by blast
  from inv t b mem' have "runq_ok (insert t T) (top_removed p ts k)"
    by (auto simp: runq_ok_def base_inv_def bit_top_removed)
  with inv show ?thesis by (simp add: inv_defs)
qed

text \<open>Making the chosen thread run.\<close>

lemma base_inv_set_running:
  assumes "base_inv T k" "t \<in> T \<or> tstate k t = THREAD_SUSPENDED"
  shows "base_inv (T - {t}) (upd_thread t (\<lambda>x. x\<lparr>t_state := THREAD_RUNNING\<rparr>) k)"
  using assms by (auto simp: inv_defs)


section \<open>What \<open>thread_resched\<close> does\<close>

text \<open>
  \<open>resched_rel k k'\<close>: the dispatcher went from \<open>k\<close> to \<open>k'\<close>. It only changes the state and the
  quantum of the thread it picks, the saved error number, the queue it takes that thread from
  and the current thread.
\<close>

definition same_objects :: "kernel \<Rightarrow> kernel \<Rightarrow> bool" where
  "same_objects k k' \<longleftrightarrow> mutexes k' = mutexes k \<and> sems k' = sems k \<and> events k' = events k"

definition same_thread :: "thread \<Rightarrow> thread \<Rightarrow> bool" where
  "same_thread x y \<longleftrightarrow> t_magic y = t_magic x \<and> t_priority y = t_priority x \<and> t_flags y = t_flags x \<and>
     t_blocking_wait_queue y = t_blocking_wait_queue x \<and>
     t_wait_queue_block_ret y = t_wait_queue_block_ret x \<and> t_retcode y = t_retcode x"

definition resched_rel :: "kernel \<Rightarrow> kernel \<Rightarrow> bool" where
  "resched_rel k k' \<longleftrightarrow> same_objects k k' \<and> wait_queues k' = wait_queues k \<and>
     thread_list k' = thread_list k \<and> thread_lock k' = thread_lock k \<and>
     ints_enabled k' = ints_enabled k \<and>
     freed k' = freed k \<and> cells k' = cells k \<and>
     (\<forall>t. same_thread (threads k t) (threads k' t)) \<and>
     (\<forall>t. t \<noteq> current_thread k' \<longrightarrow> tstate k' t = tstate k t) \<and>
     tstate k' (current_thread k') = THREAD_RUNNING \<and>
     (\<forall>t. tstate k t = THREAD_READY \<longrightarrow> tprio k t \<le> tprio k (current_thread k')) \<and>
     ((\<exists>t. tstate k t = THREAD_READY) \<longrightarrow> tstate k (current_thread k') = THREAD_READY) \<and>
     ((\<forall>t. tstate k t \<noteq> THREAD_READY) \<longrightarrow> current_thread k' = idle_thread)"

definition run_thread :: "tid \<Rightarrow> kernel \<Rightarrow> kernel" where
  "run_thread t k = upd_thread t (\<lambda>x. x\<lparr>t_state := THREAD_RUNNING\<rparr>) k"

definition switch_to :: "tid \<Rightarrow> kernel \<Rightarrow> kernel" where
  "switch_to n k =
     (let k1 = upd_thread n (\<lambda>t. if t_remaining_quantum t \<le> 0 then t\<lparr>t_remaining_quantum := 5\<rparr> else t) k;
          k2 = upd_thread (current_thread k) (\<lambda>t. t\<lparr>t_errno := errno k\<rparr>) (k1\<lparr>current_thread := n\<rparr>)
      in k2\<lparr>errno := t_errno (threads k2 n)\<rparr>)"

lemma thread_resched_eq:
  "thread_resched fs k =
     (let (n, k1) = get_top_thread k; k2 = run_thread n k1
      in if n = current_thread k then Ret 0 k2
         else Switch (arch_context_switch (current_thread k) fs (switch_to n k2)))"
proof -
  obtain n k1 where top: "get_top_thread k = (n, k1)" by (cases "get_top_thread k")
  have "current_thread (snd (get_top_loop w k)) = current_thread k" for w
    by (induction w k rule: get_top_loop.induct)
      (subst get_top_loop.simps, auto simp: Let_def split: list.splits)
  from this [of "run_queue_bitmap k"] top have "current_thread k1 = current_thread k"
    by (simp add: get_top_thread_def)
  with top show ?thesis
    by (simp add: thread_resched_def Let_def run_thread_def switch_to_def)
qed

lemma base_inv_run_thread:
  "base_inv T k \<Longrightarrow> t \<in> T \<or> tstate k t = THREAD_SUSPENDED \<or> tstate k t = THREAD_RUNNING \<Longrightarrow>
   base_inv (T - {t}) (run_thread t k)"
  unfolding run_thread_def by (cases "t \<in> T") (auto simp: inv_defs)

lemma run_thread_simps [simp]:
  "tstate (run_thread t k) u = (if u = t then THREAD_RUNNING else tstate k u)"
  "same_thread (threads k u) (threads (run_thread t k) u)"
  "current_thread (run_thread t k) = current_thread k"
  "wait_queues (run_thread t k) = wait_queues k"
  "stacks (run_thread t k) = stacks k"
  "mutexes (run_thread t k) = mutexes k"
  "sems (run_thread t k) = sems k"
  "events (run_thread t k) = events k"
  "thread_list (run_thread t k) = thread_list k"
  "thread_lock (run_thread t k) = thread_lock k"
  "ints_enabled (run_thread t k) = ints_enabled k"
  "freed (run_thread t k) = freed k"
  "cells (run_thread t k) = cells k"
  by (simp_all add: run_thread_def same_thread_def) (simp add: upd_thread_def)

lemma switch_to_simps [simp]:
  "tstate (switch_to n k) u = tstate k u"
  "same_thread (threads k u) (threads (switch_to n k) u)"
  "current_thread (switch_to n k) = n"
  "wait_queues (switch_to n k) = wait_queues k"
  "stacks (switch_to n k) = stacks k"
  "mutexes (switch_to n k) = mutexes k"
  "sems (switch_to n k) = sems k"
  "events (switch_to n k) = events k"
  "thread_list (switch_to n k) = thread_list k"
  "thread_lock (switch_to n k) = thread_lock k"
  "ints_enabled (switch_to n k) = ints_enabled k"
  "freed (switch_to n k) = freed k"
  "cells (switch_to n k) = cells k"
  by (simp_all add: switch_to_def Let_def same_thread_def) (simp_all add: upd_thread_def)


lemma same_thread_trans:
  "same_thread x y \<Longrightarrow> same_thread y z \<Longrightarrow> same_thread x z"
  by (simp add: same_thread_def)

lemma same_thread_refl [simp]: "same_thread x x"
  by (simp add: same_thread_def)

lemma base_inv_switch_to: "base_inv T (switch_to n k) \<longleftrightarrow> base_inv T k"
proof (rule base_inv_cong)
  fix t show "tprio (switch_to n k) t = tprio k t" "twait (switch_to n k) t = twait k t"
    using switch_to_simps(2) [of k t n] by (simp_all add: same_thread_def)
qed (simp_all, simp_all add: switch_to_def Let_def)

lemma base_inv_stacks: "base_inv T (k\<lparr>stacks := s\<rparr>) \<longleftrightarrow> base_inv T k"
  by (rule base_inv_cong) simp_all

text \<open>The state the dispatcher leaves behind, whether or not it switches.\<close>

lemma get_top_thread_spec:
  assumes "parked k"
  obtains n k1 where "get_top_thread k = (n, k1)" "resched_rel k (switch_to n (run_thread n k1))"
    "base_inv {} (run_thread n k1)" "current_thread k1 = current_thread k" "stacks k1 = stacks k"
    "threads k1 = threads k"
proof -
  from assms have inv: "base_inv {} k" and run: "\<And>t. tstate k t \<noteq> THREAD_RUNNING"
    by (auto simp: parked_def)
  from inv have rq: "runq_ok {} k" by (simp add: base_inv_def)
  then have mem: "u \<in> set (run_queue k p) \<longleftrightarrow> tstate k u = THREAD_READY \<and> tprio k u = int p" for u p
    by (simp add: runq_ok_def)
  have st: "same_thread (threads k t) (threads (switch_to n (run_thread n k)) t)" for n t
    by (rule same_thread_trans [OF run_thread_simps(2) switch_to_simps(2)])
  from rq show ?thesis
  proof (cases rule: get_top_thread_cases)
    case idle
    have no: "tstate k t \<noteq> THREAD_READY" for t
    proof
      assume "tstate k t = THREAD_READY"
      moreover from inv have "tprio k t = int (nat (tprio k t))" by (simp add: base_inv_prio)
      ultimately have "t \<in> set (run_queue k (nat (tprio k t)))" by (simp add: mem)
      with idle(1) show False by simp
    qed
    with run inv have "tstate k idle_thread = THREAD_SUSPENDED"
      by (auto simp: base_inv_def idle_ok_def)
    then have "base_inv {} (run_thread idle_thread k)"
      using base_inv_run_thread [OF inv, of idle_thread] by simp
    with idle(2) no st show ?thesis
      by (intro that [of idle_thread k]) (auto simp: resched_rel_def same_objects_def)
  next
    case (top p t ts)
    let ?k = "top_removed p ts k"
    have t: "tstate k t = THREAD_READY" "tprio k t = int p" using mem [of t p] top(1) by auto
    have le: "tprio k u \<le> tprio k t" if "tstate k u = THREAD_READY" for u
    proof -
      from inv have "tprio k u = int (nat (tprio k u))" by (simp add: base_inv_prio)
      with that have "u \<in> set (run_queue k (nat (tprio k u)))" by (simp add: mem)
      with top(2) [of "nat (tprio k u)"] have "\<not> p < nat (tprio k u)" by auto
      with t show ?thesis by simp
    qed
    have "same_thread (threads k u) (threads (switch_to t (run_thread t ?k)) u)" for u
      using same_thread_trans [OF run_thread_simps(2) switch_to_simps(2), of ?k u t t] by simp
    then have "resched_rel k (switch_to t (run_thread t ?k))"
      using t le by (auto simp: resched_rel_def same_objects_def top_removed_def Let_def)
    moreover have "base_inv {} (run_thread t ?k)"
    proof -
      have "base_inv ({t} - {t}) (run_thread t ?k)"
        by (rule base_inv_run_thread [OF base_inv_top_removed [OF inv top(1)]]) simp
      then show ?thesis by simp
    qed
    ultimately show ?thesis by (intro that [OF top(3)]) auto
  qed
qed

lemma thread_resched_cases:
  assumes "parked k"
  obtains (stay) k' where "thread_resched fs k = Ret 0 k'" "resched_rel k k'" "sched_inv k'"
      "current_thread k' = current_thread k" "stacks k' = stacks k"
      "current_thread k \<noteq> idle_thread \<Longrightarrow> tstate k (current_thread k) = THREAD_READY"
  | (switch) k' where "thread_resched fs k = Switch k'" "resched_rel k k'" "sched_inv k'"
      "current_thread k' \<noteq> current_thread k" "stacks k' = (stacks k)(current_thread k := fs)"
proof -
  from assms have run: "tstate k t \<noteq> THREAD_RUNNING" for t by (simp add: parked_def)
  from assms obtain n k1 where top: "get_top_thread k = (n, k1)"
    and rel: "resched_rel k (switch_to n (run_thread n k1))" and inv: "base_inv {} (run_thread n k1)"
    and k1: "current_thread k1 = current_thread k" "stacks k1 = stacks k" "threads k1 = threads k"
    by (rule get_top_thread_spec)
  have only: "tstate (run_thread n k1) t = THREAD_RUNNING \<longleftrightarrow> t = n" for t
    using run by (simp add: k1)
  show ?thesis
  proof (cases "n = current_thread k")
    case True
    have same: "same_thread x (threads (switch_to n (run_thread n k1)) t) \<longleftrightarrow>
        same_thread x (threads (run_thread n k1) t)" for x t
      using switch_to_simps(2) [of "run_thread n k1" t n] by (simp add: same_thread_def)
    have "resched_rel k (run_thread n k1)"
      using rel k1 same True [symmetric]
      unfolding resched_rel_def same_objects_def by (auto split: if_splits)
    moreover have "sched_inv (run_thread n k1)"
      using inv only True k1 by (simp add: sched_inv_def)
    moreover have "tstate k n = THREAD_READY" if "n \<noteq> idle_thread"
      using rel that unfolding resched_rel_def by (simp split: if_splits)
    ultimately show ?thesis
      using top True k1 by (intro stay [of "run_thread n k1"]) (auto simp: thread_resched_eq)
  next
    case False
    let ?k' = "arch_context_switch (current_thread k) fs (switch_to n (run_thread n k1))"
    have "sched_inv ?k'"
      using inv only
      by (simp add: sched_inv_def arch_context_switch_def base_inv_stacks base_inv_switch_to)
    moreover have "resched_rel k ?k'"
      using rel by (simp add: resched_rel_def same_objects_def arch_context_switch_def)
    moreover have "thread_resched fs k = Switch ?k'"
      using top False by (simp add: thread_resched_eq)
    ultimately show ?thesis
      using False k1 by (intro switch [of ?k']) (auto simp: arch_context_switch_def)
  qed
qed

end
