(* ===== verification/Intrusive_List.thy ===== *)
theory Intrusive_List imports Prelude begin

text \<open>
  \<open>src/Include/lk/list.h\<close>: the intrusive, circular, doubly linked lists that hold the run
  queues, the wait queues and the list of all threads. The heap of list nodes is two maps from
  addresses to addresses (\<open>prev\<close> and \<open>next\<close>), an address is a \<open>nat\<close> and \<open>0\<close> is
  \<open>NULL\<close>. Each inline function of the header is one definition, its assignments in the order
  of the source. The representation predicates \<open>dlist\<close> (one list) and \<open>lists_at\<close> (all lists
  of the heap, pairwise disjoint) relate the pointers to HOL lists, and the locale
  \<open>node_lists\<close> is the interface the thread code relies on.
\<close>

section \<open>The heap of nodes and the functions of the header\<close>

record list_heap =
  prv :: "nat \<Rightarrow> nat"
  nxt :: "nat \<Rightarrow> nat"

abbreviation set_prv :: "nat \<Rightarrow> nat \<Rightarrow> list_heap \<Rightarrow> list_heap" where
  "set_prv a v h \<equiv> h\<lparr>prv := (prv h)(a := v)\<rparr>"

abbreviation set_nxt :: "nat \<Rightarrow> nat \<Rightarrow> list_heap \<Rightarrow> list_heap" where
  "set_nxt a v h \<equiv> h\<lparr>nxt := (nxt h)(a := v)\<rparr>"

definition list_initialize :: "nat \<Rightarrow> list_heap \<Rightarrow> list_heap" where
  "list_initialize l h = set_prv l l (set_nxt l l h)"

definition list_clear_node :: "nat \<Rightarrow> list_heap \<Rightarrow> list_heap" where
  "list_clear_node item h = set_prv item 0 (set_nxt item 0 h)"

definition list_in_list :: "nat \<Rightarrow> list_heap \<Rightarrow> bool" where
  "list_in_list item h = (if prv h item = 0 \<and> nxt h item = 0 then False else True)"

definition list_add_head :: "nat \<Rightarrow> nat \<Rightarrow> list_heap \<Rightarrow> list_heap" where
  "list_add_head l item h =
     (let h = set_nxt item (nxt h l) h;
          h = set_prv item l h;
          h = set_prv (nxt h l) item h
      in set_nxt l item h)"

definition list_add_tail :: "nat \<Rightarrow> nat \<Rightarrow> list_heap \<Rightarrow> list_heap" where
  "list_add_tail l item h =
     (let h = set_prv item (prv h l) h;
          h = set_nxt item l h;
          h = set_nxt (prv h l) item h
      in set_prv l item h)"

definition list_delete :: "nat \<Rightarrow> list_heap \<Rightarrow> list_heap" where
  "list_delete item h =
     (let h = set_prv (nxt h item) (prv h item) h;
          h = set_nxt (prv h item) (nxt h item) h
      in set_prv item 0 (set_nxt item 0 h))"

definition list_remove_head :: "nat \<Rightarrow> list_heap \<Rightarrow> nat option \<times> list_heap" where
  "list_remove_head l h =
     (if nxt h l \<noteq> l then let item = nxt h l in (Some item, list_delete item h)
      else (None, h))"

definition list_remove_tail :: "nat \<Rightarrow> list_heap \<Rightarrow> nat option \<times> list_heap" where
  "list_remove_tail l h =
     (if prv h l \<noteq> l then let item = prv h l in (Some item, list_delete item h)
      else (None, h))"

definition list_peek_head :: "nat \<Rightarrow> list_heap \<Rightarrow> nat option" where
  "list_peek_head l h = (if nxt h l \<noteq> l then Some (nxt h l) else None)"

definition list_peek_tail :: "nat \<Rightarrow> list_heap \<Rightarrow> nat option" where
  "list_peek_tail l h = (if prv h l \<noteq> l then Some (prv h l) else None)"

definition list_prev :: "nat \<Rightarrow> nat \<Rightarrow> list_heap \<Rightarrow> nat option" where
  "list_prev l item h = (if prv h item \<noteq> l then Some (prv h item) else None)"

definition list_prev_wrap :: "nat \<Rightarrow> nat \<Rightarrow> list_heap \<Rightarrow> nat option" where
  "list_prev_wrap l item h =
     (if prv h item \<noteq> l then Some (prv h item)
      else if prv h (prv h item) \<noteq> l then Some (prv h (prv h item))
      else None)"

definition list_next :: "nat \<Rightarrow> nat \<Rightarrow> list_heap \<Rightarrow> nat option" where
  "list_next l item h = (if nxt h item \<noteq> l then Some (nxt h item) else None)"

definition list_next_wrap :: "nat \<Rightarrow> nat \<Rightarrow> list_heap \<Rightarrow> nat option" where
  "list_next_wrap l item h =
     (if nxt h item \<noteq> l then Some (nxt h item)
      else if nxt h (nxt h item) \<noteq> l then Some (nxt h (nxt h item))
      else None)"

definition list_is_empty :: "nat \<Rightarrow> list_heap \<Rightarrow> bool" where
  "list_is_empty l h = (if nxt h l = l then True else False)"

text \<open>
  \<open>list_for_every\<close> follows \<open>next\<close> until it is back at the head. On a corrupt list it need
  not stop, so the loop is a partial function.
\<close>

partial_function (option) list_count :: "nat \<Rightarrow> list_heap \<Rightarrow> nat \<Rightarrow> nat \<Rightarrow> nat option" where
  "list_count l h node cnt =
     (if node \<noteq> l then list_count l h (nxt h node) (Suc cnt) else Some cnt)"

definition list_length :: "nat \<Rightarrow> list_heap \<Rightarrow> nat option" where
  "list_length l h = list_count l h (nxt h l) 0"

section \<open>What a well-formed list is\<close>

definition linked :: "list_heap \<Rightarrow> nat \<Rightarrow> nat \<Rightarrow> bool" where
  "linked h a b \<longleftrightarrow> nxt h a = b \<and> prv h b = a"

fun chain :: "list_heap \<Rightarrow> nat \<Rightarrow> nat list \<Rightarrow> nat \<Rightarrow> bool" where
  "chain h a [] e \<longleftrightarrow> linked h a e"
| "chain h a (x # xs) e \<longleftrightarrow> linked h a x \<and> chain h x xs e"

definition dlist :: "list_heap \<Rightarrow> nat \<Rightarrow> nat list \<Rightarrow> bool" where
  "dlist h l xs \<longleftrightarrow> distinct (l # xs) \<and> 0 \<notin> set (l # xs) \<and> chain h l xs l"

lemma chain_append:
  "chain h a (xs @ x # ys) e \<longleftrightarrow> chain h a xs x \<and> chain h x ys e"
  by (induction xs arbitrary: a) auto

lemma chain_cong:
  assumes "\<And>u. u \<in> set (a # xs) \<Longrightarrow> nxt h' u = nxt h u"
    and "\<And>u. u \<in> set (xs @ [e]) \<Longrightarrow> prv h' u = prv h u"
  shows "chain h' a xs e \<longleftrightarrow> chain h a xs e"
  using assms by (induction xs arbitrary: a) (auto simp: linked_def)

lemma chain_ends:
  assumes "chain h a xs e"
  shows "nxt h a = hd (xs @ [e])" and "prv h e = last (a # xs)"
  using assms by (induction xs arbitrary: a) (auto simp: linked_def)

lemma dlist_next: "dlist h l xs \<Longrightarrow> nxt h l = hd (xs @ [l])"
  by (simp add: dlist_def chain_ends)

lemma dlist_prev: "dlist h l xs \<Longrightarrow> prv h l = last (l # xs)"
  unfolding dlist_def by (blast dest: chain_ends(2))

lemma dlist_mid:
  assumes "dlist h l (ys @ x # zs)"
  shows "nxt h x = hd (zs @ [l])" and "prv h x = last (l # ys)"
proof -
  from assms have "chain h l ys x" "chain h x zs l"
    by (auto simp: dlist_def chain_append)
  then show "nxt h x = hd (zs @ [l])" "prv h x = last (l # ys)"
    by (blast dest: chain_ends)+
qed

lemma hd_snoc_in: "hd (zs @ [l]) \<in> insert l (set zs)"
  by (cases zs) auto

lemma last_Cons_in: "last (l # ys) \<in> insert l (set ys)"
  by auto

lemma dlist_in_list:
  assumes "dlist h l xs" "x \<in> set xs"
  shows "list_in_list x h"
proof -
  from assms obtain ys zs where xs: "xs = ys @ x # zs" by (auto simp: in_set_conv_decomp)
  with assms have "nxt h x = hd (zs @ [l])" by (simp add: dlist_mid)
  moreover have "0 \<notin> insert l (set zs)" using assms xs by (auto simp: dlist_def)
  ultimately show ?thesis using hd_snoc_in [of zs l] by (auto simp: list_in_list_def)
qed

section \<open>Each operation on one list\<close>

lemma dlist_initialize: "l \<noteq> 0 \<Longrightarrow> dlist (list_initialize l h) l []"
  by (simp add: dlist_def list_initialize_def linked_def)

lemma dlist_add_head:
  assumes "dlist h l xs" "x \<noteq> 0" "x \<notin> set (l # xs)"
  shows "dlist (list_add_head l x h) l (x # xs)"
proof (cases xs)
  case Nil
  with assms show ?thesis
    by (auto simp: dlist_def list_add_head_def Let_def linked_def)
next
  case (Cons y ys)
  have "chain (list_add_head l x h) y ys l \<longleftrightarrow> chain h y ys l"
    using assms Cons
    by (intro chain_cong) (auto simp: dlist_def list_add_head_def Let_def linked_def)
  with assms Cons show ?thesis
    by (auto simp: dlist_def list_add_head_def Let_def linked_def)
qed

lemma dlist_add_tail:
  assumes "dlist h l xs" "x \<noteq> 0" "x \<notin> set (l # xs)"
  shows "dlist (list_add_tail l x h) l (xs @ [x])"
proof (cases xs rule: rev_cases)
  case Nil
  with assms show ?thesis
    by (auto simp: dlist_def list_add_tail_def Let_def linked_def)
next
  case (snoc ys y)
  with assms have y: "prv h l = y" by (simp add: dlist_prev)
  have "chain (list_add_tail l x h) l ys y \<longleftrightarrow> chain h l ys y"
    using assms snoc y
    by (intro chain_cong) (auto simp: dlist_def list_add_tail_def Let_def)
  with assms snoc y show ?thesis
    by (auto simp: dlist_def chain_append list_add_tail_def Let_def linked_def)
qed

lemma list_delete_links:
  assumes "dlist h l (ys @ x # zs)"
  defines "p \<equiv> last (l # ys)" and "n \<equiv> hd (zs @ [l])"
  shows "prv (list_delete x h) = (prv h)(n := p, x := 0)"
    and "nxt (list_delete x h) = (nxt h)(p := n, x := 0)"
proof -
  have x: "nxt h x = n" "prv h x = p" using assms by (simp_all only: dlist_mid)
  have "x \<notin> insert l (set zs)" using assms by (auto simp: dlist_def)
  then have "x \<noteq> n" using hd_snoc_in [of zs l] unfolding n_def by metis
  with x show "prv (list_delete x h) = (prv h)(n := p, x := 0)"
    "nxt (list_delete x h) = (nxt h)(p := n, x := 0)"
    by (auto simp: list_delete_def Let_def fun_eq_iff)
qed

lemma chain_bridge:
  assumes "chain h a ys x" "chain h x zs e" "distinct (a # ys @ x # zs)"
    and "e \<notin> set (ys @ x # zs)"
    and "prv h' = (prv h)(hd (zs @ [e]) := last (a # ys), x := 0)"
    and "nxt h' = (nxt h)(last (a # ys) := hd (zs @ [e]), x := 0)"
  shows "chain h' a (ys @ zs) e"
  using assms
proof (induction ys arbitrary: a)
  case Nil
  show ?case
  proof (cases zs)
    case Nil
    with Nil.prems show ?thesis by (auto simp: linked_def)
  next
    case (Cons z zs')
    have "chain h' z zs' e \<longleftrightarrow> chain h z zs' e"
      using Nil.prems Cons by (intro chain_cong) auto
    with Nil.prems Cons show ?thesis by (auto simp: linked_def)
  qed
next
  case (Cons y ys)
  from Cons.prems have y: "linked h a y" and ch: "chain h y ys x" by auto
  have "last (a # y # ys) = last (y # ys)" by simp
  with Cons.prems ch have "chain h' y (ys @ zs) e" by (intro Cons.IH) auto
  moreover have "linked h' a y"
    using y Cons.prems last_in_set [of "y # ys"]
    by (cases zs) (auto simp: linked_def)
  ultimately show ?case by simp
qed

lemma dlist_delete:
  assumes "dlist h l xs" "x \<in> set xs"
  shows "dlist (list_delete x h) l (remove1 x xs)"
proof -
  from assms(2) obtain ys zs where xs: "xs = ys @ x # zs" and "x \<notin> set ys"
    by (auto dest: split_list_first)
  then have rem: "remove1 x xs = ys @ zs" by (simp add: remove1_append)
  have "chain (list_delete x h) l (ys @ zs) l"
  proof (rule chain_bridge [of h l ys x zs])
    show "chain h l ys x" "chain h x zs l" "distinct (l # ys @ x # zs)" "l \<notin> set (ys @ x # zs)"
      using assms(1) by (auto simp: xs dlist_def chain_append)
  qed (use assms(1) in \<open>simp_all only: xs list_delete_links\<close>)
  then show ?thesis using assms(1) unfolding rem by (auto simp: xs dlist_def)
qed

lemma list_delete_not_in_list:
  assumes "dlist h l xs" "x \<in> set xs"
  shows "\<not> list_in_list x (list_delete x h)"
  by (simp add: list_in_list_def list_delete_def Let_def)

text \<open>Peeking, walking and counting read the HOL list.\<close>

lemma dlist_is_empty: "dlist h l xs \<Longrightarrow> list_is_empty l h \<longleftrightarrow> xs = []"
  by (cases xs) (auto simp: list_is_empty_def dlist_next dlist_def linked_def)

lemma dlist_peek_head: "dlist h l xs \<Longrightarrow> list_peek_head l h = (case xs of [] \<Rightarrow> None | x # _ \<Rightarrow> Some x)"
  by (cases xs) (auto simp: list_peek_head_def dlist_next dlist_def linked_def)

lemma dlist_peek_tail:
  "dlist h l xs \<Longrightarrow> list_peek_tail l h = (if xs = [] then None else Some (last xs))"
  by (cases xs rule: rev_cases)
    (auto simp: list_peek_tail_def dlist_def linked_def chain_append dest: chain_ends)

lemma list_count_chain:
  "chain h a xs l \<Longrightarrow> l \<notin> set xs \<Longrightarrow> list_count l h (nxt h a) cnt = Some (cnt + length xs)"
proof (induction xs arbitrary: a cnt)
  case Nil
  then show ?case by (simp add: linked_def list_count.simps [of l h l])
next
  case (Cons x xs)
  then have "nxt h a = x" "x \<noteq> l" by (auto simp: linked_def)
  with Cons show ?case by (simp add: list_count.simps [of l h x])
qed

lemma dlist_length: "dlist h l xs \<Longrightarrow> list_length l h = Some (length xs)"
  by (auto simp: list_length_def dlist_def list_count_chain)

lemma dlist_next_item:
  assumes "dlist h l (ys @ x # zs)"
  shows "list_next l x h = (case zs of [] \<Rightarrow> None | z # _ \<Rightarrow> Some z)"
    and "list_prev l x h = (if ys = [] then None else Some (last ys))"
proof -
  have l: "l \<notin> set ys" "l \<notin> set zs" using assms by (auto simp: dlist_def)
  have x: "nxt h x = hd (zs @ [l])" "prv h x = last (l # ys)"
    using assms by (simp_all only: dlist_mid)
  from x(1) l show "list_next l x h = (case zs of [] \<Rightarrow> None | z # _ \<Rightarrow> Some z)"
    by (cases zs) (auto simp: list_next_def)
  show "list_prev l x h = (if ys = [] then None else Some (last ys))"
  proof (cases "ys = []")
    case False
    then have "last ys \<noteq> l" using l(1) last_in_set by metis
    with False x(2) show ?thesis by (simp add: list_prev_def)
  qed (simp add: list_prev_def x(2))
qed

section \<open>All the lists of the heap\<close>

text \<open>
  \<open>lists_at h Q\<close>: for every head \<open>l\<close> with \<open>Q l = Some xs\<close> the heap holds the list \<open>xs\<close>, and
  no node lies on two lists. A \<open>queue_node\<close> is on a run queue or on a wait queue, so the kernel
  needs the lists together.
\<close>

definition footprint :: "nat \<Rightarrow> nat list \<Rightarrow> nat set" where
  "footprint l xs = set (l # xs)"

definition lists_at :: "list_heap \<Rightarrow> (nat \<Rightarrow> nat list option) \<Rightarrow> bool" where
  "lists_at h Q \<longleftrightarrow>
     (\<forall>l xs. Q l = Some xs \<longrightarrow> dlist h l xs) \<and>
     (\<forall>l m xs ys. Q l = Some xs \<longrightarrow> Q m = Some ys \<longrightarrow> l \<noteq> m \<longrightarrow>
        footprint l xs \<inter> footprint m ys = {})"

definition unlisted :: "(nat \<Rightarrow> nat list option) \<Rightarrow> nat \<Rightarrow> bool" where
  "unlisted Q x \<longleftrightarrow> x \<noteq> 0 \<and> (\<forall>l xs. Q l = Some xs \<longrightarrow> x \<notin> footprint l xs)"

lemma dlist_frame:
  assumes "dlist h l xs"
    and "\<And>u. u \<in> footprint l xs \<Longrightarrow> nxt h' u = nxt h u \<and> prv h' u = prv h u"
  shows "dlist h' l xs"
proof -
  have "chain h' l xs l \<longleftrightarrow> chain h l xs l"
    by (intro chain_cong) (use assms(2) in \<open>auto simp: footprint_def\<close>)
  with assms(1) show ?thesis by (simp add: dlist_def)
qed

text \<open>
  The common step of the operations: one list changes to \<open>xs'\<close>, its new footprint grows at most by
  an unlisted node, and the pointers outside that footprint stay.
\<close>

lemma lists_at_update:
  assumes at: "lists_at h Q" "Q l = Some xs"
    and new: "dlist h' l xs'" "footprint l xs' \<subseteq> footprint l xs \<union> F"
    and F: "\<And>x. x \<in> F \<Longrightarrow> unlisted Q x"
    and eq: "\<And>u. u \<notin> footprint l xs \<union> F \<Longrightarrow> nxt h' u = nxt h u \<and> prv h' u = prv h u"
  shows "lists_at h' (Q(l \<mapsto> xs'))"
proof -
  have other: "footprint m ys \<inter> (footprint l xs \<union> F) = {}" if "Q m = Some ys" "m \<noteq> l" for m ys
    using at that F unfolding lists_at_def unlisted_def by blast
  have "dlist h' m ys" if "(Q(l \<mapsto> xs')) m = Some ys" for m ys
  proof (cases "m = l")
    case True
    with that new show ?thesis by simp
  next
    case False
    with that have m: "Q m = Some ys" by simp
    with at have "dlist h m ys" by (simp add: lists_at_def)
    then show ?thesis using other [OF m False] by (rule_tac dlist_frame) (use eq in blast)+
  qed
  moreover have "footprint m ys \<inter> footprint n zs = {}"
    if "(Q(l \<mapsto> xs')) m = Some ys" "(Q(l \<mapsto> xs')) n = Some zs" "m \<noteq> n" for m n ys zs
  proof -
    consider "m = l" | "n = l" | "m \<noteq> l" "n \<noteq> l" by blast
    then show ?thesis
    proof cases
      case 1
      with that other [of n zs] new(2) show ?thesis by auto
    next
      case 2
      with that other [of m ys] new(2) show ?thesis by auto
    next
      case 3
      with that at show ?thesis unfolding lists_at_def by simp
    qed
  qed
  ultimately show ?thesis by (simp add: lists_at_def)
qed

lemma dlist_ends_in:
  assumes "dlist h l xs"
  shows "nxt h l \<in> footprint l xs" "prv h l \<in> footprint l xs"
  using assms hd_snoc_in [of xs l] last_Cons_in [of l xs]
  by (simp_all only: dlist_next dlist_prev footprint_def list.set)

lemma lists_at_add_head:
  assumes "lists_at h Q" "Q l = Some xs" "unlisted Q x"
  shows "lists_at (list_add_head l x h) (Q(l \<mapsto> x # xs))"
proof (rule lists_at_update [where F = "{x}"])
  from assms have d: "dlist h l xs" by (simp add: lists_at_def)
  with assms show "dlist (list_add_head l x h) l (x # xs)"
    by (intro dlist_add_head) (auto simp: unlisted_def footprint_def)
  show "nxt (list_add_head l x h) u = nxt h u \<and> prv (list_add_head l x h) u = prv h u"
    if "u \<notin> footprint l xs \<union> {x}" for u
    using that dlist_ends_in [OF d] by (auto simp: list_add_head_def Let_def footprint_def)
qed (use assms in \<open>auto simp: footprint_def\<close>)

lemma lists_at_add_tail:
  assumes "lists_at h Q" "Q l = Some xs" "unlisted Q x"
  shows "lists_at (list_add_tail l x h) (Q(l \<mapsto> xs @ [x]))"
proof (rule lists_at_update [where F = "{x}"])
  from assms have d: "dlist h l xs" by (simp add: lists_at_def)
  with assms show "dlist (list_add_tail l x h) l (xs @ [x])"
    by (intro dlist_add_tail) (auto simp: unlisted_def footprint_def)
  show "nxt (list_add_tail l x h) u = nxt h u \<and> prv (list_add_tail l x h) u = prv h u"
    if "u \<notin> footprint l xs \<union> {x}" for u
    using that dlist_ends_in [OF d] by (auto simp: list_add_tail_def Let_def footprint_def)
qed (use assms in \<open>auto simp: footprint_def\<close>)

lemma lists_at_delete:
  assumes "lists_at h Q" "Q l = Some xs" "x \<in> set xs"
  shows "lists_at (list_delete x h) (Q(l \<mapsto> remove1 x xs))"
proof (rule lists_at_update [where F = "{}"])
  from assms have d: "dlist h l xs" by (simp add: lists_at_def)
  with assms show "dlist (list_delete x h) l (remove1 x xs)" by (intro dlist_delete)
  from assms(3) obtain ys zs where xs: "xs = ys @ x # zs" by (auto simp: in_set_conv_decomp)
  show "nxt (list_delete x h) u = nxt h u \<and> prv (list_delete x h) u = prv h u"
    if "u \<notin> footprint l xs \<union> {}" for u
    using that hd_snoc_in [of zs l] last_Cons_in [of l ys] d unfolding xs
    by (auto simp: list_delete_links footprint_def simp del: last.simps)
qed (use assms in \<open>auto simp: footprint_def dest: notin_set_remove1\<close>)

lemma lists_at_remove_head_Nil:
  "lists_at h Q \<Longrightarrow> Q l = Some [] \<Longrightarrow> list_remove_head l h = (None, h)"
  using dlist_next [of h l "[]"] by (simp add: lists_at_def list_remove_head_def)

lemma lists_at_remove_head_Cons:
  assumes "lists_at h Q" "Q l = Some (x # xs)"
  shows "fst (list_remove_head l h) = Some x"
    and "lists_at (snd (list_remove_head l h)) (Q(l \<mapsto> xs))"
proof -
  from assms have d: "dlist h l (x # xs)" by (simp add: lists_at_def)
  from dlist_next [OF d] have "nxt h l = x" by simp
  moreover from d have "x \<noteq> l" by (auto simp: dlist_def)
  ultimately have r: "list_remove_head l h = (Some x, list_delete x h)"
    by (simp add: list_remove_head_def)
  then show "fst (list_remove_head l h) = Some x" by simp
  show "lists_at (snd (list_remove_head l h)) (Q(l \<mapsto> xs))"
    using lists_at_delete [OF assms, of x] by (simp add: r)
qed

lemma unlisted_remove:
  assumes "lists_at h Q" "Q l = Some xs" "x \<in> set xs"
  shows "unlisted (Q(l \<mapsto> remove1 x xs)) x"
proof -
  from assms have d: "dlist h l xs" by (simp add: lists_at_def)
  have "x \<notin> footprint m ys" if "Q m = Some ys" "m \<noteq> l" for m ys
    using assms that unfolding lists_at_def footprint_def by fastforce
  moreover have "x \<noteq> 0" using d assms(3) unfolding dlist_def by (metis list.set_intros(2))
  ultimately show ?thesis using d assms(3) by (auto simp: unlisted_def footprint_def dlist_def)
qed

section \<open>The interface the thread code uses\<close>

text \<open>
  \<open>rep h Q\<close> says that heap \<open>h\<close> holds exactly the lists \<open>Q\<close>. The laws are the ones \<open>thread.c\<close>
  relies on when it moves a \<open>queue_node\<close> from one queue to another.
\<close>

locale node_lists =
  fixes rep :: "'h \<Rightarrow> (nat \<Rightarrow> nat list option) \<Rightarrow> bool"
    and add_head :: "nat \<Rightarrow> nat \<Rightarrow> 'h \<Rightarrow> 'h"
    and add_tail :: "nat \<Rightarrow> nat \<Rightarrow> 'h \<Rightarrow> 'h"
    and del :: "nat \<Rightarrow> 'h \<Rightarrow> 'h"
    and remove_head :: "nat \<Rightarrow> 'h \<Rightarrow> nat option \<times> 'h"
  assumes rep_add_head:
    "rep h Q \<Longrightarrow> Q l = Some xs \<Longrightarrow> unlisted Q x \<Longrightarrow> rep (add_head l x h) (Q(l \<mapsto> x # xs))"
    and rep_add_tail:
    "rep h Q \<Longrightarrow> Q l = Some xs \<Longrightarrow> unlisted Q x \<Longrightarrow> rep (add_tail l x h) (Q(l \<mapsto> xs @ [x]))"
    and rep_del:
    "rep h Q \<Longrightarrow> Q l = Some xs \<Longrightarrow> x \<in> set xs \<Longrightarrow> rep (del x h) (Q(l \<mapsto> remove1 x xs))"
    and rep_unlisted:
    "rep h Q \<Longrightarrow> Q l = Some xs \<Longrightarrow> x \<in> set xs \<Longrightarrow> unlisted (Q(l \<mapsto> remove1 x xs)) x"
    and rep_remove_Nil:
    "rep h Q \<Longrightarrow> Q l = Some [] \<Longrightarrow> remove_head l h = (None, h)"
    and rep_remove_Cons:
    "rep h Q \<Longrightarrow> Q l = Some (x # xs) \<Longrightarrow>
       fst (remove_head l h) = Some x \<and> rep (snd (remove_head l h)) (Q(l \<mapsto> xs))"

text \<open>
  The loop of \<open>wait_queue_wake_all\<close> as far as it moves nodes: take the head of the wait list
  \<open>w\<close> and put it at the head of the run queue \<open>q x\<close> of its priority, \<open>n\<close> times at most, and
  what this does to the lists.
\<close>

fun drain :: "(nat \<Rightarrow> 'h \<Rightarrow> nat option \<times> 'h) \<Rightarrow> (nat \<Rightarrow> nat \<Rightarrow> 'h \<Rightarrow> 'h) \<Rightarrow> (nat \<Rightarrow> nat) \<Rightarrow>
    nat \<Rightarrow> nat \<Rightarrow> 'h \<Rightarrow> 'h" where
  "drain rm add q w 0 h = h"
| "drain rm add q w (Suc n) h =
     (case rm w h of (None, h') \<Rightarrow> h' | (Some x, h') \<Rightarrow> drain rm add q w n (add (q x) x h'))"

fun drained :: "(nat \<Rightarrow> nat) \<Rightarrow> nat \<Rightarrow> nat list \<Rightarrow> (nat \<Rightarrow> nat list option) \<Rightarrow> nat \<Rightarrow> nat list option" where
  "drained q w [] Q = Q"
| "drained q w (x # xs) Q = drained q w xs (Q(w \<mapsto> xs, q x \<mapsto> x # the (Q (q x))))"

lemma drained_wait: "(\<And>x. x \<in> set ws \<Longrightarrow> q x \<noteq> w) \<Longrightarrow> Q w = Some ws \<Longrightarrow> drained q w ws Q w = Some []"
proof (induction ws arbitrary: Q)
  case (Cons x xs)
  have "q x \<noteq> w" by (rule Cons.prems(1)) simp
  then have "(Q(w \<mapsto> xs, q x \<mapsto> x # the (Q (q x)))) w = Some xs" by simp
  then show ?case using Cons.prems by (simp add: Cons.IH)
qed simp

lemma drained_queue:
  assumes "\<And>x. x \<in> set ws \<Longrightarrow> q x \<noteq> w" "p \<noteq> w" "Q p = Some ps"
  shows "drained q w ws Q p = Some (rev (filter (\<lambda>x. q x = p) ws) @ ps)"
  using assms
proof (induction ws arbitrary: Q ps)
  case (Cons x xs)
  show ?case
    by (cases "q x = p") (use Cons.prems in \<open>auto intro: Cons.IH simp: Cons.IH\<close>)
qed simp

context node_lists begin

lemma requeue_head:
  assumes "rep h Q" "Q w = Some (x # xs)" "p \<noteq> w" "Q p = Some ps"
  shows "rep (add_head p x (snd (remove_head w h))) (Q(w \<mapsto> xs, p \<mapsto> x # ps))"
proof -
  from assms(1,2) have r: "rep (snd (remove_head w h)) (Q(w \<mapsto> xs))"
    by (simp add: rep_remove_Cons)
  have "unlisted (Q(w \<mapsto> xs)) x"
    using rep_unlisted [OF assms(1,2), of x] by simp
  with r show ?thesis using rep_add_head [OF r, of p ps x] assms(3,4) by simp
qed

lemma drain_rep:
  assumes "rep h Q" "Q w = Some ws" "\<And>x. x \<in> set ws \<Longrightarrow> q x \<noteq> w \<and> q x \<in> dom Q" "length ws \<le> n"
  shows "rep (drain remove_head add_head q w n h) (drained q w ws Q)"
  using assms
proof (induction n arbitrary: h Q ws)
  case 0
  then show ?case by simp
next
  case (Suc n)
  show ?case
  proof (cases ws)
    case Nil
    with Suc.prems show ?thesis by (simp add: rep_remove_Nil)
  next
    case (Cons x xs)
    obtain h' where h': "remove_head w h = (Some x, h')"
      using rep_remove_Cons [of h Q w x xs] Suc.prems Cons
      by (cases "remove_head w h") auto
    from Suc.prems(3) [of x] Cons obtain ps where ps: "q x \<noteq> w" "Q (q x) = Some ps" by auto
    have "rep (add_head (q x) x h') (Q(w \<mapsto> xs, q x \<mapsto> x # ps))"
      using requeue_head [of h Q w x xs "q x" ps] Suc.prems Cons h' ps by simp
    then have "rep (drain remove_head add_head q w n (add_head (q x) x h'))
        (drained q w xs (Q(w \<mapsto> xs, q x \<mapsto> x # ps)))"
    proof (rule Suc.IH)
      show "q y \<noteq> w \<and> q y \<in> dom (Q(w \<mapsto> xs, q x \<mapsto> x # ps))" if "y \<in> set xs" for y
        using Suc.prems(3) [of y] that Cons by auto
    qed (use Suc.prems Cons ps in auto)
    with h' ps Cons show ?thesis by simp
  qed
qed

end

interpretation lk: node_lists lists_at list_add_head list_add_tail list_delete list_remove_head
  by unfold_locales
    (simp_all add: lists_at_add_head lists_at_add_tail lists_at_delete unlisted_remove
      lists_at_remove_head_Nil lists_at_remove_head_Cons)

end
