(* ===== verification/Wait_Queue.thy ===== *)
theory Wait_Queue imports Scheduler Intrusive_List begin

text \<open>
  The wait queues of \<open>src/lk/kernel/thread.c\<close>: \<open>wait_queue_init\<close>, \<open>wait_queue_block\<close>,
  \<open>wait_queue_wake_one\<close>, \<open>wait_queue_wake_all\<close>, \<open>wait_queue_destroy\<close>,
  \<open>thread_unblock_from_wait_queue\<close> and \<open>wait_queue_timeout_handler\<close>, with the timer functions of
  \<open>src/lk/arch_thread.c\<close>, and the facts that blocking and waking keep the scheduler invariant.
\<close>

section \<open>The timers of this port\<close>

text \<open>Every timer function is \<open>assert(0)\<close>.\<close>

definition timer_initialize :: kres where "timer_initialize = Panic ''assert(0)''"
definition timer_set_oneshot :: kres where "timer_set_oneshot = Panic ''assert(0)''"
definition timer_cancel :: kres where "timer_cancel = Panic ''assert(0)''"

section \<open>The operations\<close>

definition wait_queue_init :: "wq_ref \<Rightarrow> kernel \<Rightarrow> kernel" where
  "wait_queue_init w k =
     upd_wq w (\<lambda>_. \<lparr>wq_magic = WAIT_QUEUE_MAGIC, wq_list = [], wq_count = 0\<rparr>) k"

text \<open>The part of \<open>wait_queue_block\<close> after the dispatcher came back to the blocked thread.\<close>

definition wait_queue_block_end :: "u32 \<Rightarrow> kernel \<Rightarrow> kres" where
  "wait_queue_block_end timeout k =
     (if timeout \<noteq> INFINITE_TIME then timer_cancel
      else Ret (t_wait_queue_block_ret (threads k (current_thread k))) k)"

definition wq_enqueue :: "wq_ref \<Rightarrow> kernel \<Rightarrow> kernel" where
  "wq_enqueue w k =
     (let ct = current_thread k;
          k = upd_wq w (\<lambda>q. q\<lparr>wq_list := wq_list q @ [ct], wq_count := wq_count q + 1\<rparr>) k
      in upd_thread ct (\<lambda>t. t\<lparr>t_state := THREAD_BLOCKED, t_blocking_wait_queue := Some w,
                              t_wait_queue_block_ret := NO_ERROR\<rparr>) k)"

definition wait_queue_block :: "wq_ref \<Rightarrow> u32 \<Rightarrow> frame list \<Rightarrow> kernel \<Rightarrow> kres" where
  "wait_queue_block w timeout fs k =
     (if timeout = 0 then Ret ERR_TIMED_OUT k
      else
        let k = wq_enqueue w k
        in kbind (if timeout \<noteq> INFINITE_TIME then kbind timer_initialize (\<lambda>_ _. timer_set_oneshot)
                  else ret_void k)
             (\<lambda>_ k. kbind (thread_resched (In_wait_queue_block timeout # fs) k)
                      (\<lambda>_. wait_queue_block_end timeout)))"

text \<open>
  Taking the head of a wait queue: \<open>list_remove_head_type\<close>, \<open>wait->count--\<close> and the three
  assignments to the thread.
\<close>

definition wq_pop :: "wq_ref \<Rightarrow> tid \<Rightarrow> tid list \<Rightarrow> int \<Rightarrow> kernel \<Rightarrow> kernel" where
  "wq_pop w t ts err k =
     (let k = upd_wq w (\<lambda>q. q\<lparr>wq_list := ts, wq_count := wq_count q - 1\<rparr>) k
      in upd_thread t (\<lambda>t. t\<lparr>t_state := THREAD_READY, t_wait_queue_block_ret := err,
                             t_blocking_wait_queue := None\<rparr>) k)"

text \<open>"Stick the current thread on the head of the run queue first".\<close>

definition requeue_current :: "kernel \<Rightarrow> kernel" where
  "requeue_current k =
     (let ct = current_thread k
      in insert_in_run_queue_head ct (upd_thread ct (\<lambda>t. t\<lparr>t_state := THREAD_READY\<rparr>) k))"

definition wait_queue_wake_one :: "wq_ref \<Rightarrow> bool \<Rightarrow> int \<Rightarrow> frame list \<Rightarrow> kernel \<Rightarrow> kres" where
  "wait_queue_wake_one w reschedule err fs k =
     (case waiters k w of
        [] \<Rightarrow> Ret 0 k
      | t # ts \<Rightarrow>
          let k = wq_pop w t ts err k;
              k = (if reschedule then requeue_current k else k);
              k = insert_in_run_queue_head t k
          in if reschedule
             then kbind (thread_resched (In_wait_queue_wake 1 # fs) k) (\<lambda>_. Ret 1)
             else Ret 1 k)"

function wake_all_loop :: "wq_ref \<Rightarrow> int \<Rightarrow> int \<Rightarrow> kernel \<Rightarrow> int \<times> kernel" where
  "wake_all_loop w err ret k =
     (case waiters k w of
        [] \<Rightarrow> (ret, k)
      | t # ts \<Rightarrow> wake_all_loop w err (ret + 1) (insert_in_run_queue_head t (wq_pop w t ts err k)))"
  by pat_completeness auto
termination
  by (relation "measure (\<lambda>(w, err, ret, k). length (waiters k w))")
    (auto simp: wq_pop_def Let_def upd_wq_def upd_thread_def)

declare wake_all_loop.simps [simp del]

definition wait_queue_wake_all :: "wq_ref \<Rightarrow> bool \<Rightarrow> int \<Rightarrow> frame list \<Rightarrow> kernel \<Rightarrow> kres" where
  "wait_queue_wake_all w reschedule err fs k =
     (let k = (if reschedule \<and> wq_count (wait_queues k w) > 0 then requeue_current k else k);
          (ret, k) = wake_all_loop w err 0 k
      in if ret > 0 \<and> reschedule
         then kbind (thread_resched (In_wait_queue_wake ret # fs) k) (\<lambda>_. Ret ret)
         else Ret ret k)"

definition wait_queue_destroy_end :: "wq_ref \<Rightarrow> kernel \<Rightarrow> kres" where
  "wait_queue_destroy_end w k = ret_void (upd_wq w (\<lambda>q. q\<lparr>wq_magic := 0\<rparr>) k)"

definition wait_queue_destroy :: "wq_ref \<Rightarrow> bool \<Rightarrow> frame list \<Rightarrow> kernel \<Rightarrow> kres" where
  "wait_queue_destroy w reschedule fs k =
     kbind (wait_queue_wake_all w reschedule ERR_OBJECT_DESTROYED (In_wait_queue_destroy w # fs) k)
       (\<lambda>_. wait_queue_destroy_end w)"

text \<open>
  \<open>list_delete\<close> unlinks a node from whatever list holds it; a node of a blocked thread can
  only be on a wait queue.
\<close>

definition unlink_waiter :: "tid \<Rightarrow> kernel \<Rightarrow> kernel" where
  "unlink_waiter t k =
     k\<lparr>wait_queues := (\<lambda>w. (wait_queues k w)\<lparr>wq_list := remove1 t (waiters k w)\<rparr>)\<rparr>"

definition thread_unblock_from_wait_queue :: "tid \<Rightarrow> int \<Rightarrow> kernel \<Rightarrow> kres" where
  "thread_unblock_from_wait_queue t err k =
     (if tstate k t \<noteq> THREAD_BLOCKED then Ret ERR_NOT_BLOCKED k
      else
        let k = unlink_waiter t k
        in case twait k t of
             None \<Rightarrow> Panic ''NULL dereference''
           | Some w \<Rightarrow>
               let k = upd_wq w (\<lambda>q. q\<lparr>wq_count := wq_count q - 1\<rparr>) k;
                   k = upd_thread t (\<lambda>t. t\<lparr>t_blocking_wait_queue := None, t_state := THREAD_READY,
                                           t_wait_queue_block_ret := err\<rparr>) k
               in Ret NO_ERROR (insert_in_run_queue_head t k))"

datatype handler_return = INT_NO_RESCHEDULE | INT_RESCHEDULE

fun wait_queue_timeout_handler :: "tid \<Rightarrow> kernel \<Rightarrow> (handler_return \<times> kernel) option" where
  "wait_queue_timeout_handler t k =
     (case thread_unblock_from_wait_queue t ERR_TIMED_OUT (spin_lock k) of
        Ret r k \<Rightarrow> Some (if r \<ge> NO_ERROR then INT_RESCHEDULE else INT_NO_RESCHEDULE, spin_unlock k)
      | _ \<Rightarrow> None)"

section \<open>Primitive steps and the invariant\<close>

lemma upd_wq_other [simp]:
  "threads (upd_wq w f k) = threads k"
  "run_queue (upd_wq w f k) = run_queue k"
  "run_queue_bitmap (upd_wq w f k) = run_queue_bitmap k"
  "current_thread (upd_wq w f k) = current_thread k"
  "mutexes (upd_wq w f k) = mutexes k"
  "sems (upd_wq w f k) = sems k"
  "events (upd_wq w f k) = events k"
  "stacks (upd_wq w f k) = stacks k"
  "thread_list (upd_wq w f k) = thread_list k"
  "thread_lock (upd_wq w f k) = thread_lock k"
  "ints_enabled (upd_wq w f k) = ints_enabled k"
  "freed (upd_wq w f k) = freed k"
  "wait_queues (upd_wq w f k) v = (if v = w then f (wait_queues k w) else wait_queues k v)"
  by (simp_all add: upd_wq_def)

lemma base_inv_wq_pop:
  assumes "base_inv T k" "waiters k w = t # ts"
  shows "base_inv (insert t T) (wq_pop w t ts err k)"
proof -
  have mem: "u \<in> set (waiters k v) \<longleftrightarrow> tstate k u = THREAD_BLOCKED \<and> twait k u = Some v" for u v
    using assms(1) by (simp add: base_inv_def waitq_ok_def)
  have t: "tstate k t = THREAD_BLOCKED" "twait k t = Some w" "t \<notin> set ts" "distinct ts"
    using mem [of t w] assms by (auto simp: base_inv_def waitq_ok_def dest: spec [of _ w])
  have ts: "u \<in> set ts \<longleftrightarrow> u \<noteq> t \<and> tstate k u = THREAD_BLOCKED \<and> twait k u = Some w" for u
    using mem [of u w] assms(2) t by auto
  have "wq_count (wait_queues k w) = int (length ts) + 1"
    using assms by (auto simp: base_inv_def waitq_ok_def)
  with assms(1) t mem ts show ?thesis
    by (auto simp: inv_defs wq_pop_def Let_def)
qed

lemma base_inv_wq_enqueue:
  assumes "base_inv T k" "tstate k (current_thread k) = THREAD_RUNNING"
    "current_thread k \<noteq> idle_thread"
  shows "base_inv T (wq_enqueue w k)"
  using assms by (auto simp: inv_defs wq_enqueue_def Let_def)

lemma base_inv_requeue_current:
  assumes "base_inv T k" "tstate k (current_thread k) = THREAD_RUNNING"
  shows "base_inv T (requeue_current k)"
proof -
  have "current_thread k \<notin> T" using assms by (auto simp: base_inv_def runq_ok_def)
  with base_inv_insert_head [OF base_inv_make_ready [OF assms(1), of "current_thread k"], of "current_thread k"] assms(2)
  show ?thesis by (simp add: requeue_current_def Let_def)
qed


lemma requeue_current_simps [simp]:
  "current_thread (requeue_current k) = current_thread k"
  "wait_queues (requeue_current k) = wait_queues k"
  "stacks (requeue_current k) = stacks k"
  "mutexes (requeue_current k) = mutexes k"
  "sems (requeue_current k) = sems k"
  "events (requeue_current k) = events k"
  "thread_list (requeue_current k) = thread_list k"
  "thread_lock (requeue_current k) = thread_lock k"
  "ints_enabled (requeue_current k) = ints_enabled k"
  "freed (requeue_current k) = freed k"
  "threads (requeue_current k) t =
     (if t = current_thread k then (threads k t)\<lparr>t_state := THREAD_READY\<rparr> else threads k t)"
  by (simp_all add: requeue_current_def Let_def)

lemma wq_enqueue_simps [simp]:
  "current_thread (wq_enqueue w k) = current_thread k"
  "stacks (wq_enqueue w k) = stacks k"
  "mutexes (wq_enqueue w k) = mutexes k"
  "sems (wq_enqueue w k) = sems k"
  "events (wq_enqueue w k) = events k"
  "thread_list (wq_enqueue w k) = thread_list k"
  "thread_lock (wq_enqueue w k) = thread_lock k"
  "ints_enabled (wq_enqueue w k) = ints_enabled k"
  "freed (wq_enqueue w k) = freed k"
  "waiters (wq_enqueue w k) v = (if v = w then waiters k w @ [current_thread k] else waiters k v)"
  "threads (wq_enqueue w k) t =
     (if t = current_thread k
      then (threads k t)\<lparr>t_state := THREAD_BLOCKED, t_blocking_wait_queue := Some w,
                          t_wait_queue_block_ret := NO_ERROR\<rparr>
      else threads k t)"
  by (simp_all add: wq_enqueue_def Let_def)

lemma wq_pop_simps [simp]:
  "current_thread (wq_pop w t ts err k) = current_thread k"
  "stacks (wq_pop w t ts err k) = stacks k"
  "mutexes (wq_pop w t ts err k) = mutexes k"
  "sems (wq_pop w t ts err k) = sems k"
  "events (wq_pop w t ts err k) = events k"
  "thread_list (wq_pop w t ts err k) = thread_list k"
  "thread_lock (wq_pop w t ts err k) = thread_lock k"
  "ints_enabled (wq_pop w t ts err k) = ints_enabled k"
  "freed (wq_pop w t ts err k) = freed k"
  "run_queue (wq_pop w t ts err k) = run_queue k"
  "waiters (wq_pop w t ts err k) v = (if v = w then ts else waiters k v)"
  "wq_count (wait_queues (wq_pop w t ts err k) v) =
     (if v = w then wq_count (wait_queues k w) - 1 else wq_count (wait_queues k v))"
  "threads (wq_pop w t ts err k) u =
     (if u = t then (threads k t)\<lparr>t_state := THREAD_READY, t_wait_queue_block_ret := err,
                                   t_blocking_wait_queue := None\<rparr>
      else threads k u)"
  by (simp_all add: wq_pop_def Let_def)

section \<open>Blocking\<close>

text \<open>
  Blocking with an infinite timeout always gives the processor away: the blocked thread is on no
  run queue, so the dispatcher cannot pick it again.
\<close>

lemma wait_queue_block_switches:
  assumes "sched_inv k" "current_thread k \<noteq> idle_thread"
  obtains k' where "wait_queue_block w INFINITE_TIME fs k = Switch k'"
    "resched_rel (wq_enqueue w k) k'" "sched_inv k'" "current_thread k' \<noteq> current_thread k"
    "stacks k' = (stacks k)(current_thread k := In_wait_queue_block INFINITE_TIME # fs)"
proof -
  have run: "tstate k t = THREAD_RUNNING \<longleftrightarrow> t = current_thread k" for t
    using assms(1) by (simp add: sched_inv_def)
  have "base_inv {} (wq_enqueue w k)"
    using assms run by (intro base_inv_wq_enqueue) (auto simp: sched_inv_def)
  with run have "parked (wq_enqueue w k)" by (auto simp: parked_def)
  then show ?thesis
  proof (cases rule: thread_resched_cases [where fs = "In_wait_queue_block INFINITE_TIME # fs"])
    case (stay k')
    with assms(2) show ?thesis by simp
  next
    case (switch k')
    then show ?thesis
      by (intro that [of k']) (auto simp: wait_queue_block_def INFINITE_TIME_def)
  qed
qed

lemma wait_queue_block_timeout_0: "wait_queue_block w 0 fs k = Ret ERR_TIMED_OUT k"
  by (simp add: wait_queue_block_def)

lemma wait_queue_block_finite:
  "timeout \<noteq> 0 \<Longrightarrow> timeout \<noteq> INFINITE_TIME \<Longrightarrow>
   wait_queue_block w timeout fs k = Panic ''assert(0)''"
  by (simp add: wait_queue_block_def Let_def timer_initialize_def)

section \<open>Waking\<close>

text \<open>The state after a waiter was moved to the run queue.\<close>

definition woken :: "wq_ref \<Rightarrow> tid \<Rightarrow> tid list \<Rightarrow> int \<Rightarrow> kernel \<Rightarrow> kernel" where
  "woken w t ts err k = insert_in_run_queue_head t (wq_pop w t ts err k)"

lemma woken_simps [simp]:
  "current_thread (woken w t ts err k) = current_thread k"
  "stacks (woken w t ts err k) = stacks k"
  "mutexes (woken w t ts err k) = mutexes k"
  "sems (woken w t ts err k) = sems k"
  "events (woken w t ts err k) = events k"
  "thread_list (woken w t ts err k) = thread_list k"
  "thread_lock (woken w t ts err k) = thread_lock k"
  "ints_enabled (woken w t ts err k) = ints_enabled k"
  "freed (woken w t ts err k) = freed k"
  "waiters (woken w t ts err k) v = (if v = w then ts else waiters k v)"
  "threads (woken w t ts err k) u =
     (if u = t then (threads k t)\<lparr>t_state := THREAD_READY, t_wait_queue_block_ret := err,
                                   t_blocking_wait_queue := None\<rparr>
      else threads k u)"
  by (simp_all add: woken_def)

lemma woken_run_queue:
  "run_queue (woken w t ts err k) p =
     (if p = nat (tprio k t) then t # run_queue k p else run_queue k p)"
  by (simp add: woken_def insert_in_run_queue_head_def Let_def)

lemma base_inv_woken:
  assumes "base_inv T k" "waiters k w = t # ts"
  shows "base_inv T (woken w t ts err k)"
proof -
  have "t \<in> set (waiters k w)" using assms(2) by simp
  then have "tstate k t = THREAD_BLOCKED" using assms(1) unfolding base_inv_def waitq_ok_def by blast
  then have "t \<notin> T" using assms(1) by (auto simp: base_inv_def runq_ok_def)
  with base_inv_insert_head [OF base_inv_wq_pop [OF assms, of err], of t]
  show ?thesis by (simp add: woken_def)
qed

lemma wake_all_loop_simps:
  "waiters k w = [] \<Longrightarrow> wake_all_loop w err ret k = (ret, k)"
  "waiters k w = t # ts \<Longrightarrow>
     wake_all_loop w err ret k = wake_all_loop w err (ret + 1) (woken w t ts err k)"
  by (subst wake_all_loop.simps, simp add: woken_def)+

text \<open>
  \<open>wake_all_rel w err k k'\<close>: every waiter of \<open>w\<close> was made ready with the value \<open>err\<close> and now
  stands at the head of the run queue of its priority, the last waiter first.
\<close>

definition wake_all_rel :: "wq_ref \<Rightarrow> int \<Rightarrow> kernel \<Rightarrow> kernel \<Rightarrow> bool" where
  "wake_all_rel w err k k' \<longleftrightarrow>
     same_objects k k' \<and> current_thread k' = current_thread k \<and> stacks k' = stacks k \<and>
     thread_list k' = thread_list k \<and> thread_lock k' = thread_lock k \<and>
     ints_enabled k' = ints_enabled k \<and> freed k' = freed k \<and>
     (\<forall>v. waiters k' v = (if v = w then [] else waiters k v)) \<and>
     (\<forall>t. threads k' t =
        (if t \<in> set (waiters k w)
         then (threads k t)\<lparr>t_state := THREAD_READY, t_wait_queue_block_ret := err,
                             t_blocking_wait_queue := None\<rparr>
         else threads k t)) \<and>
     (\<forall>p. run_queue k' p = rev (filter (\<lambda>t. nat (tprio k t) = p) (waiters k w)) @ run_queue k p)"

lemma wake_all_loop_spec:
  assumes "base_inv T k"
  shows "\<exists>k'. wake_all_loop w err ret k = (ret + int (length (waiters k w)), k') \<and>
           base_inv T k' \<and> wake_all_rel w err k k'"
  using assms
proof (induction "length (waiters k w)" arbitrary: k ret)
  case 0
  then show ?case by (auto simp: wake_all_loop_simps wake_all_rel_def same_objects_def)
next
  case (Suc n)
  then obtain t ts where ts: "waiters k w = t # ts" by (cases "waiters k w") auto
  let ?k = "woken w t ts err k"
  have dist: "t \<notin> set ts" using Suc.prems ts by (auto simp: base_inv_def waitq_ok_def dest: spec [of _ w])
  have "n = length (waiters ?k w)" using Suc.hyps(2) ts by simp
  from Suc.hyps(1) [OF this base_inv_woken [OF Suc.prems ts], of "ret + 1"]
  obtain k' where k': "wake_all_loop w err (ret + 1) ?k = (ret + 1 + int (length ts), k')"
    "base_inv T k'" "wake_all_rel w err ?k k'" by auto
  have "filter (\<lambda>u. nat (tprio ?k u) = p) ts = filter (\<lambda>u. nat (tprio k u) = p) ts" for p
    by (rule filter_cong) auto
  with k'(3) dist have "wake_all_rel w err k k'"
    by (auto simp: wake_all_rel_def ts same_objects_def woken_run_queue)
  with k' ts show ?case by (auto simp: wake_all_loop_simps)
qed

text \<open>
  The order of waking is the one that the pointer code produces: the HOL list manipulation of
  \<open>wake_all_loop\<close> and \<open>drain\<close> of \<open>Intrusive_List\<close> leave the same queues.
\<close>

lemma wake_all_rel_drained:
  assumes "wake_all_rel w err k k'"
    and "\<And>t. t \<in> set (waiters k w) \<Longrightarrow> q t \<noteq> a"
    and "\<And>t. t \<in> set (waiters k w) \<Longrightarrow> q t = q0 p \<longleftrightarrow> nat (tprio k t) = p"
    and "Q a = Some (waiters k w)" "Q (q0 p) = Some (run_queue k p)" "q0 p \<noteq> a"
  shows "drained q a (waiters k w) Q (q0 p) = Some (run_queue k' p)"
proof -
  have "drained q a (waiters k w) Q (q0 p) =
      Some (rev (filter (\<lambda>t. q t = q0 p) (waiters k w)) @ run_queue k p)"
    using assms by (intro drained_queue) auto
  moreover have "filter (\<lambda>t. q t = q0 p) (waiters k w) = filter (\<lambda>t. nat (tprio k t) = p) (waiters k w)"
    using assms(3) by (rule filter_cong [OF refl])
  ultimately show ?thesis using assms(1) by (simp add: wake_all_rel_def)
qed

end
