(* ===== verification/Thread.thy ===== *)
theory Thread imports Wait_Queue begin

text \<open>
  The thread operations of \<open>src/lk/kernel/thread.c\<close> with the context code of
  \<open>src/lk/arch_thread.c\<close> and \<open>heap_delayed_free\<close> of \<open>src/lk/heap.c\<close>: creation, resume, join,
  detach, exit, yield, preempt, block, unblock, the timer tick, sleep, names, priorities and the
  start-up of the package. A function that can reach the dispatcher gets the frames \<open>fs\<close> of its
  callers; the part of a function after the call that reached the dispatcher has a name that ends
  in \<open>_end\<close> when the saved stack has to be able to continue there.
\<close>

section \<open>Heap and context\<close>

definition heap_delayed_free :: "alloc \<Rightarrow> kernel \<Rightarrow> kernel" where
  "heap_delayed_free p k = k"

definition free_mem :: "alloc \<Rightarrow> kernel \<Rightarrow> kernel" where
  "free_mem p k = k\<lparr>freed := freed k @ [p]\<rparr>"

definition arch_thread_initialize :: "tid \<Rightarrow> kernel \<Rightarrow> kernel" where
  "arch_thread_initialize t k = k\<lparr>stacks := (stacks k)(t := [In_initial_thread])\<rparr>"

text \<open>\<open>initial_thread_func\<close> up to the call of the entry point.\<close>

definition initial_thread_func :: "kernel \<Rightarrow> kres" where
  "initial_thread_func k = ret_void (spin_unlock k)"

section \<open>Creation\<close>

definition strlcpy32 :: "string \<Rightarrow> string" where
  "strlcpy32 s = take 31 s"

definition init_thread_struct :: "tid \<Rightarrow> string \<Rightarrow> kernel \<Rightarrow> kernel" where
  "init_thread_struct t name k =
     (let k = upd_thread t (\<lambda>_.
            \<lparr>t_magic = THREAD_MAGIC, t_priority = 0, t_state = THREAD_SUSPENDED,
             t_remaining_quantum = 0, t_flags = 0, t_errno = 0, t_blocking_wait_queue = None,
             t_wait_queue_block_ret = 0, t_stack = None, t_stack_size = 0, t_entry = 0, t_arg = 0,
             t_retcode = 0, t_name = strlcpy32 name\<rparr>) k
      in upd_wq (Retcode_wait t) (\<lambda>_. \<lparr>wq_magic = 0, wq_list = [], wq_count = 0\<rparr>) k)"

text \<open>
  \<open>m_struct\<close> and \<open>m_stack\<close> are what \<open>malloc\<close> answers for the structure and for the stack.
\<close>

definition thread_create_etc ::
  "tid option \<Rightarrow> string \<Rightarrow> nat \<Rightarrow> nat \<Rightarrow> int \<Rightarrow> nat option \<Rightarrow> nat \<Rightarrow>
   tid option \<Rightarrow> nat option \<Rightarrow> kernel \<Rightarrow> tid option \<times> kernel" where
  "thread_create_etc t0 name entry arg priority stack stack_size m_struct m_stack k =
     (let flags = (0 :: u32);
          (t1, flags) = (case t0 of None \<Rightarrow> (m_struct, flags OR THREAD_FLAG_FREE_STRUCT)
                                  | Some _ \<Rightarrow> (t0, flags))
      in case t1 of
           None \<Rightarrow> (None, k)
         | Some t \<Rightarrow>
             let k = init_thread_struct t name k;
                 k = upd_thread t (\<lambda>x. x\<lparr>t_entry := entry, t_arg := arg, t_priority := priority,
                       t_state := THREAD_SUSPENDED, t_blocking_wait_queue := None,
                       t_wait_queue_block_ret := NO_ERROR, t_retcode := 0\<rparr>) k;
                 k = wait_queue_init (Retcode_wait t) k;
                 k = upd_thread t (\<lambda>x. x\<lparr>t_errno := 0\<rparr>) k;
                 (stk, flags) = (case stack of None \<Rightarrow> (m_stack, flags OR THREAD_FLAG_FREE_STACK)
                                             | Some _ \<Rightarrow> (stack, flags));
                 k = upd_thread t (\<lambda>x. x\<lparr>t_stack := stk\<rparr>) k
             in if stk = None
                then (None, if flags AND THREAD_FLAG_FREE_STRUCT \<noteq> 0
                            then free_mem (Struct_of t) k else k)
                else
                  let k = upd_thread t (\<lambda>x. x\<lparr>t_stack_size := stack_size, t_flags := flags\<rparr>) k;
                      k = arch_thread_initialize t k;
                      (st, k) = THREAD_LOCK k;
                      k = k\<lparr>thread_list := t # thread_list k\<rparr>;
                      k = THREAD_UNLOCK st k
                  in (Some t, k))"

definition thread_create ::
  "string \<Rightarrow> nat \<Rightarrow> nat \<Rightarrow> int \<Rightarrow> nat \<Rightarrow> tid option \<Rightarrow> nat option \<Rightarrow> kernel \<Rightarrow> tid option \<times> kernel" where
  "thread_create name entry arg priority stack_size m_struct m_stack k =
     thread_create_etc None name entry arg priority None stack_size m_struct m_stack k"

section \<open>Flags\<close>

definition thread_set_real_time :: "tid option \<Rightarrow> kernel \<Rightarrow> kres" where
  "thread_set_real_time t0 k =
     (case t0 of
        None \<Rightarrow> Ret ERR_INVALID_ARGS k
      | Some t \<Rightarrow>
          let (st, k) = THREAD_LOCK k;
              k = upd_thread t (\<lambda>x. x\<lparr>t_flags := t_flags x OR THREAD_FLAG_REAL_TIME\<rparr>) k
          in Ret NO_ERROR (THREAD_UNLOCK st k))"

definition thread_is_realtime :: "kernel \<Rightarrow> tid \<Rightarrow> bool" where
  "thread_is_realtime k t \<longleftrightarrow>
     t_flags (threads k t) AND THREAD_FLAG_REAL_TIME \<noteq> 0 \<and> tprio k t > DEFAULT_PRIORITY"

definition thread_is_idle :: "kernel \<Rightarrow> tid \<Rightarrow> bool" where
  "thread_is_idle k t \<longleftrightarrow> t_flags (threads k t) AND THREAD_FLAG_IDLE \<noteq> 0"

definition thread_is_real_time_or_idle :: "kernel \<Rightarrow> tid \<Rightarrow> bool" where
  "thread_is_real_time_or_idle k t \<longleftrightarrow>
     t_flags (threads k t) AND (THREAD_FLAG_REAL_TIME OR THREAD_FLAG_IDLE) \<noteq> 0"

section \<open>Giving up the processor\<close>

definition set_state :: "tid \<Rightarrow> thread_state \<Rightarrow> kernel \<Rightarrow> kernel" where
  "set_state t s k = upd_thread t (\<lambda>x. x\<lparr>t_state := s\<rparr>) k"

definition thread_yield :: "frame list \<Rightarrow> kernel \<Rightarrow> kres" where
  "thread_yield fs k =
     (let ct = current_thread k;
          (st, k) = THREAD_LOCK k;
          k = set_state ct THREAD_READY k;
          k = upd_thread ct (\<lambda>x. x\<lparr>t_remaining_quantum := 0\<rparr>) k;
          k = (if \<not> thread_is_idle k ct then insert_in_run_queue_tail ct k else k)
      in kbind (thread_resched (In_thread_yield st # fs) k) (\<lambda>_ k. ret_void (THREAD_UNLOCK st k)))"

definition thread_preempt :: "frame list \<Rightarrow> kernel \<Rightarrow> kres" where
  "thread_preempt fs k =
     (let ct = current_thread k;
          (st, k) = THREAD_LOCK k;
          k = set_state ct THREAD_READY k;
          k = (if \<not> thread_is_idle k ct
               then if t_remaining_quantum (threads k ct) > 0 then insert_in_run_queue_head ct k
                    else insert_in_run_queue_tail ct k
               else k)
      in kbind (thread_resched (In_thread_preempt st # fs) k) (\<lambda>_ k. ret_void (THREAD_UNLOCK st k)))"

definition thread_block :: "frame list \<Rightarrow> kernel \<Rightarrow> kres" where
  "thread_block fs k = thread_resched fs k"

definition thread_unblock :: "tid \<Rightarrow> bool \<Rightarrow> frame list \<Rightarrow> kernel \<Rightarrow> kres" where
  "thread_unblock t resched fs k =
     (let k = set_state t THREAD_READY k;
          k = insert_in_run_queue_head t k
      in if resched then thread_resched (In_thread_unblock # fs) k else ret_void k)"

definition thread_timer_tick :: "kernel \<Rightarrow> handler_return \<times> kernel" where
  "thread_timer_tick k =
     (let ct = current_thread k
      in if thread_is_real_time_or_idle k ct then (INT_NO_RESCHEDULE, k)
         else
           let k = upd_thread ct (\<lambda>x. x\<lparr>t_remaining_quantum := t_remaining_quantum x - 1\<rparr>) k
           in if t_remaining_quantum (threads k ct) \<le> 0 then (INT_RESCHEDULE, k)
              else (INT_NO_RESCHEDULE, k))"

definition thread_sleep_handler :: "tid \<Rightarrow> kernel \<Rightarrow> handler_return \<times> kernel" where
  "thread_sleep_handler t k =
     (let (st, k) = THREAD_LOCK k;
          k = set_state t THREAD_READY k;
          k = insert_in_run_queue_head t k
      in (INT_RESCHEDULE, THREAD_UNLOCK st k))"

definition thread_sleep :: "u32 \<Rightarrow> frame list \<Rightarrow> kernel \<Rightarrow> kres" where
  "thread_sleep delay fs k =
     (let ct = current_thread k
      in kbind timer_initialize (\<lambda>_ k.
           let (st, k) = THREAD_LOCK k
           in kbind timer_set_oneshot (\<lambda>_ k.
                kbind (thread_resched (In_thread_sleep st # fs) (set_state ct THREAD_SLEEPING k))
                  (\<lambda>_ k. ret_void (THREAD_UNLOCK st k)))))"

definition arch_idle :: "frame list \<Rightarrow> kernel \<Rightarrow> kres" where
  "arch_idle fs k = thread_preempt fs k"

section \<open>Starting and ending threads\<close>

definition thread_resume :: "tid \<Rightarrow> frame list \<Rightarrow> kernel \<Rightarrow> kres" where
  "thread_resume t fs k =
     (let resched = False;
          ints_disabled = arch_ints_disabled k;
          (st, k) = THREAD_LOCK k;
          (resched, k) =
            (if tstate k t = THREAD_SUSPENDED
             then let k = insert_in_run_queue_head t (set_state t THREAD_READY k)
                  in (if \<not> ints_disabled then True else resched, k)
             else (resched, k));
          k = THREAD_UNLOCK st k
      in if resched then kbind (thread_yield (In_thread_resume # fs) k) (\<lambda>_. Ret NO_ERROR)
         else Ret NO_ERROR k)"

text \<open>The part of \<open>thread_join\<close> that runs when the thread \<open>t\<close> is dead.\<close>

definition thread_join_reap :: "tid \<Rightarrow> nat option \<Rightarrow> u32 \<Rightarrow> kernel \<Rightarrow> kres" where
  "thread_join_reap t retcode st k =
     (let k = (case retcode of None \<Rightarrow> k
               | Some a \<Rightarrow> k\<lparr>cells := (cells k)(a := t_retcode (threads k t))\<rparr>);
          k = k\<lparr>thread_list := remove1 t (thread_list k)\<rparr>;
          k = upd_thread t (\<lambda>x. x\<lparr>t_magic := 0\<rparr>) k;
          k = THREAD_UNLOCK st k;
          k = (if t_flags (threads k t) AND THREAD_FLAG_FREE_STACK \<noteq> 0 \<and> t_stack (threads k t) \<noteq> None
               then free_mem (Stack_of t) k else k);
          k = (if t_flags (threads k t) AND THREAD_FLAG_FREE_STRUCT \<noteq> 0
               then free_mem (Struct_of t) k else k)
      in Ret NO_ERROR k)"

definition thread_join_end :: "tid \<Rightarrow> nat option \<Rightarrow> u32 \<Rightarrow> int \<Rightarrow> kernel \<Rightarrow> kres" where
  "thread_join_end t retcode st err k =
     (if err < 0 then Ret err (THREAD_UNLOCK st k) else thread_join_reap t retcode st k)"

definition thread_join :: "tid \<Rightarrow> nat option \<Rightarrow> u32 \<Rightarrow> frame list \<Rightarrow> kernel \<Rightarrow> kres" where
  "thread_join t retcode timeout fs k =
     (let (st, k) = THREAD_LOCK k
      in if t_flags (threads k t) AND THREAD_FLAG_DETACHED \<noteq> 0
         then Ret ERR_THREAD_DETACHED (THREAD_UNLOCK st k)
         else if tstate k t \<noteq> THREAD_DEATH
         then kbind (wait_queue_block (Retcode_wait t) timeout (In_thread_join t retcode st # fs) k)
                (thread_join_end t retcode st)
         else thread_join_reap t retcode st k)"

definition thread_detach :: "tid \<Rightarrow> frame list \<Rightarrow> kernel \<Rightarrow> kres" where
  "thread_detach t fs k =
     (let (st, k) = THREAD_LOCK k
      in kbind (wait_queue_wake_all (Retcode_wait t) False ERR_THREAD_DETACHED fs k) (\<lambda>_ k.
           if tstate k t = THREAD_DEATH
           then let k = upd_thread t (\<lambda>x. x\<lparr>t_flags := t_flags x AND NOT THREAD_FLAG_DETACHED\<rparr>) k
                in thread_join t None 0 fs (THREAD_UNLOCK st k)
           else let k = upd_thread t (\<lambda>x. x\<lparr>t_flags := t_flags x OR THREAD_FLAG_DETACHED\<rparr>) k
                in Ret NO_ERROR (THREAD_UNLOCK st k)))"

definition thread_detach_and_resume :: "tid \<Rightarrow> frame list \<Rightarrow> kernel \<Rightarrow> kres" where
  "thread_detach_and_resume t fs k =
     kbind (thread_detach t fs k) (\<lambda>err k. if err < 0 then Ret err k else thread_resume t fs k)"

definition THREAD_FLAG_DEBUG_STACK_BOUNDS_CHECK :: u32 where
  "THREAD_FLAG_DEBUG_STACK_BOUNDS_CHECK = push_bit 5 1"

text \<open>The teardown of a detached thread that exits.\<close>

definition exit_detached :: "tid \<Rightarrow> kernel \<Rightarrow> kernel" where
  "exit_detached ct k =
     (let k = k\<lparr>thread_list := remove1 ct (thread_list k)\<rparr>;
          k = upd_thread ct (\<lambda>x. x\<lparr>t_magic := 0\<rparr>) k;
          k = (if t_flags (threads k ct) AND THREAD_FLAG_FREE_STACK \<noteq> 0 \<and> t_stack (threads k ct) \<noteq> None
               then upd_thread ct (\<lambda>x. x\<lparr>t_flags :=
                      t_flags x AND NOT THREAD_FLAG_DEBUG_STACK_BOUNDS_CHECK\<rparr>)
                      (heap_delayed_free (Stack_of ct) k)
               else k)
      in if t_flags (threads k ct) AND THREAD_FLAG_FREE_STRUCT \<noteq> 0
         then heap_delayed_free (Struct_of ct) k else k)"

definition thread_exit :: "int \<Rightarrow> frame list \<Rightarrow> kernel \<Rightarrow> kres" where
  "thread_exit retcode fs k =
     (let ct = current_thread k;
          (st, k) = THREAD_LOCK k;
          k = set_state ct THREAD_DEATH k;
          k = upd_thread ct (\<lambda>x. x\<lparr>t_retcode := retcode\<rparr>) k
      in kbind (if t_flags (threads k ct) AND THREAD_FLAG_DETACHED \<noteq> 0
                then ret_void (exit_detached ct k)
                else wait_queue_wake_all (Retcode_wait ct) False 0 (In_thread_exit # fs) k)
           (\<lambda>_ k. kbind (thread_resched (In_thread_exit # fs) k)
                     (\<lambda>_ _. Panic ''somehow fell through thread_exit()'')))"

section \<open>The current thread\<close>

definition thread_set_name :: "string \<Rightarrow> kernel \<Rightarrow> kernel" where
  "thread_set_name name k = upd_thread (current_thread k) (\<lambda>x. x\<lparr>t_name := strlcpy32 name\<rparr>) k"

definition thread_set_priority :: "int \<Rightarrow> frame list \<Rightarrow> kernel \<Rightarrow> kres" where
  "thread_set_priority priority fs k =
     (let ct = current_thread k;
          (st, k) = THREAD_LOCK k;
          priority = (if priority \<le> IDLE_PRIORITY then IDLE_PRIORITY + 1 else priority);
          priority = (if priority > HIGHEST_PRIORITY then HIGHEST_PRIORITY else priority);
          k = upd_thread ct (\<lambda>x. x\<lparr>t_priority := priority\<rparr>) k;
          k = set_state ct THREAD_READY k;
          k = insert_in_run_queue_head ct k
      in kbind (thread_resched (In_thread_set_priority st # fs) k)
           (\<lambda>_ k. ret_void (THREAD_UNLOCK st k)))"

section \<open>Start-up\<close>

text \<open>
  The memory the package finds: the static idle structure and the run queue bitmap are zero, the
  queues are set up by \<open>thread_init_early\<close>, whose \<open>malloc\<close> answers the address \<open>t\<close>.
\<close>

definition zero_thread :: thread where
  "zero_thread =
     \<lparr>t_magic = 0, t_priority = 0, t_state = THREAD_SUSPENDED, t_remaining_quantum = 0,
      t_flags = 0, t_errno = 0, t_blocking_wait_queue = None, t_wait_queue_block_ret = 0,
      t_stack = None, t_stack_size = 0, t_entry = 0, t_arg = 0, t_retcode = 0, t_name = ''''\<rparr>"

definition zero_kernel :: kernel where
  "zero_kernel =
     \<lparr>threads = (\<lambda>_. zero_thread), thread_list = [], run_queue = (\<lambda>_. []), run_queue_bitmap = 0,
      current_thread = 0,
      wait_queues = (\<lambda>_. \<lparr>wq_magic = 0, wq_list = [], wq_count = 0\<rparr>),
      mutexes = (\<lambda>_. \<lparr>m_magic = 0, m_holder = None, m_count = 0\<rparr>),
      sems = (\<lambda>_. \<lparr>s_magic = 0, s_count = 0\<rparr>),
      events = (\<lambda>_. \<lparr>e_magic = 0, e_signaled = False, e_flags = 0\<rparr>),
      thread_lock = 0, ints_enabled = True, fiqs_enabled = False, errno = 0,
      stacks = (\<lambda>_. []), cells = (\<lambda>_. 0), freed = []\<rparr>"

definition thread_init_early :: "tid \<Rightarrow> kernel \<Rightarrow> kernel" where
  "thread_init_early t k =
     (let k = k\<lparr>run_queue := (\<lambda>p. if p < NUM_PRIORITIES then [] else run_queue k p)\<rparr>;
          k = k\<lparr>thread_list := []\<rparr>;
          k = init_thread_struct t ''bootstrap'' k;
          k = upd_thread t (\<lambda>x. x\<lparr>t_priority := HIGHEST_PRIORITY, t_state := THREAD_RUNNING,
                                  t_flags := THREAD_FLAG_DETACHED\<rparr>) k;
          k = wait_queue_init (Retcode_wait t) k;
          k = k\<lparr>thread_list := t # thread_list k\<rparr>
      in k\<lparr>current_thread := t\<rparr>)"

definition thread_init :: "kernel \<Rightarrow> kernel" where
  "thread_init k = k"

definition DEFAULT_STACK_SIZE :: nat where "DEFAULT_STACK_SIZE = 4096"

definition thread_create_idle :: "nat option \<Rightarrow> frame list \<Rightarrow> kernel \<Rightarrow> kres" where
  "thread_create_idle m_stack fs k =
     (let (_, k) = thread_create_etc (Some idle_thread) ''idle'' 0 0 IDLE_PRIORITY None
                     DEFAULT_STACK_SIZE None m_stack k
      in thread_detach idle_thread fs k)"

section \<open>Reporting\<close>

fun thread_state_to_str :: "thread_state \<Rightarrow> string" where
  "thread_state_to_str THREAD_SUSPENDED = ''susp''"
| "thread_state_to_str THREAD_READY = ''rdy''"
| "thread_state_to_str THREAD_RUNNING = ''run''"
| "thread_state_to_str THREAD_BLOCKED = ''blok''"
| "thread_state_to_str THREAD_SLEEPING = ''slep''"
| "thread_state_to_str THREAD_DEATH = ''deth''"

definition thread_stack_used :: "kernel \<Rightarrow> tid \<Rightarrow> nat" where
  "thread_stack_used k t = 0"

end
