(* ===== verification/Sync.thy ===== *)
theory Sync imports Thread begin

text \<open>
  The synchronisation objects built on wait queues: \<open>src/lk/kernel/mutex.c\<close>,
  \<open>semaphore.c\<close> and \<open>event.c\<close>. Each function is one definition; the part of a function that
  runs after a blocked or preempted caller comes back has a name that ends in \<open>_end\<close> and is also
  what \<open>Lk_System.run_frame\<close> runs for a saved frame.
\<close>

section \<open>Mutexes\<close>

definition upd_mutex :: "nat \<Rightarrow> (mutex \<Rightarrow> mutex) \<Rightarrow> kernel \<Rightarrow> kernel" where
  "upd_mutex m f k = k\<lparr>mutexes := (mutexes k)(m := f (mutexes k m))\<rparr>"

definition mutex_init :: "nat \<Rightarrow> kernel \<Rightarrow> kernel" where
  "mutex_init m k =
     wait_queue_init (Mutex_wait m)
       (upd_mutex m (\<lambda>_. \<lparr>m_magic = MUTEX_MAGIC, m_holder = None, m_count = 0\<rparr>) k)"

definition mutex_destroy :: "nat \<Rightarrow> frame list \<Rightarrow> kernel \<Rightarrow> kres" where
  "mutex_destroy m fs k =
     (let (st, k) = THREAD_LOCK k;
          k = upd_mutex m (\<lambda>x. x\<lparr>m_magic := 0\<rparr>) k;
          k = upd_mutex m (\<lambda>x. x\<lparr>m_count := 0\<rparr>) k
      in kbind (wait_queue_destroy (Mutex_wait m) True (In_mutex_destroy st # fs) k)
           (\<lambda>_ k. ret_void (THREAD_UNLOCK st k)))"

definition mutex_take :: "nat \<Rightarrow> u32 \<Rightarrow> int \<Rightarrow> kernel \<Rightarrow> kres" where
  "mutex_take m st ret k =
     Ret ret (THREAD_UNLOCK st (upd_mutex m (\<lambda>x. x\<lparr>m_holder := Some (current_thread k)\<rparr>) k))"

text \<open>After \<open>wait_queue_block\<close> returned \<open>ret\<close>.\<close>

definition mutex_acquire_end :: "nat \<Rightarrow> u32 \<Rightarrow> int \<Rightarrow> kernel \<Rightarrow> kres" where
  "mutex_acquire_end m st ret k =
     (if ret < NO_ERROR
      then Ret ret (THREAD_UNLOCK st
             (if ret = ERR_TIMED_OUT then upd_mutex m (\<lambda>x. x\<lparr>m_count := m_count x - 1\<rparr>) k else k))
      else mutex_take m st ret k)"

definition mutex_acquire_timeout :: "nat \<Rightarrow> u32 \<Rightarrow> frame list \<Rightarrow> kernel \<Rightarrow> kres" where
  "mutex_acquire_timeout m timeout fs k =
     (let (st, k) = THREAD_LOCK k;
          k = upd_mutex m (\<lambda>x. x\<lparr>m_count := m_count x + 1\<rparr>) k
      in if m_count (mutexes k m) > 1
         then kbind (wait_queue_block (Mutex_wait m) timeout (In_mutex_acquire m st # fs) k)
                (mutex_acquire_end m st)
         else mutex_take m st NO_ERROR k)"

definition mutex_acquire :: "nat \<Rightarrow> frame list \<Rightarrow> kernel \<Rightarrow> kres" where
  "mutex_acquire m fs k = mutex_acquire_timeout m INFINITE_TIME fs k"

definition mutex_release :: "nat \<Rightarrow> frame list \<Rightarrow> kernel \<Rightarrow> kres" where
  "mutex_release m fs k =
     (let (st, k) = THREAD_LOCK k;
          k = upd_mutex m (\<lambda>x. x\<lparr>m_holder := None\<rparr>) k;
          k = upd_mutex m (\<lambda>x. x\<lparr>m_count := m_count x - 1\<rparr>) k
      in kbind (if m_count (mutexes k m) \<ge> 1
                then wait_queue_wake_one (Mutex_wait m) True NO_ERROR (In_mutex_release st # fs) k
                else ret_void k)
           (\<lambda>_ k. Ret NO_ERROR (THREAD_UNLOCK st k)))"

definition is_mutex_held :: "nat \<Rightarrow> kernel \<Rightarrow> bool" where
  "is_mutex_held m k = (m_holder (mutexes k m) = Some (current_thread k))"

section \<open>Semaphores\<close>

definition upd_sem :: "nat \<Rightarrow> (semaphore \<Rightarrow> semaphore) \<Rightarrow> kernel \<Rightarrow> kernel" where
  "upd_sem s f k = k\<lparr>sems := (sems k)(s := f (sems k s))\<rparr>"

definition sem_init :: "nat \<Rightarrow> int \<Rightarrow> kernel \<Rightarrow> kernel" where
  "sem_init s value k =
     wait_queue_init (Sem_wait s)
       (upd_sem s (\<lambda>_. \<lparr>s_magic = SEMAPHORE_MAGIC, s_count = value\<rparr>) k)"

definition sem_destroy :: "nat \<Rightarrow> frame list \<Rightarrow> kernel \<Rightarrow> kres" where
  "sem_destroy s fs k =
     (let (st, k) = THREAD_LOCK k;
          k = upd_sem s (\<lambda>x. x\<lparr>s_count := 0\<rparr>) k
      in kbind (wait_queue_destroy (Sem_wait s) True (In_sem_destroy st # fs) k)
           (\<lambda>_ k. ret_void (THREAD_UNLOCK st k)))"

definition sem_post :: "nat \<Rightarrow> bool \<Rightarrow> frame list \<Rightarrow> kernel \<Rightarrow> kres" where
  "sem_post s resched fs k =
     (let (st, k) = THREAD_LOCK k;
          k = upd_sem s (\<lambda>x. x\<lparr>s_count := s_count x + 1\<rparr>) k
      in kbind (if s_count (sems k s) \<le> 0
                then wait_queue_wake_one (Sem_wait s) resched NO_ERROR (In_sem_post st # fs) k
                else Ret 0 k)
           (\<lambda>ret k. Ret ret (THREAD_UNLOCK st k)))"

definition sem_wait :: "nat \<Rightarrow> frame list \<Rightarrow> kernel \<Rightarrow> kres" where
  "sem_wait s fs k =
     (let (st, k) = THREAD_LOCK k;
          k = upd_sem s (\<lambda>x. x\<lparr>s_count := s_count x - 1\<rparr>) k
      in kbind (if s_count (sems k s) < 0
                then wait_queue_block (Sem_wait s) INFINITE_TIME (In_sem_wait st # fs) k
                else Ret NO_ERROR k)
           (\<lambda>ret k. Ret ret (THREAD_UNLOCK st k)))"

definition sem_trywait :: "nat \<Rightarrow> kernel \<Rightarrow> kres" where
  "sem_trywait s k =
     (let (st, k) = THREAD_LOCK k
      in if s_count (sems k s) \<le> 0 then Ret ERR_NOT_READY (THREAD_UNLOCK st k)
         else Ret NO_ERROR (THREAD_UNLOCK st (upd_sem s (\<lambda>x. x\<lparr>s_count := s_count x - 1\<rparr>) k)))"

definition sem_timedwait_end :: "nat \<Rightarrow> u32 \<Rightarrow> int \<Rightarrow> kernel \<Rightarrow> kres" where
  "sem_timedwait_end s st ret k =
     (let k = (if ret < NO_ERROR
               then if ret = ERR_TIMED_OUT then upd_sem s (\<lambda>x. x\<lparr>s_count := s_count x + 1\<rparr>) k else k
               else k)
      in Ret ret (THREAD_UNLOCK st k))"

definition sem_timedwait :: "nat \<Rightarrow> u32 \<Rightarrow> frame list \<Rightarrow> kernel \<Rightarrow> kres" where
  "sem_timedwait s timeout fs k =
     (let (st, k) = THREAD_LOCK k;
          k = upd_sem s (\<lambda>x. x\<lparr>s_count := s_count x - 1\<rparr>) k
      in if s_count (sems k s) < 0
         then kbind (wait_queue_block (Sem_wait s) timeout (In_sem_timedwait s st # fs) k)
                (sem_timedwait_end s st)
         else Ret NO_ERROR (THREAD_UNLOCK st k))"

section \<open>Events\<close>

definition EVENT_FLAG_AUTOUNSIGNAL :: u32 where "EVENT_FLAG_AUTOUNSIGNAL = 1"

definition upd_event :: "nat \<Rightarrow> (event \<Rightarrow> event) \<Rightarrow> kernel \<Rightarrow> kernel" where
  "upd_event e f k = k\<lparr>events := (events k)(e := f (events k e))\<rparr>"

definition event_init :: "nat \<Rightarrow> bool \<Rightarrow> u32 \<Rightarrow> kernel \<Rightarrow> kernel" where
  "event_init e initial flags k =
     wait_queue_init (Event_wait e)
       (upd_event e (\<lambda>_. \<lparr>e_magic = EVENT_MAGIC, e_signaled = initial, e_flags = flags\<rparr>) k)"

definition event_destroy :: "nat \<Rightarrow> frame list \<Rightarrow> kernel \<Rightarrow> kres" where
  "event_destroy e fs k =
     (let (st, k) = THREAD_LOCK k;
          k = upd_event e (\<lambda>x. x\<lparr>e_magic := 0\<rparr>) k;
          k = upd_event e (\<lambda>x. x\<lparr>e_signaled := False\<rparr>) k;
          k = upd_event e (\<lambda>x. x\<lparr>e_flags := 0\<rparr>) k
      in kbind (wait_queue_destroy (Event_wait e) True (In_event_destroy st # fs) k)
           (\<lambda>_ k. ret_void (THREAD_UNLOCK st k)))"

definition event_wait_timeout :: "nat \<Rightarrow> u32 \<Rightarrow> frame list \<Rightarrow> kernel \<Rightarrow> kres" where
  "event_wait_timeout e timeout fs k =
     (let (st, k) = THREAD_LOCK k
      in kbind (if e_signaled (events k e)
                then Ret NO_ERROR
                  (if e_flags (events k e) AND EVENT_FLAG_AUTOUNSIGNAL \<noteq> 0
                   then upd_event e (\<lambda>x. x\<lparr>e_signaled := False\<rparr>) k else k)
                else wait_queue_block (Event_wait e) timeout (In_event_wait st # fs) k)
           (\<lambda>ret k. Ret ret (THREAD_UNLOCK st k)))"

definition event_wait :: "nat \<Rightarrow> frame list \<Rightarrow> kernel \<Rightarrow> kres" where
  "event_wait e fs k = event_wait_timeout e INFINITE_TIME fs k"

text \<open>After \<open>wait_queue_wake_one\<close> (\<open>auto\<close>) or \<open>wait_queue_wake_all\<close> returned \<open>woke\<close>.\<close>

definition event_signal_end :: "nat \<Rightarrow> bool \<Rightarrow> u32 \<Rightarrow> int \<Rightarrow> kernel \<Rightarrow> kres" where
  "event_signal_end e auto st woke k =
     (let k = (if auto \<and> woke \<le> 0 then upd_event e (\<lambda>x. x\<lparr>e_signaled := True\<rparr>) k else k)
      in Ret NO_ERROR (THREAD_UNLOCK st k))"

definition event_signal :: "nat \<Rightarrow> bool \<Rightarrow> frame list \<Rightarrow> kernel \<Rightarrow> kres" where
  "event_signal e reschedule fs k =
     (let (st, k) = THREAD_LOCK k
      in if \<not> e_signaled (events k e)
         then if e_flags (events k e) AND EVENT_FLAG_AUTOUNSIGNAL \<noteq> 0
              then kbind (wait_queue_wake_one (Event_wait e) reschedule NO_ERROR
                            (In_event_signal e True st # fs) k)
                     (event_signal_end e True st)
              else let k = upd_event e (\<lambda>x. x\<lparr>e_signaled := True\<rparr>) k
                   in kbind (wait_queue_wake_all (Event_wait e) reschedule NO_ERROR
                               (In_event_signal e False st # fs) k)
                        (event_signal_end e False st)
         else Ret NO_ERROR (THREAD_UNLOCK st k))"

definition event_unsignal :: "nat \<Rightarrow> kernel \<Rightarrow> kres" where
  "event_unsignal e k = Ret NO_ERROR (upd_event e (\<lambda>x. x\<lparr>e_signaled := False\<rparr>) k)"

definition event_initialized :: "nat \<Rightarrow> kernel \<Rightarrow> bool" where
  "event_initialized e k \<longleftrightarrow> e_magic (events k e) = EVENT_MAGIC"

end
