(* ===== verification/Lk_System.thy ===== *)
theory Lk_System imports Sync begin

text \<open>
  The thread package as a state machine. \<open>run_frames\<close> continues a saved call stack, \<open>settle\<close>
  lets the thread the dispatcher switched to run until it is back in its own code, \<open>exec\<close> is one
  call of the package by the current thread, \<open>allowed\<close> the contract of the callers (the
  \<open>DEBUG_ASSERT\<close>s of the sources, which are compiled out, and the life cycle of the memory), and
  \<open>kstep\<close> the step relation. \<open>user_inv\<close> is the invariant of the reachable states.
\<close>

section \<open>Continuing a saved call stack\<close>

fun run_frame :: "frame \<Rightarrow> int \<Rightarrow> kernel \<Rightarrow> kres" where
  "run_frame In_initial_thread v k = initial_thread_func k"
| "run_frame (In_thread_yield st) v k = ret_void (THREAD_UNLOCK st k)"
| "run_frame (In_thread_preempt st) v k = ret_void (THREAD_UNLOCK st k)"
| "run_frame (In_thread_set_priority st) v k = ret_void (THREAD_UNLOCK st k)"
| "run_frame (In_thread_sleep st) v k = ret_void (THREAD_UNLOCK st k)"
| "run_frame In_thread_resume v k = Ret NO_ERROR k"
| "run_frame In_thread_unblock v k = ret_void k"
| "run_frame In_thread_exit v k = Panic ''somehow fell through thread_exit()''"
| "run_frame (In_thread_join t retcode st) v k = thread_join_end t retcode st v k"
| "run_frame (In_wait_queue_block timeout) v k = wait_queue_block_end timeout k"
| "run_frame (In_wait_queue_wake n) v k = Ret n k"
| "run_frame (In_wait_queue_destroy w) v k = wait_queue_destroy_end w k"
| "run_frame (In_mutex_acquire m st) v k = mutex_acquire_end m st v k"
| "run_frame (In_mutex_release st) v k = Ret NO_ERROR (THREAD_UNLOCK st k)"
| "run_frame (In_mutex_destroy st) v k = ret_void (THREAD_UNLOCK st k)"
| "run_frame (In_sem_wait st) v k = Ret v (THREAD_UNLOCK st k)"
| "run_frame (In_sem_timedwait s st) v k = sem_timedwait_end s st v k"
| "run_frame (In_sem_post st) v k = Ret v (THREAD_UNLOCK st k)"
| "run_frame (In_sem_destroy st) v k = ret_void (THREAD_UNLOCK st k)"
| "run_frame (In_event_wait st) v k = Ret v (THREAD_UNLOCK st k)"
| "run_frame (In_event_signal e auto st) v k = event_signal_end e auto st v k"
| "run_frame (In_event_destroy st) v k = ret_void (THREAD_UNLOCK st k)"

fun run_frames :: "frame list \<Rightarrow> int \<Rightarrow> kernel \<Rightarrow> kres" where
  "run_frames [] v k = Ret v k"
| "run_frames (f # fs) v k = kbind (run_frame f v k) (run_frames fs)"

text \<open>The stack of a thread that runs its own code is empty.\<close>

definition set_stack :: "tid \<Rightarrow> frame list \<Rightarrow> kernel \<Rightarrow> kernel" where
  "set_stack t fs k = k\<lparr>stacks := (stacks k)(t := fs)\<rparr>"

fun settle :: "kres \<Rightarrow> kres" where
  "settle (Ret v k) = Ret v k"
| "settle (Switch k) =
     run_frames (stacks k (current_thread k)) 0 (set_stack (current_thread k) [] k)"
| "settle (Panic s) = Panic s"

section \<open>The calls\<close>

text \<open>\<open>TimerCallback\<close> of \<open>src/UefiHost.c\<close>, without the clock it advances.\<close>

definition timer_interrupt :: "frame list \<Rightarrow> kernel \<Rightarrow> kres" where
  "timer_interrupt fs k =
     (case thread_timer_tick k of
        (INT_RESCHEDULE, k) \<Rightarrow> thread_preempt fs k
      | (INT_NO_RESCHEDULE, k) \<Rightarrow> ret_void k)"

datatype kop =
    Yield
  | Preempt
  | Timer_interrupt
  | Set_priority int
  | Set_name string
  | Set_real_time tid
  | Create tid string nat nat int nat "nat option"
  | Resume tid
  | Join tid "nat option" u32
  | Detach tid
  | Detach_and_resume tid
  | Exit int
  | Mutex_init nat
  | Mutex_destroy nat
  | Mutex_acquire nat u32
  | Mutex_release nat
  | Sem_init nat nat
  | Sem_destroy nat
  | Sem_post nat bool
  | Sem_wait_op nat
  | Sem_trywait nat
  | Sem_timedwait nat u32
  | Event_init nat bool u32
  | Event_destroy nat
  | Event_wait_op nat u32
  | Event_signal nat bool
  | Event_unsignal nat

fun exec :: "kop \<Rightarrow> kernel \<Rightarrow> kres" where
  "exec Yield k = thread_yield [] k"
| "exec Preempt k = arch_idle [] k"
| "exec Timer_interrupt k = timer_interrupt [] k"
| "exec (Set_priority p) k = thread_set_priority p [] k"
| "exec (Set_name s) k = ret_void (thread_set_name s k)"
| "exec (Set_real_time t) k = thread_set_real_time (Some t) k"
| "exec (Create t name entry arg prio sz m_stack) k =
     (case thread_create name entry arg prio sz (Some t) m_stack k of
        (None, k) \<Rightarrow> Ret 0 k | (Some u, k) \<Rightarrow> Ret (int u) k)"
| "exec (Resume t) k = thread_resume t [] k"
| "exec (Join t c timeout) k = thread_join t c timeout [] k"
| "exec (Detach t) k = thread_detach t [] k"
| "exec (Detach_and_resume t) k = thread_detach_and_resume t [] k"
| "exec (Exit v) k = thread_exit v [] k"
| "exec (Mutex_init m) k = ret_void (mutex_init m k)"
| "exec (Mutex_destroy m) k = mutex_destroy m [] k"
| "exec (Mutex_acquire m timeout) k = mutex_acquire_timeout m timeout [] k"
| "exec (Mutex_release m) k = mutex_release m [] k"
| "exec (Sem_init s v) k = ret_void (sem_init s (int v) k)"
| "exec (Sem_destroy s) k = sem_destroy s [] k"
| "exec (Sem_post s r) k = sem_post s r [] k"
| "exec (Sem_wait_op s) k = sem_wait s [] k"
| "exec (Sem_trywait s) k = sem_trywait s k"
| "exec (Sem_timedwait s timeout) k = sem_timedwait s timeout [] k"
| "exec (Event_init e i fl) k = ret_void (event_init e i fl k)"
| "exec (Event_destroy e) k = event_destroy e [] k"
| "exec (Event_wait_op e timeout) k = event_wait_timeout e timeout [] k"
| "exec (Event_signal e r) k = event_signal e r [] k"
| "exec (Event_unsignal e) k = event_unsignal e k"

definition timeout_ok :: "u32 \<Rightarrow> bool" where
  "timeout_ok timeout \<longleftrightarrow> timeout = 0 \<or> timeout = INFINITE_TIME"

text \<open>A structure that \<open>malloc\<close> may hand out: no thread is in it.\<close>

definition fresh_struct :: "tid \<Rightarrow> kernel \<Rightarrow> bool" where
  "fresh_struct t k \<longleftrightarrow> t \<noteq> idle_thread \<and> t \<noteq> current_thread k \<and> t \<notin> set (thread_list k) \<and>
     tstate k t \<in> {THREAD_SUSPENDED, THREAD_DEATH} \<and> waiters k (Retcode_wait t) = []"

text \<open>
  What a caller has to respect: the idle thread only runs its loop (and is interrupted), handles
  belong to live objects, only the holder releases a mutex, an object is set up in unused memory
  and a mutex is only destroyed by its holder or when it is free, priorities are in range.
\<close>

fun op_allowed :: "kernel \<Rightarrow> kop \<Rightarrow> bool" where
  "op_allowed k (Create t name entry arg prio sz m_stack) \<longleftrightarrow>
     fresh_struct t k \<and> 0 \<le> prio \<and> prio \<le> HIGHEST_PRIORITY"
| "op_allowed k (Resume t) \<longleftrightarrow> t \<in> set (thread_list k)"
| "op_allowed k (Join t c timeout) \<longleftrightarrow> t \<in> set (thread_list k) \<and> timeout_ok timeout"
| "op_allowed k (Detach t) \<longleftrightarrow> t \<in> set (thread_list k)"
| "op_allowed k (Detach_and_resume t) \<longleftrightarrow> t \<in> set (thread_list k) \<and> tstate k t \<noteq> THREAD_DEATH"
| "op_allowed k (Mutex_init m) \<longleftrightarrow> m_magic (mutexes k m) \<noteq> MUTEX_MAGIC"
| "op_allowed k (Mutex_destroy m) \<longleftrightarrow> m_magic (mutexes k m) = MUTEX_MAGIC \<and>
     (m_holder (mutexes k m) = Some (current_thread k) \<or> m_count (mutexes k m) = 0)"
| "op_allowed k (Mutex_acquire m timeout) \<longleftrightarrow>
     m_magic (mutexes k m) = MUTEX_MAGIC \<and> timeout_ok timeout"
| "op_allowed k (Mutex_release m) \<longleftrightarrow> m_magic (mutexes k m) = MUTEX_MAGIC \<and>
     m_holder (mutexes k m) = Some (current_thread k)"
| "op_allowed k (Sem_init s v) \<longleftrightarrow> waiters k (Sem_wait s) = []"
| "op_allowed k (Sem_timedwait s timeout) \<longleftrightarrow> timeout_ok timeout"
| "op_allowed k (Event_init e i fl) \<longleftrightarrow> waiters k (Event_wait e) = []"
| "op_allowed k (Event_wait_op e timeout) \<longleftrightarrow> timeout_ok timeout"
| "op_allowed k _ \<longleftrightarrow> True"

definition allowed :: "kernel \<Rightarrow> kop \<Rightarrow> bool" where
  "allowed k a \<longleftrightarrow> op_allowed k a \<and>
     (current_thread k = idle_thread \<longrightarrow> a = Preempt \<or> a = Timer_interrupt)"

text \<open>\<open>lkl_thread_init\<close> of \<open>src/UefiHost.c\<close> as far as the threads go.\<close>

definition lkl_thread_init :: "tid \<Rightarrow> nat option \<Rightarrow> kres" where
  "lkl_thread_init t m_stack =
     (let k = thread_init (thread_init_early t zero_kernel)
      in kbind (thread_create_idle m_stack [] k) (\<lambda>_. thread_set_priority DEFAULT_PRIORITY []))"

inductive kstep :: "kernel \<Rightarrow> kop \<Rightarrow> int \<Rightarrow> kernel \<Rightarrow> bool" where
  step: "allowed k a \<Longrightarrow> settle (exec a k) = Ret v k' \<Longrightarrow> kstep k a v k'"

inductive_cases kstep_cases: "kstep k a v k'"

text \<open>\<open>malloc\<close> answers \<open>t\<close> for the bootstrap structure and some address for the idle stack.\<close>

inductive kstart :: "kernel \<Rightarrow> bool" where
  boot: "t \<noteq> idle_thread \<Longrightarrow> lkl_thread_init t (Some stk) = Ret v k \<Longrightarrow> kstart k"

definition reachable :: "kernel \<Rightarrow> bool" where
  "reachable k \<longleftrightarrow> (\<exists>k0 tr. kstart k0 \<and> run kstep k0 tr k)"

section \<open>The invariant of the reachable states\<close>

text \<open>The return addresses that may lie under a call of \<open>wait_queue_block\<close> on \<open>w\<close>.\<close>

fun after_block :: "wq_ref \<Rightarrow> frame \<Rightarrow> bool" where
  "after_block (Retcode_wait t) (In_thread_join u c st) \<longleftrightarrow> u = t \<and> t \<noteq> idle_thread"
| "after_block (Mutex_wait m) (In_mutex_acquire n st) \<longleftrightarrow> n = m"
| "after_block (Sem_wait s) (In_sem_wait st) \<longleftrightarrow> True"
| "after_block (Sem_wait s) (In_sem_timedwait n st) \<longleftrightarrow> n = s"
| "after_block (Event_wait e) (In_event_wait st) \<longleftrightarrow> True"
| "after_block w f \<longleftrightarrow> False"

definition blocked_stack :: "wq_ref \<Rightarrow> frame list \<Rightarrow> bool" where
  "blocked_stack w fs \<longleftrightarrow> (\<exists>f. fs = [In_wait_queue_block INFINITE_TIME, f] \<and> after_block w f)"

fun after_wake :: "int \<Rightarrow> frame \<Rightarrow> bool" where
  "after_wake n (In_mutex_release st) \<longleftrightarrow> True"
| "after_wake n (In_sem_post st) \<longleftrightarrow> True"
| "after_wake n (In_event_signal e auto st) \<longleftrightarrow> auto \<longrightarrow> n > 0"
| "after_wake n f \<longleftrightarrow> False"

fun after_destroy :: "frame \<Rightarrow> bool" where
  "after_destroy (In_mutex_destroy st) \<longleftrightarrow> True"
| "after_destroy (In_sem_destroy st) \<longleftrightarrow> True"
| "after_destroy (In_event_destroy st) \<longleftrightarrow> True"
| "after_destroy f \<longleftrightarrow> False"

text \<open>
  The stacks a runnable thread may have saved: it lost the processor by yielding, being preempted,
  changing its priority or waking somebody, or it was blocked and woken with the value \<open>r\<close>, or
  it never ran.
\<close>

definition ready_stack :: "int \<Rightarrow> frame list \<Rightarrow> bool" where
  "ready_stack r fs \<longleftrightarrow>
     fs = [In_initial_thread] \<or>
     (\<exists>st. fs = [In_thread_yield st]) \<or> (\<exists>st. fs = [In_thread_yield st, In_thread_resume]) \<or>
     (\<exists>st. fs = [In_thread_preempt st]) \<or> (\<exists>st. fs = [In_thread_set_priority st]) \<or>
     (\<exists>w. blocked_stack w fs \<and> r \<noteq> ERR_TIMED_OUT) \<or>
     (\<exists>n f. fs = [In_wait_queue_wake n, f] \<and> after_wake n f) \<or>
     (\<exists>n w f. fs = [In_wait_queue_wake n, In_wait_queue_destroy w, f] \<and> after_destroy f)"

definition runnable :: "kernel \<Rightarrow> tid \<Rightarrow> bool" where
  "runnable k t \<longleftrightarrow> tstate k t = THREAD_READY \<or> tstate k t = THREAD_RUNNING"

definition stack_ok :: "kernel \<Rightarrow> bool" where
  "stack_ok k \<longleftrightarrow> (\<forall>t.
     (runnable k t \<longrightarrow> t = current_thread k \<and> stacks k t = [] \<or>
        ready_stack (t_wait_queue_block_ret (threads k t)) (stacks k t)) \<and>
     (tstate k t = THREAD_BLOCKED \<longrightarrow> (\<exists>w. twait k t = Some w \<and> blocked_stack w (stacks k t))) \<and>
     (tstate k t = THREAD_SUSPENDED \<and> t \<in> set (thread_list k) \<longrightarrow>
        stacks k t = [In_initial_thread]) \<and>
     tstate k t \<noteq> THREAD_SLEEPING)"

text \<open>Threads that \<open>mutex_release\<close> picked as the next holder and that have not run since.\<close>

definition granted :: "kernel \<Rightarrow> nat \<Rightarrow> tid set" where
  "granted k m = {t. runnable k t \<and> t_wait_queue_block_ret (threads k t) \<ge> NO_ERROR \<and>
     (\<exists>st. stacks k t = [In_wait_queue_block INFINITE_TIME, In_mutex_acquire m st])}"

definition mutex_busy :: "mutex \<Rightarrow> tid set \<Rightarrow> bool" where
  "mutex_busy x G \<longleftrightarrow> m_holder x \<noteq> None \<or> G \<noteq> {}"

definition live_mutex_ok :: "mutex \<Rightarrow> tid list \<Rightarrow> tid set \<Rightarrow> bool" where
  "live_mutex_ok x ws G \<longleftrightarrow>
     (\<forall>t\<in>G. \<forall>u\<in>G. t = u) \<and> (m_holder x \<noteq> None \<longrightarrow> G = {}) \<and> (ws \<noteq> [] \<longrightarrow> mutex_busy x G) \<and>
     m_count x = int (length ws) + (if mutex_busy x G then 1 else 0)"

definition mutex_ok :: "kernel \<Rightarrow> nat \<Rightarrow> bool" where
  "mutex_ok k m \<longleftrightarrow>
     (m_magic (mutexes k m) = MUTEX_MAGIC \<longrightarrow>
        live_mutex_ok (mutexes k m) (waiters k (Mutex_wait m)) (granted k m)) \<and>
     (m_magic (mutexes k m) \<noteq> MUTEX_MAGIC \<longrightarrow>
        granted k m = {} \<and> waiters k (Mutex_wait m) = [])"

definition sem_ok :: "kernel \<Rightarrow> nat \<Rightarrow> bool" where
  "sem_ok k s \<longleftrightarrow> int (length (waiters k (Sem_wait s))) = max 0 (- s_count (sems k s))"

definition event_ok :: "kernel \<Rightarrow> nat \<Rightarrow> bool" where
  "event_ok k e \<longleftrightarrow> (e_signaled (events k e) \<longrightarrow> waiters k (Event_wait e) = [])"

definition join_ok :: "kernel \<Rightarrow> tid \<Rightarrow> bool" where
  "join_ok k t \<longleftrightarrow>
     (tstate k t = THREAD_DEATH \<or> t_flags (threads k t) AND THREAD_FLAG_DETACHED \<noteq> 0 \<longrightarrow>
        waiters k (Retcode_wait t) = [])"

text \<open>
  The idle thread exists and is detached, and no thread carries \<open>THREAD_FLAG_IDLE\<close>: the only code
  that set it is disabled by \<open>#if 0\<close>.
\<close>

definition idle_set_up :: "kernel \<Rightarrow> bool" where
  "idle_set_up k \<longleftrightarrow> idle_thread \<in> set (thread_list k) \<and>
     t_flags (threads k idle_thread) AND THREAD_FLAG_DETACHED \<noteq> 0 \<and>
     (\<forall>t. \<not> thread_is_idle k t)"

definition object_inv :: "kernel \<Rightarrow> bool" where
  "object_inv k \<longleftrightarrow> stack_ok k \<and> (\<forall>m. mutex_ok k m) \<and> (\<forall>s. sem_ok k s) \<and> (\<forall>e. event_ok k e) \<and>
     (\<forall>t. join_ok k t) \<and> idle_set_up k"

definition user_inv :: "kernel \<Rightarrow> bool" where
  "user_inv k \<longleftrightarrow> sched_inv k \<and> object_inv k \<and> stacks k (current_thread k) = [] \<and> thread_lock k = 0"

end
