(* ===== verification/Lk_Invariant.thy ===== *)
theory Lk_Invariant imports Lk_System begin

text \<open>
  Every call of the thread package keeps \<open>user_inv\<close>. The proofs go through two lemmas:
  \<open>settle_user_inv\<close> (a thread that comes back from the dispatcher with a well-formed saved stack
  reaches its own code again in a good state) and \<open>dispatch_user_inv\<close> (so does a call that has
  parked the current thread). What is left for a call is the state it hands to the dispatcher.
\<close>

section \<open>Calls as a dispatch followed by frames\<close>

lemma kbind_Ret_right [simp]: "kbind r Ret = r"
  by (cases r) auto

lemma kbind_assoc: "kbind (kbind r f) g = kbind r (\<lambda>v k. kbind (f v k) g)"
  by (cases r) auto

lemma run_frames_Nil [simp]: "run_frames [] = Ret"
  by (rule ext)+ simp

lemma run_frames_Cons [simp]: "run_frames (f # fs) = (\<lambda>v k. kbind (run_frame f v k) (run_frames fs))"
  by (rule ext)+ simp

declare run_frames.simps [simp del]

lemma run_frame_eta [simp]:
  "run_frame (In_thread_join t c st) = thread_join_end t c st"
  "run_frame (In_mutex_acquire m st) = mutex_acquire_end m st"
  "run_frame (In_sem_timedwait s st) = sem_timedwait_end s st"
  "run_frame (In_event_signal e auto st) = event_signal_end e auto st"
  "run_frame (In_wait_queue_destroy w) = (\<lambda>_. wait_queue_destroy_end w)"
  "run_frame (In_wait_queue_block timeout) = (\<lambda>_. wait_queue_block_end timeout)"
  "run_frame (In_wait_queue_wake n) = (\<lambda>_. Ret n)"
  by (simp_all add: fun_eq_iff)

lemma set_stack_simps [simp]:
  "threads (set_stack t fs k) = threads k"
  "thread_list (set_stack t fs k) = thread_list k"
  "run_queue (set_stack t fs k) = run_queue k"
  "run_queue_bitmap (set_stack t fs k) = run_queue_bitmap k"
  "current_thread (set_stack t fs k) = current_thread k"
  "wait_queues (set_stack t fs k) = wait_queues k"
  "mutexes (set_stack t fs k) = mutexes k"
  "sems (set_stack t fs k) = sems k"
  "events (set_stack t fs k) = events k"
  "thread_lock (set_stack t fs k) = thread_lock k"
  "ints_enabled (set_stack t fs k) = ints_enabled k"
  "stacks (set_stack t fs k) = (stacks k)(t := fs)"
  by (simp_all add: set_stack_def)

lemma THREAD_UNLOCK_simps [simp]:
  "threads (THREAD_UNLOCK st k) = threads k"
  "thread_list (THREAD_UNLOCK st k) = thread_list k"
  "run_queue (THREAD_UNLOCK st k) = run_queue k"
  "run_queue_bitmap (THREAD_UNLOCK st k) = run_queue_bitmap k"
  "current_thread (THREAD_UNLOCK st k) = current_thread k"
  "wait_queues (THREAD_UNLOCK st k) = wait_queues k"
  "mutexes (THREAD_UNLOCK st k) = mutexes k"
  "sems (THREAD_UNLOCK st k) = sems k"
  "events (THREAD_UNLOCK st k) = events k"
  "stacks (THREAD_UNLOCK st k) = stacks k"
  "freed (THREAD_UNLOCK st k) = freed k"
  "cells (THREAD_UNLOCK st k) = cells k"
  "thread_lock (THREAD_UNLOCK st k) = 0"
  by (simp_all add: THREAD_UNLOCK_eq)

definition locked :: "kernel \<Rightarrow> kernel" where
  "locked k = k\<lparr>thread_lock := 1, ints_enabled := False\<rparr>"

lemma THREAD_LOCK_locked: "THREAD_LOCK k = (if ints_enabled k then 1 else 0, locked k)"
  by (simp add: THREAD_LOCK_eq locked_def)

lemma locked_simps [simp]:
  "threads (locked k) = threads k"
  "thread_list (locked k) = thread_list k"
  "run_queue (locked k) = run_queue k"
  "run_queue_bitmap (locked k) = run_queue_bitmap k"
  "current_thread (locked k) = current_thread k"
  "wait_queues (locked k) = wait_queues k"
  "mutexes (locked k) = mutexes k"
  "sems (locked k) = sems k"
  "events (locked k) = events k"
  "stacks (locked k) = stacks k"
  "thread_lock (locked k) = 1"
  by (simp_all add: locked_def)

lemma upd_mutex_simps [simp]:
  "threads (upd_mutex m f k) = threads k"
  "thread_list (upd_mutex m f k) = thread_list k"
  "run_queue (upd_mutex m f k) = run_queue k"
  "run_queue_bitmap (upd_mutex m f k) = run_queue_bitmap k"
  "current_thread (upd_mutex m f k) = current_thread k"
  "wait_queues (upd_mutex m f k) = wait_queues k"
  "sems (upd_mutex m f k) = sems k"
  "events (upd_mutex m f k) = events k"
  "stacks (upd_mutex m f k) = stacks k"
  "thread_lock (upd_mutex m f k) = thread_lock k"
  "mutexes (upd_mutex m f k) n = (if n = m then f (mutexes k m) else mutexes k n)"
  by (simp_all add: upd_mutex_def)

lemma upd_sem_simps [simp]:
  "threads (upd_sem m f k) = threads k"
  "thread_list (upd_sem m f k) = thread_list k"
  "run_queue (upd_sem m f k) = run_queue k"
  "run_queue_bitmap (upd_sem m f k) = run_queue_bitmap k"
  "current_thread (upd_sem m f k) = current_thread k"
  "wait_queues (upd_sem m f k) = wait_queues k"
  "mutexes (upd_sem m f k) = mutexes k"
  "events (upd_sem m f k) = events k"
  "stacks (upd_sem m f k) = stacks k"
  "thread_lock (upd_sem m f k) = thread_lock k"
  "sems (upd_sem m f k) n = (if n = m then f (sems k m) else sems k n)"
  by (simp_all add: upd_sem_def)

lemma upd_event_simps [simp]:
  "threads (upd_event m f k) = threads k"
  "thread_list (upd_event m f k) = thread_list k"
  "run_queue (upd_event m f k) = run_queue k"
  "run_queue_bitmap (upd_event m f k) = run_queue_bitmap k"
  "current_thread (upd_event m f k) = current_thread k"
  "wait_queues (upd_event m f k) = wait_queues k"
  "mutexes (upd_event m f k) = mutexes k"
  "sems (upd_event m f k) = sems k"
  "stacks (upd_event m f k) = stacks k"
  "thread_lock (upd_event m f k) = thread_lock k"
  "events (upd_event m f k) n = (if n = m then f (events k m) else events k n)"
  by (simp_all add: upd_event_def)

text \<open>The scheduler invariant does not read the objects, the stacks, the lock or the heap.\<close>

lemma sched_inv_cong:
  assumes "run_queue k' = run_queue k" "run_queue_bitmap k' = run_queue_bitmap k"
    and "\<And>w. waiters k' w = waiters k w" "\<And>w. wq_count (wait_queues k' w) = wq_count (wait_queues k w)"
    and "current_thread k' = current_thread k"
    and "\<And>t. tstate k' t = tstate k t" "\<And>t. tprio k' t = tprio k t" "\<And>t. twait k' t = twait k t"
  shows "sched_inv k' \<longleftrightarrow> sched_inv k"
  using assms by (simp add: sched_inv_def inv_defs)

section \<open>What the object invariant reads\<close>

lemma object_inv_view:
  assumes "object_inv k" "same_objects k k'" "\<And>w. waiters k' w = waiters k w"
    and "\<And>t. runnable k' t \<longleftrightarrow> runnable k t"
    and "\<And>t. tstate k' t \<noteq> tstate k t \<Longrightarrow> runnable k t"
    and "\<And>t. twait k' t = twait k t"
    and "\<And>t. t_wait_queue_block_ret (threads k' t) = t_wait_queue_block_ret (threads k t)"
    and "\<And>t. t_flags (threads k' t) = t_flags (threads k t)"
    and tl: "set (thread_list k') \<subseteq> set (thread_list k)"
      "idle_thread \<in> set (thread_list k) \<Longrightarrow> idle_thread \<in> set (thread_list k')"
    and "stacks k' = stacks k" "current_thread k' = current_thread k"
  shows "object_inv k'"
proof -
  have st: "tstate k' t = s \<longleftrightarrow> tstate k t = s" if "s \<notin> {THREAD_READY, THREAD_RUNNING}" for t s
    using assms(4,5) [of t] that unfolding runnable_def by (metis insert_iff)
  have g: "granted k' m = granted k m" for m
    using assms by (simp add: granted_def)
  have "stack_ok k'"
    using assms(1) tl by (auto simp: object_inv_def stack_ok_def assms(2-8,11-) st)
  moreover have "\<forall>m. mutex_ok k' m" "\<forall>s. sem_ok k' s" "\<forall>e. event_ok k' e" "\<forall>t. join_ok k' t"
    "idle_set_up k'"
    using assms(1,2) tl
    by (simp_all add: object_inv_def mutex_ok_def sem_ok_def event_ok_def join_ok_def
        idle_set_up_def thread_is_idle_def same_objects_def assms(3-8,11-) st g)
  ultimately show ?thesis by (simp add: object_inv_def)
qed


text \<open>Taking the consumed frames off the stack of the thread that runs again.\<close>

lemma object_inv_unstack:
  assumes "object_inv k" "runnable k (current_thread k)" "\<And>m. current_thread k \<notin> granted k m"
  shows "object_inv (set_stack (current_thread k) [] k)"
proof -
  let ?k = "set_stack (current_thread k) [] k"
  have g: "granted ?k m = granted k m" for m
    using assms(3) [of m] by (auto simp: granted_def runnable_def)
  have "stack_ok ?k"
    using assms(1,2) by (auto simp: object_inv_def stack_ok_def runnable_def)
  then show ?thesis
    using assms(1)
    by (simp_all add: object_inv_def mutex_ok_def sem_ok_def event_ok_def join_ok_def idle_set_up_def
        thread_is_idle_def g)
qed

text \<open>A granted thread that runs again becomes the holder.\<close>

lemma granted_stack:
  "t \<in> granted k m \<Longrightarrow> \<exists>st. stacks k t = [In_wait_queue_block INFINITE_TIME, In_mutex_acquire m st]"
  by (auto simp: granted_def)

lemma granted_unique: "t \<in> granted k m \<Longrightarrow> t \<in> granted k n \<Longrightarrow> m = n"
  by (auto simp: granted_def)

lemma object_inv_take:
  assumes "object_inv k" "runnable k (current_thread k)" "current_thread k \<in> granted k m"
  shows "object_inv (upd_mutex m (\<lambda>x. x\<lparr>m_holder := Some (current_thread k)\<rparr>)
           (set_stack (current_thread k) [] k))"
proof -
  let ?c = "current_thread k"
  let ?k = "upd_mutex m (\<lambda>x. x\<lparr>m_holder := Some ?c\<rparr>) (set_stack ?c [] k)"
  have live: "m_magic (mutexes k m) = MUTEX_MAGIC"
    "live_mutex_ok (mutexes k m) (waiters k (Mutex_wait m)) (granted k m)"
    using assms(1,3) by (auto simp: object_inv_def mutex_ok_def)
  have g: "granted ?k n = granted k n - {?c}" for n
    by (auto simp: granted_def runnable_def)
  have gm: "granted k m = {?c}" using live assms(3) by (auto simp: live_mutex_ok_def)
  have gn: "granted k n - {?c} = granted k n" if "n \<noteq> m" for n
    using that assms(3) granted_unique [of ?c k m n] by auto
  have "mutex_ok ?k n" for n
  proof (cases "n = m")
    case True
    with live gm show ?thesis by (auto simp: mutex_ok_def g live_mutex_ok_def mutex_busy_def)
  next
    case False
    with assms(1) gn show ?thesis by (simp add: object_inv_def mutex_ok_def g)
  qed
  moreover have "stack_ok ?k"
    using assms(1,2) by (auto simp: object_inv_def stack_ok_def runnable_def)
  ultimately show ?thesis
    using assms(1)
    by (simp_all add: object_inv_def sem_ok_def event_ok_def join_ok_def idle_set_up_def
        thread_is_idle_def)
qed


lemmas obj_defs = object_inv_def stack_ok_def mutex_ok_def sem_ok_def event_ok_def join_ok_def
  idle_set_up_def thread_is_idle_def granted_def runnable_def

lemma object_inv_lock [simp]:
  "object_inv (THREAD_UNLOCK st k) \<longleftrightarrow> object_inv k"
  "object_inv (locked k) \<longleftrightarrow> object_inv k"
  "object_inv (spin_unlock k) \<longleftrightarrow> object_inv k"
  by (simp_all add: obj_defs spin_unlock_def)

lemma sched_inv_lock [simp]:
  "sched_inv (THREAD_UNLOCK st k) \<longleftrightarrow> sched_inv k"
  "sched_inv (locked k) \<longleftrightarrow> sched_inv k"
  "sched_inv (spin_unlock k) \<longleftrightarrow> sched_inv k"
  "sched_inv (set_stack t fs k) \<longleftrightarrow> sched_inv k"
  "sched_inv (upd_mutex m f k) \<longleftrightarrow> sched_inv k"
  "sched_inv (upd_sem s g k) \<longleftrightarrow> sched_inv k"
  "sched_inv (upd_event e h k) \<longleftrightarrow> sched_inv k"
  by (rule sched_inv_cong; simp add: spin_unlock_def)+

lemma base_inv_lock [simp]:
  "base_inv T (THREAD_UNLOCK st k) \<longleftrightarrow> base_inv T k"
  "base_inv T (locked k) \<longleftrightarrow> base_inv T k"
  "base_inv T (set_stack t fs k) \<longleftrightarrow> base_inv T k"
  "base_inv T (upd_mutex m f k) \<longleftrightarrow> base_inv T k"
  "base_inv T (upd_sem s g k) \<longleftrightarrow> base_inv T k"
  "base_inv T (upd_event e h k) \<longleftrightarrow> base_inv T k"
  by (rule base_inv_cong; simp)+

lemma user_inv_unlock:
  assumes "sched_inv k" "object_inv k" "stacks k (current_thread k) = []"
  shows "user_inv (THREAD_UNLOCK st k)"
  using assms by (simp add: user_inv_def)

section \<open>Back from the dispatcher\<close>

lemma sched_inv_running: "sched_inv k \<Longrightarrow> tstate k (current_thread k) = THREAD_RUNNING"
  by (simp add: sched_inv_def)

lemma sched_inv_runnable: "sched_inv k \<Longrightarrow> runnable k (current_thread k)"
  by (simp add: sched_inv_def runnable_def)

text \<open>What \<open>thread_join\<close> does to the dead thread.\<close>

definition reaped :: "tid \<Rightarrow> nat option \<Rightarrow> kernel \<Rightarrow> kernel" where
  "reaped t c k =
     upd_thread t (\<lambda>x. x\<lparr>t_magic := 0\<rparr>)
       (k\<lparr>cells := (case c of None \<Rightarrow> cells k | Some a \<Rightarrow> (cells k)(a := t_retcode (threads k t))),
         thread_list := remove1 t (thread_list k)\<rparr>)"

lemma reaped_simps [simp]:
  "threads (reaped t c k) u = (if u = t then (threads k t)\<lparr>t_magic := 0\<rparr> else threads k u)"
  "run_queue (reaped t c k) = run_queue k"
  "run_queue_bitmap (reaped t c k) = run_queue_bitmap k"
  "current_thread (reaped t c k) = current_thread k"
  "wait_queues (reaped t c k) = wait_queues k"
  "mutexes (reaped t c k) = mutexes k"
  "sems (reaped t c k) = sems k"
  "events (reaped t c k) = events k"
  "stacks (reaped t c k) = stacks k"
  "thread_list (reaped t c k) = remove1 t (thread_list k)"
  "freed (reaped t c k) = freed k"
  by (simp_all add: reaped_def)

lemma freed_update_same: "freed k = f \<Longrightarrow> k\<lparr>freed := f\<rparr> = k"
  by auto

lemma thread_join_reap_eq:
  "thread_join_reap t c st k =
     Ret NO_ERROR ((THREAD_UNLOCK st (reaped t c k))\<lparr>freed := freed k @
       (if t_flags (threads k t) AND THREAD_FLAG_FREE_STACK \<noteq> 0 \<and> t_stack (threads k t) \<noteq> None
        then [Stack_of t] else []) @
       (if t_flags (threads k t) AND THREAD_FLAG_FREE_STRUCT \<noteq> 0 then [Struct_of t] else [])\<rparr>)"
proof -
  have k: "(case c of None \<Rightarrow> k | Some a \<Rightarrow> k\<lparr>cells := (cells k)(a := t_retcode (threads k t))\<rparr>) =
      k\<lparr>cells := (case c of None \<Rightarrow> cells k | Some a \<Rightarrow> (cells k)(a := t_retcode (threads k t)))\<rparr>"
    by (cases c) auto
  show ?thesis
    unfolding thread_join_reap_def Let_def k
    by (simp add: reaped_def free_mem_def freed_update_same)
qed

lemma thread_join_reap_user_inv:
  assumes "sched_inv k" "object_inv k" "stacks k (current_thread k) = []" "t \<noteq> idle_thread"
  obtains k' where "thread_join_reap t c st k = Ret NO_ERROR k'" "user_inv k'"
proof -
  have sched: "sched_inv (k'\<lparr>freed := fr\<rparr>) \<longleftrightarrow> sched_inv k'" for k' fr
    by (rule sched_inv_cong) simp_all
  have obj: "object_inv (k'\<lparr>freed := fr\<rparr>) \<longleftrightarrow> object_inv k'" for k' fr
    by (simp add: obj_defs)
  have "sched_inv (reaped t c k) \<longleftrightarrow> sched_inv k"
    by (rule sched_inv_cong) simp_all
  moreover have "object_inv (reaped t c k)"
    using assms(4) by (intro object_inv_view [OF assms(2)])
      (auto simp: same_objects_def runnable_def dest: set_remove1_subset [THEN subsetD] split: if_splits)
  ultimately have "user_inv (THREAD_UNLOCK st (reaped t c k))"
    using assms by (intro user_inv_unlock) simp_all
  then have "user_inv ((THREAD_UNLOCK st (reaped t c k))\<lparr>freed := fr\<rparr>)" for fr
    by (simp add: user_inv_def sched obj)
  then show ?thesis by (rule that [OF thread_join_reap_eq])
qed


text \<open>The frames after \<open>wait_queue_block\<close>.\<close>

lemma settle_blocked_user_inv:
  assumes sched: "sched_inv k" and obj: "object_inv k"
    and fs: "blocked_stack w (stacks k (current_thread k))"
    and r: "t_wait_queue_block_ret (threads k (current_thread k)) \<noteq> ERR_TIMED_OUT"
  shows "\<exists>v k'. settle (Switch k) = Ret v k' \<and> user_inv k'"
proof -
  let ?c = "current_thread k"
  let ?r = "t_wait_queue_block_ret (threads k ?c)"
  let ?k = "set_stack ?c [] k"
  from fs obtain f where f: "stacks k ?c = [In_wait_queue_block INFINITE_TIME, f]" "after_block w f"
    by (auto simp: blocked_stack_def)
  have settle: "settle (Switch k) = run_frame f ?r ?k"
    by (simp add: f  wait_queue_block_end_def)
  have run: "runnable k ?c" using sched by (rule sched_inv_runnable)
  have plain: "user_inv (THREAD_UNLOCK st ?k)" if "\<And>m. ?c \<notin> granted k m" for st
    using sched object_inv_unstack [OF obj run that] by (intro user_inv_unlock) simp_all
  show ?thesis
  proof (cases f)
    case (In_mutex_acquire m st)
    show ?thesis
    proof (cases "?r < NO_ERROR")
      case True
      then have "?c \<notin> granted k n" for n by (auto simp: granted_def)
      with True r In_mutex_acquire show ?thesis
        unfolding settle by (auto simp: mutex_acquire_end_def plain)
    next
      case False
      with f In_mutex_acquire run have "?c \<in> granted k m" by (auto simp: granted_def)
      from object_inv_take [OF obj run this] sched False In_mutex_acquire show ?thesis
        unfolding settle by (auto simp: mutex_acquire_end_def mutex_take_def intro!: user_inv_unlock)
    qed
  next
    case (In_thread_join t c st)
    with f have ng: "\<And>m. ?c \<notin> granted k m" and t: "t \<noteq> idle_thread"
      by (auto simp: granted_def elim: after_block.elims)
    show ?thesis
    proof (cases "?r < 0")
      case True
      with ng In_thread_join show ?thesis
        unfolding settle by (auto simp: thread_join_end_def plain)
    next
      case False
      obtain k' where "thread_join_reap t c st ?k = Ret NO_ERROR k'" "user_inv k'"
        by (rule thread_join_reap_user_inv [of ?k t c st])
          (use sched object_inv_unstack [OF obj run ng] t in simp_all)
      with False In_thread_join show ?thesis unfolding settle by (simp add: thread_join_end_def)
    qed
  next
    case (In_sem_wait st)
    with f have "\<And>m. ?c \<notin> granted k m" by (auto simp: granted_def)
    with In_sem_wait plain show ?thesis unfolding settle by simp
  next
    case (In_sem_timedwait s st)
    with f have "\<And>m. ?c \<notin> granted k m" by (auto simp: granted_def)
    with In_sem_timedwait plain r show ?thesis unfolding settle by (simp add: sem_timedwait_end_def)
  next
    case (In_event_wait st)
    with f have "\<And>m. ?c \<notin> granted k m" by (auto simp: granted_def)
    with In_event_wait plain show ?thesis unfolding settle by simp
  qed (use f in \<open>auto elim: after_block.elims\<close>)
qed

lemma settle_user_inv:
  assumes sched: "sched_inv k" and obj: "object_inv k"
    and fs: "ready_stack (t_wait_queue_block_ret (threads k (current_thread k)))
               (stacks k (current_thread k))"
  shows "\<exists>v k'. settle (Switch k) = Ret v k' \<and> user_inv k'"
proof -
  let ?c = "current_thread k" and ?fs = "stacks k (current_thread k)"
  let ?k = "set_stack ?c [] k"
  have run: "runnable k ?c" using sched by (rule sched_inv_runnable)
  have plain: "user_inv (THREAD_UNLOCK st ?k)" if "\<And>m. ?c \<notin> granted k m" for st
    using sched object_inv_unstack [OF obj run that] by (intro user_inv_unlock) simp_all
  have ng: "?c \<notin> granted k m" if "\<nexists>w. blocked_stack w ?fs" for m
  proof
    assume "?c \<in> granted k m"
    then have "blocked_stack (Mutex_wait m) ?fs" by (auto simp: granted_def blocked_stack_def)
    with that show False by blast
  qed
  show ?thesis
  proof (cases "\<exists>w. blocked_stack w ?fs \<and> t_wait_queue_block_ret (threads k ?c) \<noteq> ERR_TIMED_OUT")
    case True
    then show ?thesis using settle_blocked_user_inv [OF sched obj] by blast
  next
    case False
    with fs consider
        (init) "?fs = [In_initial_thread]"
      | (yield) st where "?fs = [In_thread_yield st]"
      | (resume) st where "?fs = [In_thread_yield st, In_thread_resume]"
      | (preempt) st where "?fs = [In_thread_preempt st]"
      | (prio) st where "?fs = [In_thread_set_priority st]"
      | (wake) n f where "?fs = [In_wait_queue_wake n, f]" "after_wake n f"
      | (destroy) n w f where "?fs = [In_wait_queue_wake n, In_wait_queue_destroy w, f]" "after_destroy f"
      unfolding ready_stack_def by metis
    then show ?thesis
    proof cases
      case init
      then have "\<And>m. ?c \<notin> granted k m" by (auto simp: granted_def)
      from object_inv_unstack [OF obj run this] init sched show ?thesis
        by (simp add: initial_thread_func_def user_inv_def)
          (simp add: spin_unlock_def)
    next
      case wake
      then have "\<And>m. ?c \<notin> granted k m" by (auto simp: granted_def)
      note p = plain [OF this]
      from wake p show ?thesis
        by (cases f) (auto simp:  event_signal_end_def)
    next
      case destroy
      then have "\<And>m. ?c \<notin> granted k m" by (auto simp: granted_def)
      note p = object_inv_unstack [OF obj run this]
      let ?k' = "upd_wq w (\<lambda>q. q\<lparr>wq_magic := 0\<rparr>) ?k"
      have "sched_inv ?k'"
        using sched by (subst sched_inv_cong [of ?k' k]) simp_all
      moreover have "object_inv ?k'"
        by (rule object_inv_view [OF p]) (auto simp: same_objects_def runnable_def)
      ultimately have "user_inv (THREAD_UNLOCK st ?k')" for st
        by (intro user_inv_unlock) simp_all
      with destroy show ?thesis
        by (cases f) (auto simp: wait_queue_destroy_end_def)
    qed (use plain [OF ng] in \<open>auto simp:  blocked_stack_def\<close>)
  qed
qed


section \<open>Into the dispatcher\<close>

text \<open>
  \<open>dispatched frs k r\<close>: the call parked the current thread with the frames \<open>frs\<close> in state \<open>k\<close> and
  the dispatcher chose; whether it switched or stayed, what follows is the continuation of a saved
  stack.
\<close>

lemma resched_runnable:
  assumes "resched_rel k k'" "parked k"
  shows "runnable k' t \<longleftrightarrow> runnable k t \<or> t = current_thread k'"
    and "tstate k' t \<noteq> tstate k t \<Longrightarrow> t = current_thread k'"
proof -
  have "tstate k' u = tstate k u" if "u \<noteq> current_thread k'" for u
    using assms(1) that by (simp add: resched_rel_def)
  moreover have "tstate k' (current_thread k') = THREAD_RUNNING"
    using assms(1) by (simp add: resched_rel_def)
  ultimately show "runnable k' t \<longleftrightarrow> runnable k t \<or> t = current_thread k'"
    "tstate k' t \<noteq> tstate k t \<Longrightarrow> t = current_thread k'"
    unfolding runnable_def by (metis (full_types))+
qed

lemma parked_idle:
  assumes "resched_rel k k'" "parked k"
  shows "runnable k (current_thread k') \<or>
    current_thread k' = idle_thread \<and> tstate k idle_thread = THREAD_SUSPENDED"
proof (cases "\<exists>t. tstate k t = THREAD_READY")
  case True
  with assms(1) show ?thesis by (auto simp: resched_rel_def runnable_def)
next
  case False
  with assms(1) have "current_thread k' = idle_thread" by (simp add: resched_rel_def)
  moreover from assms(2) False have "tstate k idle_thread = THREAD_SUSPENDED"
    by (auto simp: parked_def base_inv_def idle_ok_def)
  ultimately show ?thesis by simp
qed

lemma object_inv_resched:
  assumes obj: "object_inv k" and rel: "resched_rel k k'" and park: "parked k"
    and st: "stacks k' = stacks k" "stacks k (current_thread k) \<noteq> []"
  shows "object_inv k'"
    and "ready_stack (t_wait_queue_block_ret (threads k' (current_thread k')))
           (stacks k' (current_thread k'))"
proof -
  let ?n = "current_thread k'"
  note run = resched_runnable [OF rel park]
  have same: "same_thread (threads k t) (threads k' t)" for t
    using rel by (simp add: resched_rel_def)
  then have fields: "twait k' t = twait k t"
    "t_wait_queue_block_ret (threads k' t) = t_wait_queue_block_ret (threads k t)"
    "t_flags (threads k' t) = t_flags (threads k t)" for t
    by (simp_all add: same_thread_def)
  have objs: "wait_queues k' = wait_queues k" "thread_list k' = thread_list k" "mutexes k' = mutexes k" "sems k' = sems k"
    "events k' = events k" using rel by (simp_all add: resched_rel_def same_objects_def)
  have strict: "ready_stack (t_wait_queue_block_ret (threads k t)) (stacks k t)" if "runnable k t" for t
    using obj st(2) that unfolding object_inv_def stack_ok_def by metis
  have idle: "stacks k idle_thread = [In_initial_thread]" if "tstate k idle_thread = THREAD_SUSPENDED"
    using obj that by (simp add: object_inv_def stack_ok_def idle_set_up_def)
  have pick: "ready_stack (t_wait_queue_block_ret (threads k ?n)) (stacks k ?n)"
    using parked_idle [OF rel park] strict idle by (auto simp: ready_stack_def)
  then show "ready_stack (t_wait_queue_block_ret (threads k' ?n)) (stacks k' ?n)"
    by (simp add: st fields)
  have nrun: "tstate k' t = s \<longleftrightarrow> tstate k t = s \<and> t \<noteq> ?n"
    if "s \<notin> {THREAD_READY, THREAD_RUNNING}" for s t
    using that run(2) [of t] rel unfolding resched_rel_def by (metis insert_iff)
  have nrun': "tstate k ?n = THREAD_SUSPENDED \<or> runnable k ?n"
    using parked_idle [OF rel park] by auto
  have g: "granted k' m = granted k m" for m
  proof -
    have "?n \<in> granted k m" if "stacks k ?n = [In_wait_queue_block INFINITE_TIME, In_mutex_acquire m st]"
      "t_wait_queue_block_ret (threads k ?n) \<ge> NO_ERROR" for st
      using that idle parked_idle [OF rel park] by (auto simp: granted_def)
    then show ?thesis using run(1) by (auto simp: granted_def st fields)
  qed
  have "stack_ok k'"
    using obj strict pick nrun nrun'
    by (auto simp: object_inv_def stack_ok_def run(1) st(1) fields objs)
  moreover have "join_ok k' t" for t
    using obj nrun [of THREAD_DEATH t] by (auto simp: object_inv_def join_ok_def objs fields)
  ultimately show "object_inv k'"
    using obj
    by (simp add: object_inv_def mutex_ok_def sem_ok_def event_ok_def idle_set_up_def
        thread_is_idle_def objs g fields)
qed

lemma dispatch_user_inv:
  assumes "parked k" "stacks k (current_thread k) = []" "frs \<noteq> []"
    "object_inv (set_stack (current_thread k) frs k)"
  obtains k' v k'' where "settle (kbind (thread_resched frs k) (run_frames frs)) = Ret v k''"
    "user_inv k''" "settle (Switch k') = Ret v k''" "sched_inv k'"
    "stacks k' = (stacks k)(current_thread k := frs)" "resched_rel k k'"
proof -
  let ?p = "set_stack (current_thread k) frs k"
  have ret: "\<exists>v k''. settle (Switch k') = Ret v k'' \<and> user_inv k''"
    if "resched_rel k k'" "stacks k' = (stacks k)(current_thread k := frs)" "sched_inv k'" for k'
  proof -
    have rel: "resched_rel ?p k'" using that(1) by (simp add: resched_rel_def same_objects_def set_stack_def)
    have "parked ?p" using assms(1) by (simp add: parked_def)
    note obj = object_inv_resched [OF assms(4) rel this]
    show ?thesis
      by (rule settle_user_inv [OF that(3)]; rule obj) (simp_all add: that(2) assms(3))
  qed
  from assms(1) show ?thesis
  proof (cases rule: thread_resched_cases [where fs = frs])
    case (stay k')
    let ?k' = "set_stack (current_thread k) frs k'"
    have un: "set_stack (current_thread k) [] ?k' = k'"
      using assms(2) stay(5) by (simp add: set_stack_def fun_upd_idem)
    have rel: "resched_rel k ?k'"
      using stay(2) by (simp add: resched_rel_def same_objects_def set_stack_def)
    obtain v k'' where b: "settle (Switch ?k') = Ret v k''" "user_inv k''"
      using ret [OF rel] stay by auto
    moreover from this(1) have "run_frames frs 0 k' = Ret v k''" using stay un by simp
    ultimately have "settle (kbind (thread_resched frs k) (run_frames frs)) = Ret v k''"
      using stay by simp
    with b stay rel show ?thesis by (intro that [of v k'' ?k']) simp_all
  next
    case (switch k')
    with ret [OF switch(2)] obtain v k'' where "settle (Switch k') = Ret v k''" "user_inv k''"
      by auto
    with switch show ?thesis by (intro that [of v k'' k']) simp_all
  qed
qed


section \<open>One object at a time\<close>

text \<open>
  \<open>object_inv_but X k\<close>: everything but what is said of the mutexes, semaphores, events and threads whose
  wait queues are in \<open>X\<close>.
\<close>

definition object_inv_but :: "wq_ref set \<Rightarrow> kernel \<Rightarrow> bool" where
  "object_inv_but X k \<longleftrightarrow> stack_ok k \<and> (\<forall>m. Mutex_wait m \<notin> X \<longrightarrow> mutex_ok k m) \<and>
     (\<forall>s. Sem_wait s \<notin> X \<longrightarrow> sem_ok k s) \<and> (\<forall>e. Event_wait e \<notin> X \<longrightarrow> event_ok k e) \<and>
     (\<forall>t. Retcode_wait t \<notin> X \<longrightarrow> join_ok k t) \<and> idle_set_up k"

lemma object_inv_but_empty: "object_inv_but {} k \<longleftrightarrow> object_inv k"
  by (simp add: object_inv_but_def object_inv_def)

lemma object_inv_but_mono: "object_inv_but X k \<Longrightarrow> X \<subseteq> Y \<Longrightarrow> object_inv_but Y k"
  by (auto simp: object_inv_but_def)

lemma object_inv_but_close:
  "object_inv_but {Mutex_wait m} k \<Longrightarrow> mutex_ok k m \<Longrightarrow> object_inv k"
  "object_inv_but {Sem_wait s} k \<Longrightarrow> sem_ok k s \<Longrightarrow> object_inv k"
  "object_inv_but {Event_wait e} k \<Longrightarrow> event_ok k e \<Longrightarrow> object_inv k"
  "object_inv_but {Retcode_wait t} k \<Longrightarrow> join_ok k t \<Longrightarrow> object_inv k"
  by (auto simp: object_inv_but_def object_inv_def)

lemmas but_defs = object_inv_but_def mutex_ok_def sem_ok_def event_ok_def join_ok_def
  idle_set_up_def thread_is_idle_def

lemma object_inv_but_upd:
  "object_inv_but {Mutex_wait m} k \<Longrightarrow> object_inv_but {Mutex_wait m} (upd_mutex m f k)"
  "object_inv_but {Sem_wait s} k \<Longrightarrow> object_inv_but {Sem_wait s} (upd_sem s g k)"
  "object_inv_but {Event_wait e} k \<Longrightarrow> object_inv_but {Event_wait e} (upd_event e h k)"
  by (auto simp: but_defs stack_ok_def granted_def runnable_def)

lemma object_inv_but_lock [simp]:
  "object_inv_but X (THREAD_UNLOCK st k) \<longleftrightarrow> object_inv_but X k"
  "object_inv_but X (locked k) \<longleftrightarrow> object_inv_but X k"
  by (simp_all add: but_defs stack_ok_def granted_def runnable_def)

lemma granted_upd [simp]:
  "granted (upd_mutex n f k) m = granted k m"
  "granted (upd_sem s g k) m = granted k m"
  "granted (upd_event e h k) m = granted k m"
  "granted (locked k) m = granted k m"
  "granted (THREAD_UNLOCK st k) m = granted k m"
  by (simp_all add: granted_def runnable_def)

text \<open>Waking the head of a queue.\<close>

lemma granted_woken:
  assumes "stack_ok k" "waiters k w = t # ts" "base_inv T k"
  shows "granted (woken w t ts err k) m =
    (if w = Mutex_wait m \<and> err \<ge> NO_ERROR then insert t (granted k m) else granted k m)"
proof -
  have "t \<in> set (waiters k w)" using assms(2) by simp
  with assms(3) have t: "tstate k t = THREAD_BLOCKED" "twait k t = Some w"
    unfolding base_inv_def waitq_ok_def by blast+
  with assms(1) obtain f where f: "stacks k t = [In_wait_queue_block INFINITE_TIME, f]" "after_block w f"
    by (fastforce simp: stack_ok_def blocked_stack_def)
  have "t \<notin> granted k m" using t by (simp add: granted_def runnable_def)
  moreover have "(\<exists>st. f = In_mutex_acquire m st) \<longleftrightarrow> w = Mutex_wait m"
    using f(2) by (auto elim: after_block.elims)
  ultimately show ?thesis by (auto simp: granted_def runnable_def f(1))
qed

lemma object_inv_but_woken:
  assumes inv: "object_inv_but X k" and ts: "waiters k w = t # ts" and base: "base_inv T k"
    and err: "err \<noteq> ERR_TIMED_OUT" and w: "w \<in> X"
  shows "object_inv_but X (woken w t ts err k)"
proof -
  let ?k = "woken w t ts err k"
  have "t \<in> set (waiters k w)" using ts by simp
  with base have t: "tstate k t = THREAD_BLOCKED" "twait k t = Some w"
    unfolding base_inv_def waitq_ok_def by blast+
  have stack: "stack_ok k" using inv by (simp add: object_inv_but_def)
  with t have "blocked_stack w (stacks k t)" by (fastforce simp: stack_ok_def)
  with err have "ready_stack err (stacks k t)" by (auto simp: ready_stack_def)
  with stack have "stack_ok ?k" by (auto simp: stack_ok_def runnable_def)
  moreover have "mutex_ok ?k m" if "Mutex_wait m \<notin> X" for m
    using inv that w by (auto simp: object_inv_but_def mutex_ok_def granted_woken [OF stack ts base])
  moreover have "sem_ok ?k s" if "Sem_wait s \<notin> X" for s
    using inv that w by (auto simp: object_inv_but_def sem_ok_def)
  moreover have "event_ok ?k e" if "Event_wait e \<notin> X" for e
    using inv ts that by (auto simp: object_inv_but_def event_ok_def)
  moreover have "join_ok ?k u" if "Retcode_wait u \<notin> X" for u
    using inv ts that by (auto simp: object_inv_but_def join_ok_def)
  moreover have "idle_set_up ?k"
    using inv by (auto simp: object_inv_but_def idle_set_up_def thread_is_idle_def)
  ultimately show ?thesis by (simp add: object_inv_but_def)
qed


text \<open>Waking all waiters.\<close>

lemma object_inv_but_wake_all_loop:
  assumes "object_inv_but X k" "base_inv T k" "err \<noteq> ERR_TIMED_OUT" "w \<in> X"
  shows "object_inv_but X (snd (wake_all_loop w err ret k))"
  using assms
proof (induction w err ret k rule: wake_all_loop.induct)
  case (1 w err ret k)
  show ?case
  proof (cases "waiters k w")
    case Nil
    with 1 show ?thesis by (simp add: wake_all_loop_simps)
  next
    case (Cons t ts)
    note step = object_inv_but_woken [OF 1(2) Cons 1(3) 1(4) 1(5)] base_inv_woken [OF 1(3) Cons]
    from 1(1) [OF Cons] step 1(4,5) Cons show ?thesis
      by (simp add: wake_all_loop_simps woken_def)
  qed
qed

lemma granted_wake_all:
  assumes "stack_ok k" "base_inv T k" "w \<noteq> Mutex_wait m \<or> err < NO_ERROR"
  shows "granted (snd (wake_all_loop w err ret k)) m = granted k m"
  using assms
proof (induction "length (waiters k w)" arbitrary: k ret)
  case 0
  then show ?case by (simp add: wake_all_loop_simps)
next
  case (Suc n)
  then obtain t ts where ts: "waiters k w = t # ts" by (cases "waiters k w") auto
  let ?k = "woken w t ts err k"
  have "t \<in> set (waiters k w)" using ts by simp
  with Suc.prems have t: "tstate k t = THREAD_BLOCKED" "twait k t = Some w"
    unfolding base_inv_def waitq_ok_def by blast+
  show ?case
  proof (cases "err = ERR_TIMED_OUT")
    case False
    from t Suc.prems(1) have "blocked_stack w (stacks k t)" by (fastforce simp: stack_ok_def)
    with False have "ready_stack err (stacks k t)" by (auto simp: ready_stack_def)
    with Suc.prems(1) have "stack_ok ?k" by (auto simp: stack_ok_def runnable_def)
    moreover have "granted ?k m = granted k m"
      using Suc.prems by (auto simp: granted_woken [OF Suc.prems(1) ts Suc.prems(2)])
    ultimately show ?thesis
      using Suc.hyps(1) [of ?k "ret + 1"] Suc.hyps(2) Suc.prems base_inv_woken [OF Suc.prems(2) ts] ts
      by (simp add: wake_all_loop_simps)
  next
    case True
    obtain k' where k': "wake_all_loop w err ret k = (ret + int (length (waiters k w)), k')"
      "wake_all_rel w err k k'" using wake_all_loop_spec [OF Suc.prems(2)] by blast
    have blk: "u \<in> set (waiters k w) \<Longrightarrow> u \<notin> granted k m \<and> u \<notin> granted k' m" for u
      using Suc.prems(2) k'(2) True unfolding base_inv_def waitq_ok_def
      by (auto simp: granted_def runnable_def wake_all_rel_def err_defs)
    have "u \<in> granted k' m \<longleftrightarrow> u \<in> granted k m" if "u \<notin> set (waiters k w)" for u
      using k'(2) that by (auto simp: granted_def runnable_def wake_all_rel_def)
    with blk k'(1) show ?thesis by auto
  qed
qed

text \<open>Entering a queue.\<close>

lemma granted_enqueue:
  "stacks k (current_thread k) = [] \<Longrightarrow>
   granted (set_stack (current_thread k) fs (wq_enqueue w k)) m = granted k m"
  by (auto simp: granted_def runnable_def)

lemma object_inv_but_enqueue:
  assumes inv: "object_inv_but X k" and un: "stacks k (current_thread k) = []"
    and f: "after_block w f" and w: "w \<in> X"
  shows "object_inv_but X
    (set_stack (current_thread k) [In_wait_queue_block INFINITE_TIME, f] (wq_enqueue w k))"
proof -
  let ?k = "set_stack (current_thread k) [In_wait_queue_block INFINITE_TIME, f] (wq_enqueue w k)"
  have "blocked_stack w [In_wait_queue_block INFINITE_TIME, f]"
    using f by (simp add: blocked_stack_def)
  then have "stack_ok ?k"
    using inv by (auto simp: object_inv_but_def stack_ok_def runnable_def)
  moreover have "mutex_ok ?k m" if "Mutex_wait m \<notin> X" for m
    using inv that w by (auto simp: object_inv_but_def mutex_ok_def granted_enqueue [OF un])
  moreover have "sem_ok ?k s" if "Sem_wait s \<notin> X" for s
    using inv that w by (auto simp: object_inv_but_def sem_ok_def)
  moreover have "event_ok ?k x" if "Event_wait x \<notin> X" for x
    using inv that w by (auto simp: object_inv_but_def event_ok_def)
  moreover have "join_ok ?k u" if "Retcode_wait u \<notin> X" for u
    using inv that w by (auto simp: object_inv_but_def join_ok_def)
  moreover have "idle_set_up ?k"
    using inv by (auto simp: object_inv_but_def idle_set_up_def thread_is_idle_def)
  ultimately show ?thesis by (simp add: object_inv_but_def)
qed

lemma block_user_inv:
  assumes sched: "sched_inv k" "current_thread k \<noteq> idle_thread"
    and un: "stacks k (current_thread k) = []"
    and obj: "object_inv (set_stack (current_thread k) [In_wait_queue_block INFINITE_TIME, f] (wq_enqueue w k))"
  obtains v k' where "settle (kbind (wait_queue_block w INFINITE_TIME [f] k) (run_frame f)) = Ret v k'"
    "user_inv k'"
proof -
  have run: "tstate k t = THREAD_RUNNING \<longleftrightarrow> t = current_thread k" for t
    using sched(1) by (simp add: sched_inv_def)
  have "base_inv {} (wq_enqueue w k)"
    using sched run by (intro base_inv_wq_enqueue) (auto simp: sched_inv_def)
  with run have park: "parked (wq_enqueue w k)" by (auto simp: parked_def)
  have eq: "kbind (wait_queue_block w INFINITE_TIME [f] k) (run_frame f) =
      kbind (thread_resched [In_wait_queue_block INFINITE_TIME, f] (wq_enqueue w k))
        (run_frames [In_wait_queue_block INFINITE_TIME, f])"
    by (simp add: wait_queue_block_def INFINITE_TIME_def Let_def kbind_assoc)
  show ?thesis
    by (rule dispatch_user_inv [OF park, of "[In_wait_queue_block INFINITE_TIME, f]"])
      (use un obj that eq in auto)
qed


section \<open>Parking a thread that stays runnable\<close>

definition neutral :: "frame list \<Rightarrow> bool" where
  "neutral frs \<longleftrightarrow> frs \<noteq> [] \<and> (\<forall>r. ready_stack r frs) \<and>
     (\<forall>m st. frs \<noteq> [In_wait_queue_block INFINITE_TIME, In_mutex_acquire m st])"

lemma neutral_frames:
  "neutral [In_thread_yield st]" "neutral [In_thread_yield st, In_thread_resume]"
  "neutral [In_thread_preempt st]" "neutral [In_thread_set_priority st]"
  "after_wake n f \<Longrightarrow> neutral [In_wait_queue_wake n, f]"
  "after_destroy f \<Longrightarrow> neutral [In_wait_queue_wake n, In_wait_queue_destroy w, f]"
  by (auto simp: neutral_def ready_stack_def)

lemma object_inv_but_view:
  assumes "object_inv_but X k" "same_objects k k'" "\<And>w. waiters k' w = waiters k w"
    and "\<And>t. runnable k' t \<longleftrightarrow> runnable k t"
    and "\<And>t. tstate k' t \<noteq> tstate k t \<Longrightarrow> runnable k t"
    and "\<And>t. twait k' t = twait k t"
    and "\<And>t. t_wait_queue_block_ret (threads k' t) = t_wait_queue_block_ret (threads k t)"
    and "\<And>t. t_flags (threads k' t) = t_flags (threads k t)"
    and "thread_list k' = thread_list k"
    and "stacks k' = stacks k" "current_thread k' = current_thread k"
  shows "object_inv_but X k'"
proof -
  have st: "tstate k' t = s \<longleftrightarrow> tstate k t = s" if "s \<notin> {THREAD_READY, THREAD_RUNNING}" for t s
    using assms(4,5) [of t] that unfolding runnable_def by (metis insert_iff)
  have g: "granted k' m = granted k m" for m
    using assms by (simp add: granted_def)
  have "stack_ok k'"
    using assms(1) by (simp add: object_inv_but_def stack_ok_def assms(2-) st)
  then show ?thesis
    using assms(1,2)
    by (simp add: but_defs same_objects_def assms(3-) st g)
qed

lemma object_inv_but_neutral:
  assumes "object_inv_but X k" "runnable k (current_thread k)" "stacks k (current_thread k) = []"
    "neutral frs"
  shows "object_inv_but X (set_stack (current_thread k) frs k)"
proof -
  let ?k = "set_stack (current_thread k) frs k"
  have g: "granted ?k m = granted k m" for m
    using assms(3,4) by (auto simp: granted_def runnable_def neutral_def)
  have "stack_ok ?k"
    using assms by (auto simp: object_inv_but_def stack_ok_def runnable_def neutral_def)
  then show ?thesis
    using assms(1) by (simp add: but_defs g)
qed

lemma object_inv_but_requeue:
  assumes "object_inv_but X k" "tstate k (current_thread k) = THREAD_RUNNING"
  shows "object_inv_but X (requeue_current k)"
  using assms(2)
  by (intro object_inv_but_view [OF assms(1)]) (auto simp: same_objects_def runnable_def split: if_splits)

lemma granted_requeue:
  "tstate k (current_thread k) = THREAD_RUNNING \<Longrightarrow> granted (requeue_current k) m = granted k m"
  by (auto simp: granted_def runnable_def split: if_splits)

text \<open>
  A call that made the current thread ready (and possibly woke others) and now dispatches.
\<close>

lemma ready_dispatch_user_inv:
  assumes "base_inv {} k" "\<And>t. tstate k t \<noteq> THREAD_RUNNING"
    and "tstate k (current_thread k) = THREAD_READY" "stacks k (current_thread k) = []"
    and "object_inv k" "neutral frs"
  obtains v k' where "settle (kbind (thread_resched frs k) (run_frames frs)) = Ret v k'" "user_inv k'"
proof -
  have "object_inv (set_stack (current_thread k) frs k)"
    using object_inv_but_neutral [of "{}" k frs] assms by (simp add: object_inv_but_empty runnable_def)
  then show ?thesis
    by (rule dispatch_user_inv [of k frs, rotated 3])
      (use assms that in \<open>auto simp: parked_def neutral_def\<close>)
qed

text \<open>The three calls that only move the current thread.\<close>

lemma own_dispatch_user_inv:
  assumes k: "user_inv k" and k1: "base_inv {} k1" "current_thread k1 = current_thread k"
    and th: "\<And>t. tstate k1 t = (if t = current_thread k then THREAD_READY else tstate k t)"
      "\<And>t. twait k1 t = twait k t"
      "\<And>t. t_wait_queue_block_ret (threads k1 t) = t_wait_queue_block_ret (threads k t)"
      "\<And>t. t_flags (threads k1 t) = t_flags (threads k t)"
      "thread_list k1 = thread_list k"
    and same: "same_objects k k1" "\<And>w. waiters k1 w = waiters k w" "stacks k1 = stacks k"
    and frs: "neutral frs"
  obtains v k' where "settle (kbind (thread_resched frs k1) (run_frames frs)) = Ret v k'" "user_inv k'"
proof -
  have run: "tstate k t = THREAD_RUNNING \<longleftrightarrow> t = current_thread k" for t
    using k by (simp add: user_inv_def sched_inv_def)
  have obj: "object_inv k" using k by (simp add: user_inv_def)
  have "object_inv k1"
    by (rule object_inv_view [OF obj same(1,2)])
      (auto simp: runnable_def th same(3) k1(2) run split: if_splits)
  with k1(1) show ?thesis
    by - (rule ready_dispatch_user_inv [of k1, OF _ _ _ _ _ frs];
        use k in \<open>simp add: th(1) run k1(2) same(3) user_inv_def that\<close>)
qed

lemma not_idle_flag: "user_inv k \<Longrightarrow> \<not> thread_is_idle k t"
  by (simp add: user_inv_def object_inv_def idle_set_up_def)

lemma base_inv_ready_insert:
  assumes "base_inv {} k" "tstate k t = THREAD_RUNNING \<or> tstate k t = THREAD_SUSPENDED"
  shows "base_inv {} (insert_in_run_queue_head t (set_state t THREAD_READY k))"
    and "base_inv {} (insert_in_run_queue_tail t (set_state t THREAD_READY k))"
proof -
  have "base_inv {t} (set_state t THREAD_READY k)"
    using base_inv_make_ready [OF assms(1), of t] assms(2) by (auto simp: set_state_def)
  from base_inv_insert_head [OF this, of t] base_inv_insert_tail [OF this, of t]
  show "base_inv {} (insert_in_run_queue_head t (set_state t THREAD_READY k))"
    "base_inv {} (insert_in_run_queue_tail t (set_state t THREAD_READY k))" by simp_all
qed


section \<open>Yielding, preemption, priorities\<close>

lemma base_inv_quantum: "base_inv T (upd_thread t (\<lambda>x. x\<lparr>t_remaining_quantum := q x\<rparr>) k) \<longleftrightarrow> base_inv T k"
  by (rule base_inv_upd_thread) simp_all

lemma thread_yield_user_inv:
  assumes k: "user_inv k" and g: "g = [] \<or> g = [In_thread_resume]"
  obtains v k' where "settle (kbind (thread_yield g k) (run_frames g)) = Ret v k'" "user_inv k'"
proof -
  let ?c = "current_thread k"
  let ?st = "if ints_enabled k then 1 else 0 :: u32"
  let ?k = "upd_thread ?c (\<lambda>x. x\<lparr>t_remaining_quantum := 0\<rparr>) (set_state ?c THREAD_READY (locked k))"
  let ?k1 = "insert_in_run_queue_tail ?c ?k"
  have eq: "kbind (thread_yield g k) (run_frames g) =
      kbind (thread_resched (In_thread_yield ?st # g) ?k1) (run_frames (In_thread_yield ?st # g))"
    using not_idle_flag [OF k, of ?c]
    by (simp add: thread_yield_def THREAD_LOCK_locked Let_def thread_is_idle_def set_state_def kbind_assoc)
  have "base_inv {} (locked k)" "tstate k ?c = THREAD_RUNNING"
    using k by (simp_all add: user_inv_def sched_inv_def)
  then have "base_inv {?c} (set_state ?c THREAD_READY (locked k))"
    unfolding set_state_def by (intro base_inv_make_ready) simp_all
  then have "base_inv {?c} ?k" by (simp add: base_inv_quantum)
  from base_inv_insert_tail [OF this, of ?c] have "base_inv {} ?k1" by simp
  then show ?thesis
    by (rule own_dispatch_user_inv [OF k, of ?k1 "In_thread_yield ?st # g"])
      (use g that eq in \<open>auto simp: set_state_def same_objects_def intro: neutral_frames\<close>)
qed


lemma thread_preempt_user_inv:
  assumes k: "user_inv k"
  obtains v k' where "settle (thread_preempt [] k) = Ret v k'" "user_inv k'"
proof -
  let ?c = "current_thread k"
  let ?st = "if ints_enabled k then 1 else 0 :: u32"
  let ?k = "set_state ?c THREAD_READY (locked k)"
  let ?k1 = "if t_remaining_quantum (threads k ?c) > 0 then insert_in_run_queue_head ?c ?k
             else insert_in_run_queue_tail ?c ?k"
  have eq: "thread_preempt [] k =
      kbind (thread_resched [In_thread_preempt ?st] ?k1) (run_frames [In_thread_preempt ?st])"
    using not_idle_flag [OF k, of ?c]
    by (simp add: thread_preempt_def THREAD_LOCK_locked Let_def thread_is_idle_def set_state_def)
  have "base_inv {} (locked k)" "tstate k ?c = THREAD_RUNNING"
    using k by (simp_all add: user_inv_def sched_inv_def)
  then have "base_inv {} ?k1" using base_inv_ready_insert [of "locked k" ?c] by simp
  then show ?thesis
    by (rule own_dispatch_user_inv [OF k, of ?k1 "[In_thread_preempt ?st]"])
      (use that eq in \<open>auto simp: set_state_def same_objects_def intro: neutral_frames\<close>)
qed

lemma thread_set_priority_user_inv:
  assumes k: "user_inv k"
  obtains v k' where "settle (thread_set_priority p [] k) = Ret v k'" "user_inv k'"
proof -
  let ?c = "current_thread k"
  let ?st = "if ints_enabled k then 1 else 0 :: u32"
  define q where "q = max 1 (min p 31)"
  let ?k = "upd_thread ?c (\<lambda>x. x\<lparr>t_priority := q\<rparr>) (locked k)"
  let ?k1 = "insert_in_run_queue_head ?c (set_state ?c THREAD_READY ?k)"
  have "(if (if p \<le> IDLE_PRIORITY then IDLE_PRIORITY + 1 else p) > HIGHEST_PRIORITY then HIGHEST_PRIORITY
      else if p \<le> IDLE_PRIORITY then IDLE_PRIORITY + 1 else p) = q"
    by (auto simp: q_def prio_consts)
  then have eq: "thread_set_priority p [] k =
      kbind (thread_resched [In_thread_set_priority ?st] ?k1) (run_frames [In_thread_set_priority ?st])"
    by (simp add: thread_set_priority_def THREAD_LOCK_locked Let_def)
  have b: "base_inv {} (locked k)" and r: "tstate k ?c = THREAD_RUNNING"
    using k by (simp_all add: user_inv_def sched_inv_def)
  have "base_inv {} ?k" using b r by (auto simp: inv_defs q_def)
  then have "base_inv {} ?k1" using r base_inv_ready_insert(1) [of ?k ?c] by simp
  then show ?thesis
    by (rule own_dispatch_user_inv [OF k, of ?k1 "[In_thread_set_priority ?st]"])
      (use that eq in \<open>auto simp: set_state_def same_objects_def intro: neutral_frames\<close>)
qed

text \<open>Calls that touch nothing the invariant reads.\<close>

lemma user_inv_view:
  assumes "user_inv k" "run_queue k' = run_queue k" "run_queue_bitmap k' = run_queue_bitmap k"
    and "wait_queues k' = wait_queues k" "same_objects k k'" "stacks k' = stacks k"
    and "current_thread k' = current_thread k" "thread_lock k' = 0"
    and "\<And>t. tstate k' t = tstate k t" "\<And>t. tprio k' t = tprio k t" "\<And>t. twait k' t = twait k t"
    and "\<And>t. t_wait_queue_block_ret (threads k' t) = t_wait_queue_block_ret (threads k t)"
    and "\<And>t. t_flags (threads k' t) = t_flags (threads k t)"
    and "thread_list k' = thread_list k"
  shows "user_inv k'"
proof -
  have "sched_inv k'" using assms(1) sched_inv_cong [of k' k] assms(2-) by (simp add: user_inv_def)
  moreover have "object_inv k'"
    using assms(1) by (intro object_inv_view [of k k']) (simp_all add: user_inv_def runnable_def assms(2-))
  ultimately show ?thesis using assms(1) by (simp add: user_inv_def assms(2-))
qed

lemma thread_timer_tick_user_inv:
  assumes "user_inv k"
  shows "user_inv (snd (thread_timer_tick k))"
proof -
  have "user_inv (upd_thread t (\<lambda>x. x\<lparr>t_remaining_quantum := q x\<rparr>) k)" for t q
    by (rule user_inv_view [OF assms]) (use assms in \<open>simp_all add: same_objects_def user_inv_def\<close>)
  with assms show ?thesis by (simp add: thread_timer_tick_def Let_def)
qed

lemma timer_interrupt_user_inv:
  assumes "user_inv k"
  obtains v k' where "settle (timer_interrupt [] k) = Ret v k'" "user_inv k'"
proof -
  obtain h k1 where tick: "thread_timer_tick k = (h, k1)" by (cases "thread_timer_tick k")
  with thread_timer_tick_user_inv [OF assms] have k1: "user_inv k1" by simp
  then obtain v k' where "settle (thread_preempt [] k1) = Ret v k'" "user_inv k'"
    by (rule thread_preempt_user_inv)
  with tick k1 show ?thesis
    by (cases h) (auto simp: timer_interrupt_def intro: that)
qed

section \<open>Flags, creation, resuming\<close>

lemma flag_idle_or:
  "f AND THREAD_FLAG_IDLE = 0 \<Longrightarrow> (f OR THREAD_FLAG_REAL_TIME) AND THREAD_FLAG_IDLE = 0"
  "f AND THREAD_FLAG_IDLE = 0 \<Longrightarrow> (f OR THREAD_FLAG_DETACHED) AND THREAD_FLAG_IDLE = 0"
  by (simp_all add: flag_defs bit.conj_disj_distrib2)

lemma flag_detached_or:
  "(f OR THREAD_FLAG_REAL_TIME) AND THREAD_FLAG_DETACHED = f AND THREAD_FLAG_DETACHED"
  by (simp add: flag_defs bit.conj_disj_distrib2)

lemma object_inv_flags:
  assumes inv: "object_inv_but X k" and idle: "F (t_flags (threads k t)) AND THREAD_FLAG_IDLE = 0"
    and det: "F (t_flags (threads k t)) AND THREAD_FLAG_DETACHED \<noteq> 0 \<Longrightarrow>
      t_flags (threads k t) AND THREAD_FLAG_DETACHED \<noteq> 0 \<or> waiters k (Retcode_wait t) = []"
    and t: "t = idle_thread \<Longrightarrow> F (t_flags (threads k t)) AND THREAD_FLAG_DETACHED \<noteq> 0"
  shows "object_inv_but X (upd_thread t (\<lambda>x. x\<lparr>t_flags := F (t_flags x)\<rparr>) k)"
proof -
  let ?k = "upd_thread t (\<lambda>x. x\<lparr>t_flags := F (t_flags x)\<rparr>) k"
  have run: "runnable ?k u \<longleftrightarrow> runnable k u" for u by (simp add: runnable_def)
  have g: "granted ?k m = granted k m" for m by (auto simp: granted_def run split: if_splits)
  have "stack_ok ?k" using inv by (auto simp: object_inv_but_def stack_ok_def run split: if_splits)
  moreover have "join_ok ?k u" if "Retcode_wait u \<notin> X" for u
    using inv det that by (auto simp: object_inv_but_def join_ok_def)
  moreover have "idle_set_up ?k"
    using inv idle t by (auto simp: object_inv_but_def idle_set_up_def thread_is_idle_def)
  ultimately show ?thesis
    using inv by (simp add: object_inv_but_def mutex_ok_def sem_ok_def event_ok_def g)
qed

lemma sched_inv_flags [simp]:
  "sched_inv (upd_thread t (\<lambda>x. x\<lparr>t_flags := F x\<rparr>) k) \<longleftrightarrow> sched_inv k"
  by (rule sched_inv_cong) simp_all

lemma object_inv_idle_flags:
  "object_inv k \<Longrightarrow> t_flags (threads k t) AND THREAD_FLAG_IDLE = 0"
  "object_inv k \<Longrightarrow> t_flags (threads k idle_thread) AND THREAD_FLAG_DETACHED \<noteq> 0"
  by (simp_all add: object_inv_def idle_set_up_def thread_is_idle_def)

lemma thread_set_real_time_user_inv:
  assumes k: "user_inv k"
  obtains k' where "thread_set_real_time (Some t) k = Ret NO_ERROR k'" "user_inv k'"
proof -
  let ?k = "upd_thread t (\<lambda>x. x\<lparr>t_flags := t_flags x OR THREAD_FLAG_REAL_TIME\<rparr>) (locked k)"
  have obj: "object_inv k" using k by (simp add: user_inv_def)
  then have "object_inv_but {} ?k"
    using object_inv_idle_flags [OF obj]
    by (intro object_inv_flags) (auto simp: object_inv_but_empty flag_idle_or flag_detached_or)
  then have "user_inv (THREAD_UNLOCK st ?k)" for st
    using k by (intro user_inv_unlock) (simp_all add: user_inv_def object_inv_but_empty)
  then show ?thesis
    by (intro that) (auto simp: thread_set_real_time_def THREAD_LOCK_locked)
qed

text \<open>Setting up a thread in unused memory.\<close>

lemma sched_inv_suspend:
  assumes "sched_inv k" "t \<noteq> current_thread k" "tstate k t \<in> {THREAD_SUSPENDED, THREAD_DEATH}"
    "waiters k (Retcode_wait t) = []" "t_state x = THREAD_SUSPENDED" "0 \<le> t_priority x" "t_priority x < 32"
    "t_blocking_wait_queue x = None"
    "\<And>w. waiters k' w = waiters k w" "\<And>w. wq_count (wait_queues k' w) = wq_count (wait_queues k w)"
    "run_queue k' = run_queue k" "run_queue_bitmap k' = run_queue_bitmap k"
    "current_thread k' = current_thread k" "threads k' = (threads k)(t := x)"
  shows "sched_inv k'"
  using assms by (auto simp: sched_inv_def inv_defs)

lemma object_inv_create:
  assumes inv: "object_inv k" and t: "t \<noteq> idle_thread" "t \<noteq> current_thread k"
    "tstate k t \<in> {THREAD_SUSPENDED, THREAD_DEATH}" "waiters k (Retcode_wait t) = []"
    and x: "t_state x = THREAD_SUSPENDED" "t_flags x AND THREAD_FLAG_IDLE = 0"
    and k': "same_objects k k'" "\<And>w. waiters k' w = waiters k w" "threads k' = (threads k)(t := x)"
      "current_thread k' = current_thread k" "\<And>u. u \<noteq> t \<Longrightarrow> stacks k' u = stacks k u"
      "thread_list k' = thread_list k \<and> t \<notin> set (thread_list k) \<or>
       thread_list k' = t # thread_list k \<and> stacks k' t = [In_initial_thread]"
  shows "object_inv k'"
proof -
  have run: "runnable k' u \<longleftrightarrow> runnable k u \<and> u \<noteq> t" "runnable k t \<longleftrightarrow> False" for u
    using t x(1) by (auto simp: runnable_def k'(3))
  have g: "granted k' m = granted k m" for m
    using k'(5) by (auto simp: granted_def run k'(3))
  have "stack_ok k'"
    using inv k'(5,6) t x by (auto simp: object_inv_def stack_ok_def run k'(3,4))
  moreover have "join_ok k' u" for u
    using inv t by (auto simp: object_inv_def join_ok_def k'(2,3))
  moreover have "idle_thread \<in> set (thread_list k')"
    using inv k'(6) by (auto simp: object_inv_def idle_set_up_def)
  ultimately show ?thesis
    using inv t x k'(1)
    by (simp add: object_inv_def mutex_ok_def sem_ok_def event_ok_def idle_set_up_def
        thread_is_idle_def g same_objects_def k'(2,3))
qed


lemma thread_create_user_inv:
  assumes k: "user_inv k" and fresh: "fresh_struct t k" and prio: "0 \<le> prio" "prio \<le> HIGHEST_PRIORITY"
  shows "user_inv (snd (thread_create name entry arg prio sz (Some t) m_stack k))"
proof -
  let ?k' = "snd (thread_create name entry arg prio sz (Some t) m_stack k)"
  let ?x = "threads ?k' t"
  have f: "t \<noteq> idle_thread" "t \<noteq> current_thread k" "t \<notin> set (thread_list k)"
    "tstate k t \<in> {THREAD_SUSPENDED, THREAD_DEATH}" "waiters k (Retcode_wait t) = []"
    using fresh by (auto simp: fresh_struct_def)
  have cnt: "wq_count (wait_queues k (Retcode_wait t)) = 0"
    using k f(5) by (auto simp: user_inv_def sched_inv_def base_inv_def waitq_ok_def)
  have nn: "THREAD_FLAG_FREE_STRUCT \<noteq> 0" "(THREAD_FLAG_FREE_STRUCT OR THREAD_FLAG_FREE_STACK) AND THREAD_FLAG_IDLE = 0"
    by (simp_all add: flag_defs)
  note unf = thread_create_def thread_create_etc_def Let_def init_thread_struct_def
    wait_queue_init_def THREAD_LOCK_locked free_mem_def arch_thread_initialize_def
  have th: "threads ?k' = (threads k)(t := ?x)"
    by (cases m_stack) (simp_all add: unf fun_eq_iff)
  have x: "t_state ?x = THREAD_SUSPENDED" "t_priority ?x = prio" "t_blocking_wait_queue ?x = None"
    "t_flags ?x AND THREAD_FLAG_IDLE = 0"
    by (cases m_stack; simp add: unf nn)+
  have wq: "waiters ?k' w = waiters k w" "wq_count (wait_queues ?k' w) = wq_count (wait_queues k w)" for w
    using f(5) cnt by (cases m_stack; simp add: unf)+
  have rest: "run_queue ?k' = run_queue k" "run_queue_bitmap ?k' = run_queue_bitmap k"
    "current_thread ?k' = current_thread k" "same_objects k ?k'" "thread_lock ?k' = 0"
    using k by (cases m_stack; simp add: unf same_objects_def user_inv_def)+
  have st: "stacks ?k' u = stacks k u" if "u \<noteq> t" for u
    using that by (cases m_stack; simp add: unf)
  have tl: "thread_list ?k' = thread_list k \<and> t \<notin> set (thread_list k) \<or>
      thread_list ?k' = t # thread_list k \<and> stacks ?k' t = [In_initial_thread]"
    using f(3) by (cases m_stack; simp add: unf)
  have "sched_inv ?k'"
    by (rule sched_inv_suspend [of k t ?x])
      (use k f x th wq rest prio in \<open>simp_all add: user_inv_def prio_consts\<close>)
  moreover have "object_inv ?k'"
    by (rule object_inv_create [of k t ?x])
      (use k f x th wq rest st tl in \<open>simp_all add: user_inv_def\<close>)
  ultimately show ?thesis using k st f(2) rest by (simp add: user_inv_def)
qed

text \<open>A suspended thread enters its run queue.\<close>

lemma object_inv_resume:
  assumes inv: "object_inv k" and t: "tstate k t = THREAD_SUSPENDED" "t \<in> set (thread_list k)"
  shows "object_inv (insert_in_run_queue_head t (set_state t THREAD_READY k))"
proof -
  let ?k = "insert_in_run_queue_head t (set_state t THREAD_READY k)"
  have st: "stacks k t = [In_initial_thread]"
    using inv t by (simp add: object_inv_def stack_ok_def)
  have g: "granted ?k m = granted k m" for m
    using st by (auto simp: granted_def runnable_def set_state_def)
  have "stack_ok ?k"
    using inv st by (auto simp: object_inv_def stack_ok_def runnable_def set_state_def ready_stack_def)
  moreover have "join_ok ?k u" for u
    using inv t by (auto simp: object_inv_def join_ok_def set_state_def)
  ultimately show ?thesis
    using inv
    by (simp add: object_inv_def mutex_ok_def sem_ok_def event_ok_def idle_set_up_def
        thread_is_idle_def g [unfolded set_state_def] set_state_def)
qed

lemma thread_resume_user_inv:
  assumes k: "user_inv k" and t: "t \<in> set (thread_list k)"
  obtains k' where "settle (thread_resume t [] k) = Ret NO_ERROR k'" "user_inv k'"
  | v k' where "settle (thread_resume t [] k) = Ret v k'" "user_inv k'"
proof -
  let ?st = "if ints_enabled k then 1 else 0 :: u32"
  let ?k1 = "insert_in_run_queue_head t (set_state t THREAD_READY (locked k))"
  have plain: "user_inv (THREAD_UNLOCK st (locked k))" for st
    using k by (intro user_inv_unlock) (simp_all add: user_inv_def)
  show ?thesis
  proof (cases "tstate k t = THREAD_SUSPENDED")
    case False
    then have "settle (thread_resume t [] k) = Ret NO_ERROR (THREAD_UNLOCK ?st (locked k))"
      by (simp add: thread_resume_def THREAD_LOCK_locked Let_def)
    with plain show ?thesis by (intro that(1))
  next
    case True
    have c: "current_thread k \<noteq> t"
      using k True sched_inv_running [of k] by (auto simp: user_inv_def)
    have b: "base_inv {} ?k1"
      using k True base_inv_ready_insert(1) [of "locked k" t] by (simp add: user_inv_def sched_inv_def)
    have "sched_inv ?k1"
      using k b c by (auto simp: user_inv_def sched_inv_def set_state_def)
    moreover have "object_inv ?k1"
      using k True t by (intro object_inv_resume) (simp_all add: user_inv_def)
    ultimately have u: "user_inv (THREAD_UNLOCK ?st ?k1)"
      using k by (intro user_inv_unlock) (simp_all add: user_inv_def set_state_def)
    show ?thesis
    proof (cases "ints_enabled k")
      case False
      with True have "settle (thread_resume t [] k) = Ret NO_ERROR (THREAD_UNLOCK ?st ?k1)"
        by (simp add: thread_resume_def THREAD_LOCK_locked Let_def arch_ints_disabled_def)
      with u show ?thesis by (intro that(1))
    next
      case ints: True
      have "thread_resume t [] k =
          kbind (thread_yield [In_thread_resume] (THREAD_UNLOCK ?st ?k1)) (run_frames [In_thread_resume])"
        using True ints
        by (simp add: thread_resume_def THREAD_LOCK_locked Let_def arch_ints_disabled_def)
      with thread_yield_user_inv [OF u, of "[In_thread_resume]"] that(2) show ?thesis by metis
    qed
  qed
qed

end
