(* ===== verification/Lk_Calls.thy ===== *)
theory Lk_Calls imports Lk_Invariant begin

text \<open>
  The calls that use wait queues keep \<open>user_inv\<close>: join, detach, exit, the mutexes, the semaphores
  and the events. The last lemma, \<open>exec_user_inv\<close>, puts all calls together.
\<close>

section \<open>Joining, detaching, exiting\<close>

lemma user_invD:
  assumes "user_inv k"
  shows "sched_inv k" "object_inv k" "object_inv_but X k" "stacks k (current_thread k) = []"
    "base_inv {} k" "tstate k (current_thread k) = THREAD_RUNNING" "runnable k (current_thread k)"
    "stack_ok k" "thread_lock k = 0"
  using assms
  by (auto simp: user_inv_def sched_inv_def object_inv_def runnable_def object_inv_but_def)

lemma user_inv_locked_unlock:
  "user_inv k \<Longrightarrow> user_inv (THREAD_UNLOCK st (locked k))"
  by (intro user_inv_unlock) (simp_all add: user_invD)

lemma thread_join_user_inv:
  assumes k: "user_inv k" and c: "current_thread k \<noteq> idle_thread" and to: "timeout_ok timeout"
  obtains v k' where "settle (thread_join t r timeout [] k) = Ret v k'" "user_inv k'"
proof -
  let ?st = "if ints_enabled k then 1 else 0 :: u32"
  let ?f = "In_thread_join t r ?st"
  note d = user_invD [OF k]
  show ?thesis
  proof (cases "t_flags (threads k t) AND THREAD_FLAG_DETACHED = 0")
    case False
    then show ?thesis
      using that user_inv_locked_unlock [OF k] by (auto simp: thread_join_def THREAD_LOCK_locked)
  next
    case flag: True
    then have ti: "t \<noteq> idle_thread" using object_inv_idle_flags(2) [OF d(2)] by auto
    show ?thesis
    proof (cases "tstate k t = THREAD_DEATH")
      case True
      obtain k' where "thread_join_reap t r ?st (locked k) = Ret NO_ERROR k'" "user_inv k'"
        by (rule thread_join_reap_user_inv [of "locked k"]) (use d ti in simp_all)
      with flag True show ?thesis by (intro that) (auto simp: thread_join_def THREAD_LOCK_locked)
    next
      case False
      then have eq: "thread_join t r timeout [] k =
          kbind (wait_queue_block (Retcode_wait t) timeout [?f] (locked k)) (run_frame ?f)"
        using flag by (simp add: thread_join_def THREAD_LOCK_locked)
      show ?thesis
      proof (cases "timeout = 0")
        case True
        with eq show ?thesis
          using that user_inv_locked_unlock [OF k]
          by (simp add: wait_queue_block_timeout_0 thread_join_end_def err_defs)
      next
        case to0: False
        let ?p = "set_stack (current_thread k) [In_wait_queue_block INFINITE_TIME, ?f]
            (wq_enqueue (Retcode_wait t) (locked k))"
        have "object_inv_but {Retcode_wait t} ?p"
          using object_inv_but_enqueue [of "{Retcode_wait t}" "locked k" "Retcode_wait t" ?f] d ti
          by simp
        moreover have "join_ok ?p t" using flag False by (auto simp: join_ok_def)
        ultimately have "object_inv ?p" by (rule object_inv_but_close)
        then show ?thesis
          using d c eq to to0 that
          by (auto simp: timeout_ok_def intro: block_user_inv [of "locked k" ?f "Retcode_wait t"])
      qed
    qed
  qed
qed


text \<open>After the loop of \<open>wait_queue_wake_all\<close>.\<close>

lemma wake_all_facts:
  assumes inv: "object_inv_but {w} k" and base: "base_inv {} k" and err: "err \<noteq> ERR_TIMED_OUT"
  obtains k' where "wake_all_loop w err ret k = (ret + int (length (waiters k w)), k')"
    "base_inv {} k'" "wake_all_rel w err k k'" "object_inv_but {w} k'"
    "\<And>t. tstate k t \<noteq> THREAD_BLOCKED \<Longrightarrow> tstate k' t = tstate k t"
    "\<And>t. tstate k' t = THREAD_RUNNING \<longleftrightarrow> tstate k t = THREAD_RUNNING"
proof -
  obtain k' where k': "wake_all_loop w err ret k = (ret + int (length (waiters k w)), k')"
    "base_inv {} k'" "wake_all_rel w err k k'" using wake_all_loop_spec [OF base] by blast
  moreover have "object_inv_but {w} k'"
    using object_inv_but_wake_all_loop [OF inv base err, of w ret] k'(1) by simp
  moreover have blk: "tstate k t = THREAD_BLOCKED" if "t \<in> set (waiters k w)" for t
    using base that unfolding base_inv_def waitq_ok_def by blast
  moreover have "tstate k' t = tstate k t" if "tstate k t \<noteq> THREAD_BLOCKED" for t
    using k'(3) blk that by (auto simp: wake_all_rel_def)
  moreover have "tstate k' t = THREAD_RUNNING \<longleftrightarrow> tstate k t = THREAD_RUNNING" for t
    using k'(3) blk [of t] by (cases "t \<in> set (waiters k w)") (simp_all add: wake_all_rel_def)
  ultimately show ?thesis by (intro that)
qed

lemma flag_and_idle: "(f :: u32) AND THREAD_FLAG_IDLE = 0 \<Longrightarrow> (f AND c) AND THREAD_FLAG_IDLE = 0"
  by (metis and.assoc and.commute and_zero_eq)

lemma thread_detach_user_inv:
  assumes k: "user_inv k" and c: "current_thread k \<noteq> idle_thread"
  obtains k' where "thread_detach t [] k = Ret NO_ERROR k'" "user_inv k'" "tstate k t \<noteq> THREAD_DEATH"
      "thread_list k' = thread_list k"
  | v k' where "settle (thread_detach t [] k) = Ret v k'" "user_inv k'" "tstate k t = THREAD_DEATH"
proof -
  let ?st = "if ints_enabled k then 1 else 0 :: u32"
  let ?w = "Retcode_wait t"
  note d = user_invD [OF k]
  obtain k2 where k2: "wake_all_loop ?w ERR_THREAD_DETACHED 0 (locked k) =
      (0 + int (length (waiters (locked k) ?w)), k2)"
    "base_inv {} k2" "wake_all_rel ?w ERR_THREAD_DETACHED (locked k) k2" "object_inv_but {?w} k2"
    "\<And>u. tstate (locked k) u \<noteq> THREAD_BLOCKED \<Longrightarrow> tstate k2 u = tstate (locked k) u"
    "\<And>u. tstate k2 u = THREAD_RUNNING \<longleftrightarrow> tstate (locked k) u = THREAD_RUNNING"
    by (rule wake_all_facts [of ?w "locked k" ERR_THREAD_DETACHED 0]) (use d in \<open>simp_all add: err_defs\<close>)
  have w2: "waiters k2 ?w = []" "current_thread k2 = current_thread k" "stacks k2 = stacks k"
    "t_flags (threads k2 u) = t_flags (threads k u)" for u
    using k2(3) by (simp_all add: wake_all_rel_def)
  have sched: "sched_inv k2" using k2(2,6) d(1) w2 by (simp add: sched_inv_def)
  have "object_inv k2" using k2(4) by (rule object_inv_but_close) (simp add: join_ok_def w2)
  note obj = object_inv_but_empty [THEN iffD2, OF this] and idle = object_inv_idle_flags [OF this]
  have eq: "thread_detach t [] k = (if tstate k2 t = THREAD_DEATH
      then thread_join t None 0 [] (THREAD_UNLOCK ?st
             (upd_thread t (\<lambda>x. x\<lparr>t_flags := t_flags x AND NOT THREAD_FLAG_DETACHED\<rparr>) k2))
      else Ret NO_ERROR (THREAD_UNLOCK ?st
             (upd_thread t (\<lambda>x. x\<lparr>t_flags := t_flags x OR THREAD_FLAG_DETACHED\<rparr>) k2)))"
    using k2(1) by (simp add: thread_detach_def THREAD_LOCK_locked Let_def wait_queue_wake_all_def)
  have u: "user_inv (THREAD_UNLOCK ?st (upd_thread t (\<lambda>x. x\<lparr>t_flags := F (t_flags x)\<rparr>) k2))"
    if "object_inv_but {} (upd_thread t (\<lambda>x. x\<lparr>t_flags := F (t_flags x)\<rparr>) k2)" for F
    using that sched w2 d by (intro user_inv_unlock) (simp_all add: object_inv_but_empty)
  have dead: "tstate k2 t = THREAD_DEATH \<longleftrightarrow> tstate k t = THREAD_DEATH"
    using k2(5) [of t] k2(3) by (cases "t \<in> set (waiters k ?w)") (auto simp: wake_all_rel_def)
  show ?thesis
  proof (cases "tstate k2 t = THREAD_DEATH")
    case True
    then have "t \<noteq> idle_thread" using k2(2) by (auto simp: base_inv_def idle_ok_def)
    then have "object_inv_but {} (upd_thread t (\<lambda>x. x\<lparr>t_flags := t_flags x AND NOT THREAD_FLAG_DETACHED\<rparr>) k2)"
      using obj idle w2 by (intro object_inv_flags) (simp_all add: flag_and_idle)
    from thread_join_user_inv [OF u [OF this], of 0 t None] c w2 True eq dead that(2) show ?thesis
      by (auto simp: timeout_ok_def)
  next
    case False
    have "(THREAD_FLAG_DETACHED :: u32) AND THREAD_FLAG_DETACHED \<noteq> 0" by (simp add: flag_defs)
    then have this_inv: "object_inv_but {} (upd_thread t (\<lambda>x. x\<lparr>t_flags := t_flags x OR THREAD_FLAG_DETACHED\<rparr>) k2)"
      using obj idle w2
      by (intro object_inv_flags) (simp_all add: flag_idle_or bit.conj_disj_distrib2 flag_defs)
    have "thread_list k2 = thread_list k" using k2(3) by (simp add: wake_all_rel_def)
    with u [OF this_inv] eq False dead that(1) show ?thesis by simp
  qed
qed


text \<open>The stack of a dead thread does not matter.\<close>

lemma object_inv_dead_stack:
  assumes "object_inv k" "tstate k t = THREAD_DEATH"
  shows "object_inv (set_stack t fs k)"
proof -
  have run: "\<not> runnable k t" using assms(2) by (simp add: runnable_def)
  have r: "runnable (set_stack t fs k) u \<longleftrightarrow> runnable k u" for u by (simp add: runnable_def)
  have g: "granted (set_stack t fs k) m = granted k m" for m
    using run by (auto simp: granted_def r)
  have "stack_ok (set_stack t fs k)"
    using assms run by (auto simp: object_inv_def stack_ok_def r)
  then show ?thesis
    using assms(1)
    by (simp add: object_inv_def mutex_ok_def sem_ok_def event_ok_def join_ok_def idle_set_up_def
        thread_is_idle_def g)
qed

text \<open>The exiting thread, before anybody is told.\<close>

definition dying :: "int \<Rightarrow> kernel \<Rightarrow> kernel" where
  "dying v k = upd_thread (current_thread k) (\<lambda>x. x\<lparr>t_retcode := v\<rparr>)
     (set_state (current_thread k) THREAD_DEATH (locked k))"

lemma dying_simps [simp]:
  "threads (dying v k) t = (if t = current_thread k
     then (threads k t)\<lparr>t_state := THREAD_DEATH, t_retcode := v\<rparr> else threads k t)"
  "current_thread (dying v k) = current_thread k"
  "wait_queues (dying v k) = wait_queues k"
  "stacks (dying v k) = stacks k"
  "mutexes (dying v k) = mutexes k"
  "sems (dying v k) = sems k"
  "events (dying v k) = events k"
  "thread_list (dying v k) = thread_list k"
  "run_queue (dying v k) = run_queue k"
  "run_queue_bitmap (dying v k) = run_queue_bitmap k"
  by (simp_all add: dying_def set_state_def)

lemma base_inv_dying:
  assumes "user_inv k" "current_thread k \<noteq> idle_thread"
  shows "base_inv {} (dying v k)"
  using user_invD(5,6) [OF assms(1)] assms(2) by (auto simp: inv_defs)

lemma object_inv_dying:
  assumes "user_inv k" "current_thread k \<noteq> idle_thread"
  shows "object_inv_but {Retcode_wait (current_thread k)} (dying v k)"
proof -
  note d = user_invD [OF assms(1)]
  have g: "granted (dying v k) m = granted k m" for m
    using d(4) by (auto simp: granted_def runnable_def)
  have "stack_ok (dying v k)"
    using d(8) by (auto simp: stack_ok_def runnable_def)
  then show ?thesis
    using d(2) by (auto simp: object_inv_def but_defs g)
qed

lemma exit_detached_facts:
  assumes "object_inv k" "t \<noteq> idle_thread" "base_inv {} k"
  shows "object_inv (exit_detached t k)" "base_inv {} (exit_detached t k)"
    "tstate (exit_detached t k) u = tstate k u" "current_thread (exit_detached t k) = current_thread k"
    "stacks (exit_detached t k) = stacks k"
proof -
  let ?k0 = "upd_thread t (\<lambda>x. x\<lparr>t_magic := 0\<rparr>) (k\<lparr>thread_list := remove1 t (thread_list k)\<rparr>)"
  let ?F = "\<lambda>f. f AND NOT THREAD_FLAG_DEBUG_STACK_BOUNDS_CHECK"
  have 0: "object_inv_but {} ?k0"
    unfolding object_inv_but_empty using assms(2)
    by (intro object_inv_view [OF assms(1)])
      (auto simp: same_objects_def runnable_def dest: set_remove1_subset [THEN subsetD] split: if_splits)
  have idle: "?F (t_flags (threads ?k0 t)) AND THREAD_FLAG_IDLE = 0"
    using object_inv_idle_flags(1) [OF assms(1)] by (simp add: flag_and_idle)
  have det: "?F f AND THREAD_FLAG_DETACHED = f AND THREAD_FLAG_DETACHED" for f :: u32
    by (simp add: THREAD_FLAG_DEBUG_STACK_BOUNDS_CHECK_def flag_defs and.assoc)
  have 1: "object_inv_but {} (upd_thread t (\<lambda>x. x\<lparr>t_flags := ?F (t_flags x)\<rparr>) ?k0)"
    using idle by (intro object_inv_flags [where F = ?F, OF 0]) (use assms(2) in \<open>simp_all add: det\<close>)
  define b where
    "b \<longleftrightarrow> t_flags (threads k t) AND THREAD_FLAG_FREE_STACK \<noteq> 0 \<and> t_stack (threads k t) \<noteq> None"
  have e: "exit_detached t k =
      (if b then upd_thread t (\<lambda>x. x\<lparr>t_flags := ?F (t_flags x)\<rparr>) ?k0 else ?k0)"
    by (simp add: exit_detached_def Let_def heap_delayed_free_def b_def)
  from 0 1 show "object_inv (exit_detached t k)" by (simp add: e object_inv_but_empty)
  show "tstate (exit_detached t k) u = tstate k u" "current_thread (exit_detached t k) = current_thread k"
    "stacks (exit_detached t k) = stacks k"
    by (cases b; simp add: e)+
  show "base_inv {} (exit_detached t k)"
    using assms(3) base_inv_cong [of ?k0 k] by (simp add: e base_inv_upd_thread)
qed

lemma thread_exit_user_inv:
  assumes k: "user_inv k" and c: "current_thread k \<noteq> idle_thread"
  obtains v k' where "settle (thread_exit r [] k) = Ret v k'" "user_inv k'"
proof -
  let ?c = "current_thread k"
  let ?w = "Retcode_wait ?c"
  let ?k1 = "dying r k"
  note d = user_invD [OF k] and goal = that
  note b1 = base_inv_dying [OF k c, of r] and o1 = object_inv_dying [OF k c, of r]
  have run: "tstate k t = THREAD_RUNNING \<longleftrightarrow> t = ?c" for t using d(1) by (simp add: sched_inv_def)
  have go: thesis
    if e: "thread_exit r [] k = kbind (thread_resched [In_thread_exit] k2) (run_frames [In_thread_exit])"
      and k2: "base_inv {} k2" "object_inv k2" "current_thread k2 = ?c" "stacks k2 = stacks k"
        "\<And>t. tstate k2 t \<noteq> THREAD_RUNNING" "tstate k2 ?c = THREAD_DEATH" for k2
  proof -
    have "parked k2" using k2(1,5) by (simp add: parked_def)
    moreover have "stacks k2 (current_thread k2) = []" using k2(3,4) d(4) by simp
    moreover have "object_inv (set_stack (current_thread k2) [In_thread_exit] k2)"
      using k2(2,3,6) by (intro object_inv_dead_stack) simp_all
    ultimately obtain v k' where "settle (kbind (thread_resched [In_thread_exit] k2)
        (run_frames [In_thread_exit])) = Ret v k'" "user_inv k'"
      by (metis dispatch_user_inv list.distinct(1))
    then show thesis by (intro goal [of v k']) (simp_all only: e)
  qed
  show thesis
  proof (cases "t_flags (threads k ?c) AND THREAD_FLAG_DETACHED = 0")
    case False
    then have "join_ok ?k1 ?c" using d(2) by (auto simp: object_inv_def join_ok_def)
    with o1 have o: "object_inv ?k1" by (rule object_inv_but_close)
    note x = exit_detached_facts [OF o c b1]
    have "thread_exit r [] k =
        kbind (thread_resched [In_thread_exit] (exit_detached ?c ?k1)) (run_frames [In_thread_exit])"
      using False by (simp add: thread_exit_def THREAD_LOCK_locked Let_def dying_def set_state_def)
    then show thesis by (rule go) (use x run in auto)
  next
    case True
    obtain k2 where k2: "wake_all_loop ?w 0 0 ?k1 = (0 + int (length (waiters ?k1 ?w)), k2)"
      "base_inv {} k2" "wake_all_rel ?w 0 ?k1 k2" "object_inv_but {?w} k2"
      "\<And>t. tstate ?k1 t \<noteq> THREAD_BLOCKED \<Longrightarrow> tstate k2 t = tstate ?k1 t"
      "\<And>t. tstate k2 t = THREAD_RUNNING \<longleftrightarrow> tstate ?k1 t = THREAD_RUNNING"
      by (rule wake_all_facts [OF o1 b1, of 0 0]) (simp_all add: err_defs)
    have "waiters k2 ?w = []" using k2(3) by (simp add: wake_all_rel_def)
    then have "object_inv k2" using k2(4) by (auto intro: object_inv_but_close simp: join_ok_def)
    moreover have "thread_exit r [] k =
        kbind (thread_resched [In_thread_exit] k2) (run_frames [In_thread_exit])"
      using True k2(1)
      by (simp add: thread_exit_def THREAD_LOCK_locked Let_def dying_def set_state_def wait_queue_wake_all_def)
    ultimately show thesis
      by (intro go [of k2]) (use k2 run in \<open>auto simp: wake_all_rel_def\<close>)
  qed
qed

section \<open>Waking one or all from a call\<close>

lemma woken_requeue:
  assumes "t \<noteq> current_thread k"
  shows "insert_in_run_queue_head t (requeue_current (wq_pop w t ts err k)) = woken w t ts err (requeue_current k)"
  using assms
  by (simp add: woken_def requeue_current_def wq_pop_def insert_in_run_queue_head_def upd_thread_def
      upd_wq_def Let_def fun_upd_twist)

lemma sched_inv_woken:
  assumes "sched_inv k" "waiters k w = t # ts"
  shows "sched_inv (woken w t ts err k)" and "t \<noteq> current_thread k"
proof -
  have b: "base_inv {} k" and run: "\<And>u. tstate k u = THREAD_RUNNING \<longleftrightarrow> u = current_thread k"
    using assms(1) by (simp_all add: sched_inv_def)
  have "t \<in> set (waiters k w)" using assms(2) by simp
  with b have "tstate k t = THREAD_BLOCKED" unfolding base_inv_def waitq_ok_def by blast
  with run [of t] show tc: "t \<noteq> current_thread k" by simp
  with run base_inv_woken [OF b assms(2)] show "sched_inv (woken w t ts err k)"
    by (auto simp: sched_inv_def)
qed

lemma wake_one_user_inv:
  assumes sched: "sched_inv k" and un: "stacks k (current_thread k) = []"
    and ts: "waiters k w = t # ts" and obj: "object_inv (woken w t ts err k)" and f: "after_wake 1 f"
  obtains v k' where "settle (kbind (wait_queue_wake_one w True err [f] k) (run_frame f)) = Ret v k'"
    "user_inv k'"
proof -
  let ?c = "current_thread k" and ?k1 = "woken w t ts err (requeue_current k)"
  have base: "base_inv {} k" and run: "\<And>u. tstate k u = THREAD_RUNNING \<longleftrightarrow> u = ?c"
    using sched by (simp_all add: sched_inv_def)
  note tc = sched_inv_woken(2) [OF sched ts]
  have eq: "kbind (wait_queue_wake_one w True err [f] k) (run_frame f) =
      kbind (thread_resched [In_wait_queue_wake 1, f] ?k1) (run_frames [In_wait_queue_wake 1, f])"
    using ts woken_requeue [OF tc, of w ts err]
    by (simp add: wait_queue_wake_one_def Let_def kbind_assoc)
  have "base_inv {} ?k1"
    using base_inv_woken [OF base_inv_requeue_current [OF base]] run ts by simp
  moreover have "object_inv ?k1"
    by (rule object_inv_view [OF obj])
      (use run tc in \<open>auto simp: same_objects_def runnable_def split: if_splits\<close>)
  moreover have "tstate ?k1 u \<noteq> THREAD_RUNNING" for u using run by simp
  moreover have "tstate ?k1 (current_thread ?k1) = THREAD_READY" using tc by simp
  moreover have "stacks ?k1 (current_thread ?k1) = []" using un by simp
  ultimately obtain v k' where "settle (kbind (thread_resched [In_wait_queue_wake 1, f] ?k1)
      (run_frames [In_wait_queue_wake 1, f])) = Ret v k'" "user_inv k'"
    by (metis ready_dispatch_user_inv neutral_frames(5) [OF f])
  then show ?thesis by (intro that [of v k']) (simp_all only: eq)
qed


lemma wake_all_user_inv:
  assumes sched: "sched_inv k" and un: "stacks k (current_thread k) = []"
    and ws: "waiters k w \<noteq> []" and err: "err \<noteq> ERR_TIMED_OUT"
    and inv: "object_inv_but {w} k"
    and close: "\<And>k'. object_inv_but {w} k' \<Longrightarrow> same_objects k k' \<Longrightarrow> waiters k' w = [] \<Longrightarrow>
      (\<And>m. w \<noteq> Mutex_wait m \<or> err < NO_ERROR \<Longrightarrow> granted k' m = granted k m) \<Longrightarrow> object_inv k'"
    and g: "\<And>n. n > 0 \<Longrightarrow> neutral (In_wait_queue_wake n # g)"
  obtains v k' where "settle (kbind (wait_queue_wake_all w True err g k) (run_frames g)) = Ret v k'"
    "user_inv k'"
proof -
  let ?c = "current_thread k" and ?k0 = "requeue_current k"
  have base: "base_inv {} k" and run: "\<And>u. tstate k u = THREAD_RUNNING \<longleftrightarrow> u = ?c"
    using sched by (simp_all add: sched_inv_def)
  have r0: "tstate k ?c = THREAD_RUNNING" using run by simp
  have "wq_count (wait_queues k w) = int (length (waiters k w))"
    using base by (simp add: base_inv_def waitq_ok_def)
  with ws have cnt: "wq_count (wait_queues k w) > 0" by simp
  note b0 = base_inv_requeue_current [OF base r0] and i0 = object_inv_but_requeue [OF inv r0]
  obtain k1 where k1: "wake_all_loop w err 0 ?k0 = (0 + int (length (waiters ?k0 w)), k1)"
    "base_inv {} k1" "wake_all_rel w err ?k0 k1" "object_inv_but {w} k1"
    "\<And>t. tstate ?k0 t \<noteq> THREAD_BLOCKED \<Longrightarrow> tstate k1 t = tstate ?k0 t"
    "\<And>t. tstate k1 t = THREAD_RUNNING \<longleftrightarrow> tstate ?k0 t = THREAD_RUNNING"
    using wake_all_facts [OF i0 b0 err, of 0] by blast
  let ?n = "int (length (waiters k w))"
  have eq: "kbind (wait_queue_wake_all w True err g k) (run_frames g) =
      kbind (thread_resched (In_wait_queue_wake ?n # g) k1) (run_frames (In_wait_queue_wake ?n # g))"
    using k1(1) cnt ws by (simp add: wait_queue_wake_all_def Let_def kbind_assoc)
  have rel: "current_thread k1 = ?c" "stacks k1 = stacks k" "same_objects k k1" "waiters k1 w = []"
    using k1(3) by (simp_all add: wake_all_rel_def same_objects_def)
  have "granted k1 m = granted k m" if "w \<noteq> Mutex_wait m \<or> err < NO_ERROR" for m
    using granted_wake_all [of ?k0 "{}" w m err 0] i0 b0 that k1(1) granted_requeue [OF r0]
    by (simp add: object_inv_but_def)
  with k1(4) rel have obj: "object_inv k1" by (intro close)
  have nr: "tstate k1 t \<noteq> THREAD_RUNNING" for t using run by (simp add: k1(6))
  have rd: "tstate k1 (current_thread k1) = THREAD_READY" using k1(5) [of ?c] rel by simp
  have st: "stacks k1 (current_thread k1) = []" using un rel by simp
  have nt: "neutral (In_wait_queue_wake ?n # g)" using ws by (intro g) simp
  obtain v k' where "settle (kbind (thread_resched (In_wait_queue_wake ?n # g) k1)
      (run_frames (In_wait_queue_wake ?n # g))) = Ret v k'" "user_inv k'"
    using ready_dispatch_user_inv [OF k1(2) nr rd st obj nt] by metis
  then show ?thesis by (intro that [of v k']) (simp_all only: eq)
qed

lemma destroy_user_inv:
  assumes sched: "sched_inv k" and un: "stacks k (current_thread k) = []"
    and inv: "object_inv_but {w} k"
    and close: "\<And>k'. object_inv_but {w} k' \<Longrightarrow> same_objects k k' \<Longrightarrow> waiters k' w = [] \<Longrightarrow>
      (\<And>m. granted k' m = granted k m) \<Longrightarrow> object_inv k'"
    and f: "after_destroy f" "\<And>v k. run_frame f v k = ret_void (THREAD_UNLOCK st k)"
  obtains v k' where "settle (kbind (wait_queue_destroy w True [f] k) (run_frame f)) = Ret v k'"
    "user_inv k'"
proof -
  let ?g = "[In_wait_queue_destroy w, f]"
  have eq: "kbind (wait_queue_destroy w True [f] k) (run_frame f) =
      kbind (wait_queue_wake_all w True ERR_OBJECT_DESTROYED ?g k) (run_frames ?g)"
    by (simp add: wait_queue_destroy_def kbind_assoc)
  show ?thesis
  proof (cases "waiters k w = []")
    case True
    have "wq_count (wait_queues k w) = 0"
      using sched True by (simp add: sched_inv_def base_inv_def waitq_ok_def)
    with True have e2: "kbind (wait_queue_destroy w True [f] k) (run_frame f) =
        ret_void (THREAD_UNLOCK st (upd_wq w (\<lambda>q. q\<lparr>wq_magic := 0\<rparr>) k))"
      by (simp add: eq wait_queue_wake_all_def wake_all_loop_simps wait_queue_destroy_end_def f(2))
    have "object_inv k" using True inv by (intro close) (simp_all add: same_objects_def)
    then have "object_inv (upd_wq w (\<lambda>q. q\<lparr>wq_magic := 0\<rparr>) k)"
      by (rule object_inv_view) (auto simp: same_objects_def runnable_def)
    moreover have "sched_inv (upd_wq w (\<lambda>q. q\<lparr>wq_magic := 0\<rparr>) k)"
      using sched by (subst sched_inv_cong [of _ k]) simp_all
    ultimately have "user_inv (THREAD_UNLOCK st (upd_wq w (\<lambda>q. q\<lparr>wq_magic := 0\<rparr>) k))"
      using un by (intro user_inv_unlock) simp_all
    with e2 show ?thesis by (intro that) simp_all
  next
    case False
    obtain v k' where "settle (kbind (wait_queue_wake_all w True ERR_OBJECT_DESTROYED ?g k) (run_frames ?g)) = Ret v k'"
      "user_inv k'"
    proof (rule wake_all_user_inv [OF sched un False _ inv, of ERR_OBJECT_DESTROYED ?g])
      show "object_inv k'" if "object_inv_but {w} k'" "same_objects k k'" "waiters k' w = []"
        "\<And>m. w \<noteq> Mutex_wait m \<or> ERR_OBJECT_DESTROYED < NO_ERROR \<Longrightarrow> granted k' m = granted k m" for k'
        using that by (intro close) (simp_all add: err_defs)
    qed (use f(1) in \<open>auto simp: err_defs intro: neutral_frames\<close>)
    then show ?thesis by (intro that [of v k']) (simp_all only: eq)
  qed
qed


section \<open>Semaphores\<close>

abbreviation irq_state :: "kernel \<Rightarrow> u32" where
  "irq_state k \<equiv> (if ints_enabled k then 1 else 0)"

lemma sem_okD: "user_inv k \<Longrightarrow> sem_ok k s"
  by (simp add: user_inv_def object_inv_def)

lemma sem_blockable:
  assumes k: "user_inv k" and neg: "s_count (sems k s) < 1" and f: "after_block (Sem_wait s) f"
  shows "object_inv (set_stack (current_thread k) [In_wait_queue_block INFINITE_TIME, f]
    (wq_enqueue (Sem_wait s) (upd_sem s (\<lambda>x. x\<lparr>s_count := s_count x - 1\<rparr>) (locked k))))"
proof -
  let ?k = "upd_sem s (\<lambda>x. x\<lparr>s_count := s_count x - 1\<rparr>) (locked k)"
  note d = user_invD [OF k]
  have "object_inv_but {Sem_wait s} ?k" using d(3) by (intro object_inv_but_upd) simp
  from object_inv_but_enqueue [OF this _ f] d(4) have "object_inv_but {Sem_wait s}
      (set_stack (current_thread ?k) [In_wait_queue_block INFINITE_TIME, f] (wq_enqueue (Sem_wait s) ?k))"
    by simp
  then show ?thesis
    using sem_okD [OF k, of s] neg by (intro object_inv_but_close(2) [of s]) (auto simp: sem_ok_def)
qed

lemma sem_count_user_inv:
  assumes k: "user_inv k" and c: "s_count (sems k s) > 0 \<and> d = -1 \<or> s_count (sems k s) \<ge> 0 \<and> d = 1"
  shows "user_inv (THREAD_UNLOCK st (upd_sem s (\<lambda>x. x\<lparr>s_count := s_count x + d\<rparr>) (locked k)))"
proof -
  let ?k = "upd_sem s (\<lambda>x. x\<lparr>s_count := s_count x + d\<rparr>) (locked k)"
  note u = user_invD [OF k]
  have "object_inv_but {Sem_wait s} ?k" using u(3) by (intro object_inv_but_upd) simp
  then have "object_inv ?k"
    using sem_okD [OF k, of s] c by (intro object_inv_but_close(2) [of s]) (auto simp: sem_ok_def)
  then show ?thesis using u by (intro user_inv_unlock) simp_all
qed

lemma sem_wait_user_inv:
  assumes k: "user_inv k" and c: "current_thread k \<noteq> idle_thread"
  obtains v k' where "settle (sem_wait s [] k) = Ret v k'" "user_inv k'"
proof (cases "s_count (sems k s) < 1")
  case True
  let ?k = "upd_sem s (\<lambda>x. x\<lparr>s_count := s_count x - 1\<rparr>) (locked k)"
  let ?f = "In_sem_wait (irq_state k)"
  note u = user_invD [OF k]
  have f: "run_frame ?f = (\<lambda>ret k'. Ret ret (THREAD_UNLOCK (irq_state k) k'))"
    by (intro ext) simp
  have "sem_wait s [] k = kbind (wait_queue_block (Sem_wait s) INFINITE_TIME [?f] ?k) (run_frame ?f)"
    using True by (simp add: sem_wait_def THREAD_LOCK_locked f)
  then show ?thesis
    using block_user_inv [of ?k ?f "Sem_wait s"] sem_blockable [OF k True, of ?f] u c that by auto
next
  case False
  then have "sem_wait s [] k =
      Ret NO_ERROR (THREAD_UNLOCK (irq_state k) (upd_sem s (\<lambda>x. x\<lparr>s_count := s_count x + -1\<rparr>) (locked k)))"
    by (simp add: sem_wait_def THREAD_LOCK_locked)
  with sem_count_user_inv [OF k, of s "-1" "irq_state k"] False that show ?thesis by simp
qed

lemma sem_trywait_user_inv:
  assumes k: "user_inv k"
  obtains v k' where "sem_trywait s k = Ret v k'" "user_inv k'"
proof (cases "s_count (sems k s) \<le> 0")
  case True
  with user_inv_locked_unlock [OF k] that show ?thesis
    by (auto simp: sem_trywait_def THREAD_LOCK_locked)
next
  case False
  with sem_count_user_inv [OF k, of s "-1" "irq_state k"] that show ?thesis
    by (auto simp: sem_trywait_def THREAD_LOCK_locked)
qed

lemma sem_timedwait_user_inv:
  assumes k: "user_inv k" and c: "current_thread k \<noteq> idle_thread" and to: "timeout_ok timeout"
  obtains v k' where "settle (sem_timedwait s timeout [] k) = Ret v k'" "user_inv k'"
proof (cases "s_count (sems k s) < 1")
  case True
  let ?k = "upd_sem s (\<lambda>x. x\<lparr>s_count := s_count x - 1\<rparr>) (locked k)"
  let ?f = "In_sem_timedwait s (irq_state k)"
  note u = user_invD [OF k]
  have eq: "sem_timedwait s timeout [] k = kbind (wait_queue_block (Sem_wait s) timeout [?f] ?k) (run_frame ?f)"
    using True by (simp add: sem_timedwait_def THREAD_LOCK_locked)
  show ?thesis
  proof (cases "timeout = 0")
    case True
    let ?k2 = "upd_sem s (\<lambda>x. x\<lparr>s_count := s_count x + 1\<rparr>) ?k"
    have "object_inv ?k2" using u(2) by (simp add: obj_defs)
    then have "user_inv (THREAD_UNLOCK (irq_state k) ?k2)"
      using u by (intro user_inv_unlock) simp_all
    with True eq that show ?thesis
      by (simp add: wait_queue_block_timeout_0 sem_timedwait_end_def err_defs)
  next
    case False
    with to have "timeout = INFINITE_TIME" by (simp add: timeout_ok_def)
    with eq show ?thesis
      using block_user_inv [of ?k ?f "Sem_wait s"] sem_blockable [OF k True, of ?f] u c that by auto
  qed
next
  case False
  then have "sem_timedwait s timeout [] k =
      Ret NO_ERROR (THREAD_UNLOCK (irq_state k) (upd_sem s (\<lambda>x. x\<lparr>s_count := s_count x + -1\<rparr>) (locked k)))"
    by (simp add: sem_timedwait_def THREAD_LOCK_locked)
  with sem_count_user_inv [OF k, of s "-1" "irq_state k"] False that show ?thesis by simp
qed

text \<open>A woken semaphore waiter takes the token that was posted.\<close>

lemma sem_woken:
  assumes k: "user_inv k" and ts: "waiters k (Sem_wait s) = t # ts"
  defines "k1 \<equiv> upd_sem s (\<lambda>x. x\<lparr>s_count := s_count x + 1\<rparr>) (locked k)"
  shows "object_inv (woken (Sem_wait s) t ts NO_ERROR k1)"
    and "sched_inv (woken (Sem_wait s) t ts NO_ERROR k1)"
proof -
  note u = user_invD [OF k]
  have ts1: "waiters k1 (Sem_wait s) = t # ts" using ts by (simp add: k1_def)
  have b1: "base_inv {} k1" using u(5) by (simp add: k1_def)
  have "object_inv_but {Sem_wait s} k1" unfolding k1_def using u(3) by (intro object_inv_but_upd) simp
  from object_inv_but_woken [OF this ts1 b1, of NO_ERROR]
  have "object_inv_but {Sem_wait s} (woken (Sem_wait s) t ts NO_ERROR k1)" by (simp add: err_defs)
  then show "object_inv (woken (Sem_wait s) t ts NO_ERROR k1)"
    using sem_okD [OF k, of s] ts
    by (intro object_inv_but_close(2) [of s]) (auto simp: sem_ok_def k1_def)
  show "sched_inv (woken (Sem_wait s) t ts NO_ERROR k1)"
    using u(1) by (intro sched_inv_woken ts1) (simp add: k1_def)
qed

lemma sem_post_user_inv:
  assumes k: "user_inv k"
  obtains v k' where "settle (sem_post s resched [] k) = Ret v k'" "user_inv k'"
proof (cases "s_count (sems k s) \<ge> 0")
  case True
  then have "sem_post s resched [] k =
      Ret 0 (THREAD_UNLOCK (irq_state k) (upd_sem s (\<lambda>x. x\<lparr>s_count := s_count x + 1\<rparr>) (locked k)))"
    by (simp add: sem_post_def THREAD_LOCK_locked)
  with sem_count_user_inv [OF k, of s 1 "irq_state k"] True that show ?thesis by simp
next
  case False
  let ?k = "upd_sem s (\<lambda>x. x\<lparr>s_count := s_count x + 1\<rparr>) (locked k)"
  let ?f = "In_sem_post (irq_state k)"
  note u = user_invD [OF k]
  from False sem_okD [OF k, of s] obtain t ts where ts: "waiters k (Sem_wait s) = t # ts"
    by (cases "waiters k (Sem_wait s)") (auto simp: sem_ok_def)
  have f: "run_frame ?f = (\<lambda>ret k'. Ret ret (THREAD_UNLOCK (irq_state k) k'))"
    by (intro ext) simp
  have eq: "sem_post s resched [] k =
      kbind (wait_queue_wake_one (Sem_wait s) resched NO_ERROR [?f] ?k) (run_frame ?f)"
    using False by (simp add: sem_post_def THREAD_LOCK_locked f)
  note w = sem_woken [OF k ts]
  show ?thesis
  proof (cases resched)
    case True
    with eq show ?thesis
      using wake_one_user_inv [of ?k "Sem_wait s" t ts NO_ERROR ?f] w u ts that by auto
  next
    case False
    then have "sem_post s resched [] k = Ret 1 (THREAD_UNLOCK (irq_state k) (woken (Sem_wait s) t ts NO_ERROR ?k))"
      using eq ts by (simp add: wait_queue_wake_one_def woken_def)
    moreover have "user_inv (THREAD_UNLOCK (irq_state k) (woken (Sem_wait s) t ts NO_ERROR ?k))"
      using w u by (intro user_inv_unlock) simp_all
    ultimately show ?thesis using that by simp
  qed
qed

lemma sem_destroy_user_inv:
  assumes k: "user_inv k"
  obtains v k' where "settle (sem_destroy s [] k) = Ret v k'" "user_inv k'"
proof -
  let ?k = "upd_sem s (\<lambda>x. x\<lparr>s_count := 0\<rparr>) (locked k)"
  let ?f = "In_sem_destroy (irq_state k)"
  note u = user_invD [OF k]
  have f: "run_frame ?f = (\<lambda>_ k'. ret_void (THREAD_UNLOCK (irq_state k) k'))"
    by (intro ext) simp
  have eq: "sem_destroy s [] k = kbind (wait_queue_destroy (Sem_wait s) True [?f] ?k) (run_frame ?f)"
    by (simp add: sem_destroy_def THREAD_LOCK_locked f)
  have "object_inv_but {Sem_wait s} ?k" using u(3) by (intro object_inv_but_upd) simp
  moreover have "object_inv k'" if "object_inv_but {Sem_wait s} k'" "same_objects ?k k'"
    "waiters k' (Sem_wait s) = []" for k'
    using that by (intro object_inv_but_close(2) [of s]) (simp_all add: same_objects_def sem_ok_def)
  ultimately obtain v k' where
    "settle (kbind (wait_queue_destroy (Sem_wait s) True [?f] ?k) (run_frame ?f)) = Ret v k'" "user_inv k'"
    using u by (auto intro: destroy_user_inv [of ?k "Sem_wait s" ?f "irq_state k"])
  then show ?thesis by (intro that [of v k']) (simp_all only: eq)
qed


section \<open>Mutexes\<close>

lemma mutex_okD:
  "user_inv k \<Longrightarrow> m_magic (mutexes k m) = MUTEX_MAGIC \<Longrightarrow>
     live_mutex_ok (mutexes k m) (waiters k (Mutex_wait m)) (granted k m)"
  "user_inv k \<Longrightarrow> m_magic (mutexes k m) \<noteq> MUTEX_MAGIC \<Longrightarrow>
     granted k m = {} \<and> waiters k (Mutex_wait m) = []"
  by (simp_all add: user_inv_def object_inv_def mutex_ok_def)

text \<open>The counter of a mutex is above zero exactly when it is held or handed over.\<close>

lemma mutex_count_busy:
  assumes "live_mutex_ok x ws G"
  shows "m_count x > 0 \<longleftrightarrow> mutex_busy x G" and "m_count x \<ge> 0"
  using assms by (auto simp: live_mutex_ok_def split: if_splits)

lemma mutex_update_user_inv:
  assumes k: "user_inv k" and ok: "mutex_ok (upd_mutex m f (locked k)) m"
  shows "user_inv (THREAD_UNLOCK st (upd_mutex m f (locked k)))"
proof -
  note u = user_invD [OF k]
  have "object_inv_but {Mutex_wait m} (upd_mutex m f (locked k))"
    using u(3) by (intro object_inv_but_upd) simp
  then have "object_inv (upd_mutex m f (locked k))" using ok by (rule object_inv_but_close)
  then show ?thesis using u by (intro user_inv_unlock) simp_all
qed

lemma mutex_acquire_user_inv:
  assumes k: "user_inv k" and c: "current_thread k \<noteq> idle_thread"
    and live: "m_magic (mutexes k m) = MUTEX_MAGIC" and to: "timeout_ok timeout"
  obtains v k' where "settle (mutex_acquire_timeout m timeout [] k) = Ret v k'" "user_inv k'"
proof -
  let ?k = "upd_mutex m (\<lambda>x. x\<lparr>m_count := m_count x + 1\<rparr>) (locked k)"
  let ?f = "In_mutex_acquire m (irq_state k)" and ?w = "Mutex_wait m"
  note u = user_invD [OF k] and ok = mutex_okD(1) [OF k live]
  note cnt = mutex_count_busy [OF ok]
  show ?thesis
  proof (cases "m_count (mutexes k m) > 0")
    case False
    with cnt have zero: "m_count (mutexes k m) = 0" "\<not> mutex_busy (mutexes k m) (granted k m)" by auto
    let ?F = "\<lambda>x. x\<lparr>m_count := m_count x + 1, m_holder := Some (current_thread k)\<rparr>"
    have "mutex_ok (upd_mutex m ?F (locked k)) m"
      using ok zero by (auto simp: mutex_ok_def live_mutex_ok_def mutex_busy_def)
    moreover have "upd_mutex m (\<lambda>x. x\<lparr>m_holder := Some (current_thread k)\<rparr>) ?k = upd_mutex m ?F (locked k)"
      by (simp add: upd_mutex_def)
    ultimately show ?thesis
      using zero that mutex_update_user_inv [OF k, of m ?F]
      by (simp add: mutex_acquire_timeout_def THREAD_LOCK_locked mutex_take_def)
  next
    case True
    have eq: "mutex_acquire_timeout m timeout [] k = kbind (wait_queue_block ?w timeout [?f] ?k) (run_frame ?f)"
      using True by (simp add: mutex_acquire_timeout_def THREAD_LOCK_locked)
    show ?thesis
    proof (cases "timeout = 0")
      case True
      let ?F = "\<lambda>x. x\<lparr>m_count := m_count x + 1 - 1\<rparr>"
      have "mutex_ok (upd_mutex m ?F (locked k)) m"
        using ok live by (simp add: mutex_ok_def)
      moreover have "upd_mutex m (\<lambda>x. x\<lparr>m_count := m_count x - 1\<rparr>) ?k = upd_mutex m ?F (locked k)"
        by (simp add: upd_mutex_def)
      ultimately show ?thesis
        using eq True that mutex_update_user_inv [OF k, of m ?F]
        by (simp add: wait_queue_block_timeout_0 mutex_acquire_end_def err_defs)
    next
      case False
      with to have inf: "timeout = INFINITE_TIME" by (simp add: timeout_ok_def)
      let ?p = "set_stack (current_thread k) [In_wait_queue_block INFINITE_TIME, ?f] (wq_enqueue ?w ?k)"
      have "object_inv_but {?w} ?k" using u(3) by (intro object_inv_but_upd) simp
      from object_inv_but_enqueue [OF this, of ?w ?f] u(4) have "object_inv_but {?w} ?p" by simp
      moreover have "granted ?p m = granted k m" using granted_enqueue [of ?k] u(4) by simp
      then have "mutex_ok ?p m"
        using ok live cnt True by (auto simp: mutex_ok_def live_mutex_ok_def mutex_busy_def)
      ultimately have "object_inv ?p" by (rule object_inv_but_close)
      then show ?thesis
        using block_user_inv [of ?k ?f ?w] u c eq inf that by auto
    qed
  qed
qed

lemma mutex_release_user_inv:
  assumes k: "user_inv k" and live: "m_magic (mutexes k m) = MUTEX_MAGIC"
    and own: "m_holder (mutexes k m) = Some (current_thread k)"
  obtains v k' where "settle (mutex_release m [] k) = Ret v k'" "user_inv k'"
proof -
  let ?F = "\<lambda>x. x\<lparr>m_holder := None, m_count := m_count x - 1\<rparr>"
  let ?k = "upd_mutex m ?F (locked k)" and ?f = "In_mutex_release (irq_state k)" and ?w = "Mutex_wait m"
  note u = user_invD [OF k] and ok = mutex_okD(1) [OF k live]
  have cnt: "granted k m = {}" "m_count (mutexes k m) = int (length (waiters k ?w)) + 1"
    using ok own by (auto simp: live_mutex_ok_def mutex_busy_def)
  have two: "upd_mutex m (\<lambda>x. x\<lparr>m_count := m_count x - 1\<rparr>) (upd_mutex m (\<lambda>x. x\<lparr>m_holder := None\<rparr>) (locked k)) = ?k"
    by (simp add: upd_mutex_def)
  have f: "run_frame ?f = (\<lambda>_ k'. Ret NO_ERROR (THREAD_UNLOCK (irq_state k) k'))"
    by (intro ext) simp
  have eq: "mutex_release m [] k = kbind
      (if waiters k ?w \<noteq> [] then wait_queue_wake_one ?w True NO_ERROR [?f] ?k else ret_void ?k) (run_frame ?f)"
    using cnt(2) two by (cases "waiters k ?w") (simp_all add: mutex_release_def THREAD_LOCK_locked f Let_def)
  show ?thesis
  proof (cases "waiters k ?w")
    case Nil
    have "mutex_ok ?k m" using cnt live Nil by (simp add: mutex_ok_def live_mutex_ok_def mutex_busy_def)
    with eq Nil that mutex_update_user_inv [OF k, of m ?F] show ?thesis by simp
  next
    case (Cons t ts)
    then have ts: "waiters ?k ?w = t # ts" by simp
    have but: "object_inv_but {?w} ?k" using u(3) by (intro object_inv_but_upd) simp
    have b: "base_inv {} ?k" using u(5) by simp
    have "object_inv_but {?w} (woken ?w t ts NO_ERROR ?k)"
      by (rule object_inv_but_woken [OF but ts b]) (simp_all add: err_defs)
    moreover have "granted (woken ?w t ts NO_ERROR ?k) m = {t}"
      using granted_woken [OF _ ts b, of NO_ERROR m] but cnt by (simp add: object_inv_but_def)
    then have "mutex_ok (woken ?w t ts NO_ERROR ?k) m"
      using cnt live Cons by (simp add: mutex_ok_def live_mutex_ok_def mutex_busy_def)
    ultimately have "object_inv (woken ?w t ts NO_ERROR ?k)" by (rule object_inv_but_close)
    then show ?thesis
      using wake_one_user_inv [of ?k ?w t ts NO_ERROR ?f] u ts Cons eq that by auto
  qed
qed

lemma mutex_destroy_user_inv:
  assumes k: "user_inv k" and live: "m_magic (mutexes k m) = MUTEX_MAGIC"
    and own: "m_holder (mutexes k m) = Some (current_thread k) \<or> m_count (mutexes k m) = 0"
  obtains v k' where "settle (mutex_destroy m [] k) = Ret v k'" "user_inv k'"
proof -
  let ?F = "\<lambda>x. x\<lparr>m_magic := 0, m_count := 0\<rparr>"
  let ?k = "upd_mutex m ?F (locked k)" and ?f = "In_mutex_destroy (irq_state k)" and ?w = "Mutex_wait m"
  note u = user_invD [OF k] and ok = mutex_okD(1) [OF k live]
  have g: "granted k m = {}"
    using ok own mutex_count_busy [OF ok] by (auto simp: live_mutex_ok_def mutex_busy_def)
  have two: "upd_mutex m (\<lambda>x. x\<lparr>m_count := 0\<rparr>) (upd_mutex m (\<lambda>x. x\<lparr>m_magic := 0\<rparr>) (locked k)) = ?k"
    by (simp add: upd_mutex_def)
  have f: "run_frame ?f = (\<lambda>_ k'. ret_void (THREAD_UNLOCK (irq_state k) k'))"
    by (intro ext) simp
  have eq: "mutex_destroy m [] k = kbind (wait_queue_destroy ?w True [?f] ?k) (run_frame ?f)"
    by (simp add: mutex_destroy_def THREAD_LOCK_locked f two)
  have "object_inv_but {?w} ?k" using u(3) by (intro object_inv_but_upd) simp
  moreover have "object_inv k'" if "object_inv_but {?w} k'" "same_objects ?k k'"
    "waiters k' ?w = []" "\<And>n. granted k' n = granted ?k n" for k'
    using that g by (intro object_inv_but_close(1) [of m])
      (simp_all add: same_objects_def mutex_ok_def MUTEX_MAGIC_def)
  ultimately obtain v k' where
    "settle (kbind (wait_queue_destroy ?w True [?f] ?k) (run_frame ?f)) = Ret v k'" "user_inv k'"
    using u by (auto intro: destroy_user_inv [of ?k ?w ?f "irq_state k"])
  then show ?thesis by (intro that [of v k']) (simp_all only: eq)
qed


section \<open>Events\<close>

lemma event_okD: "user_inv k \<Longrightarrow> event_ok k e"
  by (simp add: user_inv_def object_inv_def)

lemma event_update_user_inv:
  assumes k: "user_inv k" and ok: "e_signaled (f (events k e)) \<longrightarrow> waiters k (Event_wait e) = []"
  shows "user_inv (THREAD_UNLOCK st (upd_event e f (locked k)))" and "user_inv (upd_event e f k)"
proof -
  note u = user_invD [OF k]
  have "object_inv (upd_event e f k')"
    if "object_inv k'" "events k' = events k" "wait_queues k' = wait_queues k" for k'
  proof (rule object_inv_but_close(3))
    have "object_inv_but {Event_wait e} k'"
      by (rule object_inv_but_mono [of "{}"]) (simp_all add: object_inv_but_empty that)
    then show "object_inv_but {Event_wait e} (upd_event e f k')" by (rule object_inv_but_upd)
    show "event_ok (upd_event e f k') e" using ok that by (simp add: event_ok_def)
  qed
  then show "user_inv (THREAD_UNLOCK st (upd_event e f (locked k)))" "user_inv (upd_event e f k)"
    using u by (intro user_inv_unlock, simp_all add: user_inv_def)
qed

lemma event_wait_user_inv:
  assumes k: "user_inv k" and c: "current_thread k \<noteq> idle_thread" and to: "timeout_ok timeout"
  obtains v k' where "settle (event_wait_timeout e timeout [] k) = Ret v k'" "user_inv k'"
proof -
  let ?f = "In_event_wait (irq_state k)" and ?w = "Event_wait e"
  note u = user_invD [OF k]
  have f: "run_frame ?f = (\<lambda>ret k'. Ret ret (THREAD_UNLOCK (irq_state k) k'))"
    by (intro ext) simp
  show ?thesis
  proof (cases "e_signaled (events k e)")
    case True
    with event_okD [OF k, of e] have "waiters k ?w = []" by (simp add: event_ok_def)
    then have "user_inv (THREAD_UNLOCK (irq_state k) (upd_event e (\<lambda>x. x\<lparr>e_signaled := False\<rparr>) (locked k)))"
      by (intro event_update_user_inv [OF k]) simp
    with True user_inv_locked_unlock [OF k] that show ?thesis
      by (auto simp: event_wait_timeout_def THREAD_LOCK_locked)
  next
    case False
    have eq: "event_wait_timeout e timeout [] k = kbind (wait_queue_block ?w timeout [?f] (locked k)) (run_frame ?f)"
      using False by (simp add: event_wait_timeout_def THREAD_LOCK_locked f)
    show ?thesis
    proof (cases "timeout = 0")
      case True
      with eq that user_inv_locked_unlock [OF k] show ?thesis
        by (simp add: wait_queue_block_timeout_0)
    next
      case nz: False
      with to have inf: "timeout = INFINITE_TIME" by (simp add: timeout_ok_def)
      have "object_inv_but {?w} (set_stack (current_thread (locked k)) [In_wait_queue_block INFINITE_TIME, ?f]
          (wq_enqueue ?w (locked k)))"
        by (rule object_inv_but_enqueue) (use u in simp_all)
      then have "object_inv (set_stack (current_thread (locked k)) [In_wait_queue_block INFINITE_TIME, ?f]
          (wq_enqueue ?w (locked k)))"
        using False by (intro object_inv_but_close(3) [of e]) (simp_all add: event_ok_def)
      then show ?thesis
        using block_user_inv [of "locked k" ?f ?w] u c eq inf that by auto
    qed
  qed
qed

lemma event_wake_one_user_inv:
  assumes k: "user_inv k"
  obtains v k' where "settle (kbind (wait_queue_wake_one (Event_wait e) r NO_ERROR
      [In_event_signal e True st] (locked k)) (event_signal_end e True st)) = Ret v k'" "user_inv k'"
proof -
  let ?w = "Event_wait e" and ?f = "In_event_signal e True st"
  note u = user_invD [OF k]
  show ?thesis
  proof (cases "waiters k ?w")
    case Nil
    then have "user_inv (THREAD_UNLOCK st (upd_event e (\<lambda>x. x\<lparr>e_signaled := True\<rparr>) (locked k)))"
      by (intro event_update_user_inv [OF k]) simp
    with Nil that show ?thesis by (simp add: wait_queue_wake_one_def event_signal_end_def)
  next
    case (Cons t ts)
    then have ts: "waiters (locked k) ?w = t # ts" by simp
    have but: "object_inv_but {?w} (locked k)" using u(3) by simp
    have "object_inv_but {?w} (woken ?w t ts NO_ERROR (locked k))"
      by (rule object_inv_but_woken [OF but ts, of "{}"]) (use u in \<open>simp_all add: err_defs\<close>)
    moreover have "event_ok (woken ?w t ts NO_ERROR (locked k)) e"
      using event_okD [OF k, of e] Cons by (simp add: event_ok_def)
    ultimately have obj: "object_inv (woken ?w t ts NO_ERROR (locked k))"
      by (rule object_inv_but_close)
    show ?thesis
    proof (cases r)
      case True
      with obj u ts that show ?thesis
        using wake_one_user_inv [of "locked k" ?w t ts NO_ERROR ?f] by auto
    next
      case False
      have "user_inv (THREAD_UNLOCK st (woken ?w t ts NO_ERROR (locked k)))"
        using obj u sched_inv_woken(1) [OF _ ts] by (intro user_inv_unlock) simp_all
      with False ts that show ?thesis
        by (simp add: wait_queue_wake_one_def event_signal_end_def woken_def)
    qed
  qed
qed

lemma event_wake_all_user_inv:
  assumes k: "user_inv k"
  obtains v k' where "settle (kbind (wait_queue_wake_all (Event_wait e) r NO_ERROR
      [In_event_signal e False st] (upd_event e (\<lambda>x. x\<lparr>e_signaled := True\<rparr>) (locked k)))
      (event_signal_end e False st)) = Ret v k'" "user_inv k'"
proof -
  let ?w = "Event_wait e" and ?f = "In_event_signal e False st"
  let ?k = "upd_event e (\<lambda>x. x\<lparr>e_signaled := True\<rparr>) (locked k)"
  note u = user_invD [OF k]
  have inv: "object_inv_but {?w} ?k" using u(3) by (intro object_inv_but_upd) simp
  have close: "object_inv k'" if "object_inv_but {?w} k'" "waiters k' ?w = []" for k'
    using that by (intro object_inv_but_close(3) [of e]) (simp_all add: event_ok_def)
  show ?thesis
  proof (cases "r \<and> waiters k ?w \<noteq> []")
    case True
    have nt: "neutral (In_wait_queue_wake n # [?f])" if "n > 0" for n
      by (rule neutral_frames) simp
    obtain v k' where "settle (kbind (wait_queue_wake_all ?w True NO_ERROR [?f] ?k) (run_frames [?f])) = Ret v k'"
      "user_inv k'"
      by (rule wake_all_user_inv [of ?k ?w NO_ERROR "[?f]", OF _ _ _ _ inv])
        (use u True close nt in \<open>simp_all add: err_defs\<close>)
    with True that show ?thesis by simp
  next
    case False
    obtain k' where k': "wake_all_loop ?w NO_ERROR 0 ?k = (0 + int (length (waiters ?k ?w)), k')"
      "base_inv {} k'" "wake_all_rel ?w NO_ERROR ?k k'" "object_inv_but {?w} k'"
      "\<And>t. tstate ?k t \<noteq> THREAD_BLOCKED \<Longrightarrow> tstate k' t = tstate ?k t"
      "\<And>t. tstate k' t = THREAD_RUNNING \<longleftrightarrow> tstate ?k t = THREAD_RUNNING"
      by (rule wake_all_facts [OF inv, of NO_ERROR 0]) (use u in \<open>simp_all add: err_defs\<close>)
    have cnt: "wq_count (wait_queues k ?w) = int (length (waiters k ?w))"
      using u(5) by (simp add: base_inv_def waitq_ok_def)
    have rel: "current_thread k' = current_thread k" "stacks k' = stacks k" "waiters k' ?w = []"
      using k'(3) by (simp_all add: wake_all_rel_def)
    have "kbind (wait_queue_wake_all ?w r NO_ERROR [?f] ?k) (event_signal_end e False st) =
        Ret NO_ERROR (THREAD_UNLOCK st k')"
      using False k'(1) cnt by (cases r) (simp_all add: wait_queue_wake_all_def event_signal_end_def)
    moreover have "sched_inv k'" using k'(2,6) u(1) rel by (simp add: sched_inv_def)
    then have "user_inv (THREAD_UNLOCK st k')"
      using close [OF k'(4)] rel u(4) by (intro user_inv_unlock) simp_all
    ultimately show ?thesis using that by simp
  qed
qed

lemma event_signal_user_inv:
  assumes k: "user_inv k"
  obtains v k' where "settle (event_signal e r [] k) = Ret v k'" "user_inv k'"
proof (cases "e_signaled (events k e)")
  case True
  with user_inv_locked_unlock [OF k] that show ?thesis
    by (simp add: event_signal_def THREAD_LOCK_locked)
next
  case False
  show ?thesis
  proof (cases "e_flags (events k e) AND EVENT_FLAG_AUTOUNSIGNAL = 0")
    case True
    with False event_wake_all_user_inv [OF k, of e r "irq_state k"] that show ?thesis
      by (simp add: event_signal_def THREAD_LOCK_locked) metis
  next
    case auto: False
    with False event_wake_one_user_inv [OF k, of e r "irq_state k"] that show ?thesis
      by (simp add: event_signal_def THREAD_LOCK_locked) metis
  qed
qed

lemma event_destroy_user_inv:
  assumes k: "user_inv k"
  obtains v k' where "settle (event_destroy e [] k) = Ret v k'" "user_inv k'"
proof -
  let ?k = "upd_event e (\<lambda>x. x\<lparr>e_magic := 0, e_signaled := False, e_flags := 0\<rparr>) (locked k)"
  let ?f = "In_event_destroy (irq_state k)"
  note u = user_invD [OF k]
  have f: "run_frame ?f = (\<lambda>_ k'. ret_void (THREAD_UNLOCK (irq_state k) k'))"
    by (intro ext) simp
  have three: "upd_event e (\<lambda>x. x\<lparr>e_flags := 0\<rparr>) (upd_event e (\<lambda>x. x\<lparr>e_signaled := False\<rparr>)
      (upd_event e (\<lambda>x. x\<lparr>e_magic := 0\<rparr>) (locked k))) = ?k"
    by (simp add: upd_event_def)
  have eq: "event_destroy e [] k = kbind (wait_queue_destroy (Event_wait e) True [?f] ?k) (run_frame ?f)"
    by (simp add: event_destroy_def THREAD_LOCK_locked f three)
  have "object_inv_but {Event_wait e} ?k" using u(3) by (intro object_inv_but_upd) simp
  moreover have "object_inv k'" if "object_inv_but {Event_wait e} k'" "waiters k' (Event_wait e) = []" for k'
    using that by (intro object_inv_but_close(3) [of e]) (simp_all add: event_ok_def)
  ultimately obtain v k' where
    "settle (kbind (wait_queue_destroy (Event_wait e) True [?f] ?k) (run_frame ?f)) = Ret v k'" "user_inv k'"
    using u by (auto intro: destroy_user_inv [of ?k "Event_wait e" ?f "irq_state k"])
  then show ?thesis by (intro that [of v k']) (simp_all only: eq)
qed


section \<open>Setting up objects\<close>

lemma wait_queue_init_user_inv:
  assumes "user_inv k" "waiters k w = []"
  shows "user_inv (wait_queue_init w k)"
proof -
  have "wq_count (wait_queues k w) = 0"
    using assms user_invD(5) by (simp add: base_inv_def waitq_ok_def)
  then have "sched_inv (wait_queue_init w k)"
    using assms sched_inv_cong [of "wait_queue_init w k" k]
    by (simp add: user_inv_def wait_queue_init_def)
  moreover have "object_inv (wait_queue_init w k)"
    by (rule object_inv_view [of k])
      (use assms in \<open>auto simp: user_inv_def same_objects_def runnable_def wait_queue_init_def\<close>)
  ultimately show ?thesis using assms(1) by (simp add: user_inv_def wait_queue_init_def)
qed

lemma mutex_init_user_inv:
  assumes k: "user_inv k" and m: "m_magic (mutexes k m) \<noteq> MUTEX_MAGIC"
  shows "user_inv (mutex_init m k)"
proof -
  let ?k = "upd_mutex m (\<lambda>_. \<lparr>m_magic = MUTEX_MAGIC, m_holder = None, m_count = 0\<rparr>) k"
  note u = user_invD [OF k] and ok = mutex_okD(2) [OF k m]
  have "object_inv_but {Mutex_wait m} ?k" using u(3) by (intro object_inv_but_upd)
  moreover have "mutex_ok ?k m" using ok by (simp add: mutex_ok_def live_mutex_ok_def mutex_busy_def)
  ultimately have "object_inv ?k" by (rule object_inv_but_close)
  then have "user_inv ?k" using u by (simp add: user_inv_def)
  with ok show ?thesis unfolding mutex_init_def by (intro wait_queue_init_user_inv) simp_all
qed

lemma sem_init_user_inv:
  assumes k: "user_inv k" and s: "waiters k (Sem_wait s) = []"
  shows "user_inv (sem_init s (int v) k)"
proof -
  let ?k = "upd_sem s (\<lambda>_. \<lparr>s_magic = SEMAPHORE_MAGIC, s_count = int v\<rparr>) k"
  note u = user_invD [OF k]
  have "object_inv_but {Sem_wait s} ?k" using u(3) by (intro object_inv_but_upd)
  then have "object_inv ?k" using s by (intro object_inv_but_close(2) [of s]) (simp_all add: sem_ok_def)
  then have "user_inv ?k" using u by (simp add: user_inv_def)
  with s show ?thesis unfolding sem_init_def by (intro wait_queue_init_user_inv) simp_all
qed

lemma event_init_user_inv:
  assumes k: "user_inv k" and e: "waiters k (Event_wait e) = []"
  shows "user_inv (event_init e i fl k)"
  unfolding event_init_def using e
  by (intro wait_queue_init_user_inv event_update_user_inv(2) [OF k]) simp_all

section \<open>All calls\<close>

lemma thread_detach_and_resume_user_inv:
  assumes k: "user_inv k" and c: "current_thread k \<noteq> idle_thread"
    and t: "t \<in> set (thread_list k)" "tstate k t \<noteq> THREAD_DEATH"
  obtains v k' where "settle (thread_detach_and_resume t [] k) = Ret v k'" "user_inv k'"
  using k c
proof (cases rule: thread_detach_user_inv [where t = t])
  case (1 k1)
  have "settle (thread_detach_and_resume t [] k) = settle (thread_resume t [] k1)"
    using 1(1) by (simp add: thread_detach_and_resume_def err_defs)
  with thread_resume_user_inv [OF 1(2), of t] 1(4) t(1) that show ?thesis by metis
next
  case 2
  with t(2) show ?thesis by simp
qed

lemma exec_user_inv:
  assumes k: "user_inv k" and a: "allowed k a"
  shows "\<exists>v k'. settle (exec a k) = Ret v k' \<and> user_inv k'"
proof -
  have ok: "op_allowed k a" using a by (simp add: allowed_def)
  have c: "current_thread k \<noteq> idle_thread" if "a \<noteq> Preempt" "a \<noteq> Timer_interrupt"
    using a that by (auto simp: allowed_def)
  show ?thesis
  proof (cases a)
    case Yield
    then show ?thesis using thread_yield_user_inv [OF k, of "[]"] by simp metis
  next
    case Preempt
    then show ?thesis using thread_preempt_user_inv [OF k] by (simp add: arch_idle_def) metis
  next
    case Timer_interrupt
    then show ?thesis using timer_interrupt_user_inv [OF k] by simp metis
  next
    case (Set_priority p)
    then show ?thesis using thread_set_priority_user_inv [OF k] by simp metis
  next
    case (Set_name s)
    have "user_inv (thread_set_name s k)"
      by (rule user_inv_view [OF k])
        (use user_invD(9) [OF k] in \<open>simp_all add: thread_set_name_def same_objects_def\<close>)
    with Set_name show ?thesis by simp
  next
    case (Set_real_time t)
    then show ?thesis using thread_set_real_time_user_inv [OF k, of t] by (metis exec.simps(6) settle.simps(1))
  next
    case (Create t name entry arg prio sz m_stack)
    then show ?thesis
      using thread_create_user_inv [OF k, of t prio name entry arg sz m_stack] ok
      by (auto split: prod.splits option.splits)
  next
    case (Resume t)
    then show ?thesis using thread_resume_user_inv [OF k, of t] ok by simp metis
  next
    case (Join t r timeout)
    then show ?thesis using thread_join_user_inv [OF k c, of timeout t r] ok by simp metis
  next
    case (Detach t)
    then show ?thesis using thread_detach_user_inv [OF k c, of t] by simp (metis settle.simps(1))
  next
    case (Detach_and_resume t)
    then show ?thesis using thread_detach_and_resume_user_inv [OF k c, of t] ok by simp metis
  next
    case (Exit v)
    then show ?thesis using thread_exit_user_inv [OF k c, of v] by simp metis
  next
    case (Mutex_init m)
    then show ?thesis using mutex_init_user_inv [OF k] ok by simp
  next
    case (Mutex_destroy m)
    then show ?thesis using mutex_destroy_user_inv [OF k, of m] ok by simp metis
  next
    case (Mutex_acquire m timeout)
    then show ?thesis using mutex_acquire_user_inv [OF k c, of m timeout] ok by simp metis
  next
    case (Mutex_release m)
    then show ?thesis using mutex_release_user_inv [OF k, of m] ok by simp metis
  next
    case (Sem_init s v)
    then show ?thesis using sem_init_user_inv [OF k] ok by simp
  next
    case (Sem_destroy s)
    then show ?thesis using sem_destroy_user_inv [OF k, of s] by simp metis
  next
    case (Sem_post s r)
    then show ?thesis using sem_post_user_inv [OF k, of s r] by simp metis
  next
    case (Sem_wait_op s)
    then show ?thesis using sem_wait_user_inv [OF k c, of s] by simp metis
  next
    case (Sem_trywait s)
    then show ?thesis using sem_trywait_user_inv [OF k, of s] by (metis exec.simps(21) settle.simps(1))
  next
    case (Sem_timedwait s timeout)
    then show ?thesis using sem_timedwait_user_inv [OF k c, of timeout s] ok by simp metis
  next
    case (Event_init e i fl)
    then show ?thesis using event_init_user_inv [OF k] ok by simp
  next
    case (Event_destroy e)
    then show ?thesis using event_destroy_user_inv [OF k, of e] by simp metis
  next
    case (Event_wait_op e timeout)
    then show ?thesis using event_wait_user_inv [OF k c, of timeout e] ok by simp metis
  next
    case (Event_signal e r)
    then show ?thesis using event_signal_user_inv [OF k, of e r] by simp metis
  next
    case (Event_unsignal e)
    then show ?thesis
      using event_update_user_inv(2) [OF k, of "\<lambda>x. x\<lparr>e_signaled := False\<rparr>" e]
      by (simp add: event_unsignal_def)
  qed
qed

end
