(* ===== verification/Lk_Boot.thy ===== *)
theory Lk_Boot imports Lk_Calls begin

text \<open>
  The start-up of the thread package establishes \<open>user_inv\<close>, every call keeps it, and so every
  reachable state has it, by the locale \<open>invariant_machine\<close> of the prelude.
\<close>

section \<open>The state after \<open>thread_create_idle\<close>\<close>

definition booted :: "tid \<Rightarrow> nat \<Rightarrow> kernel" where
  "booted t stk =
     (let k = snd (thread_create_etc (Some idle_thread) ''idle'' 0 0 IDLE_PRIORITY None
                     DEFAULT_STACK_SIZE None (Some stk) (thread_init (thread_init_early t zero_kernel)))
      in THREAD_UNLOCK (irq_state k) (upd_thread idle_thread
           (\<lambda>x. x\<lparr>t_flags := t_flags x OR THREAD_FLAG_DETACHED\<rparr>) (locked k)))"

lemmas boot_defs = booted_def Let_def thread_init_def thread_init_early_def thread_create_etc_def
  init_thread_struct_def wait_queue_init_def THREAD_LOCK_locked arch_thread_initialize_def

lemma booted_threads:
  assumes "t \<noteq> idle_thread"
  shows "tstate (booted t stk) u = (if u = t then THREAD_RUNNING else THREAD_SUSPENDED)"
    and "tprio (booted t stk) u = (if u = t then HIGHEST_PRIORITY else 0)"
    and "twait (booted t stk) u = None"
    and "t_flags (threads (booted t stk) u) = (if u = t then THREAD_FLAG_DETACHED
      else if u = idle_thread then THREAD_FLAG_FREE_STACK OR THREAD_FLAG_DETACHED else 0)"
  using assms by (simp_all add: boot_defs zero_kernel_def zero_thread_def prio_consts)

lemma booted_rest:
  assumes "t \<noteq> idle_thread"
  shows "run_queue (booted t stk) = (\<lambda>_. [])" "run_queue_bitmap (booted t stk) = 0"
    "waiters (booted t stk) w = []" "wq_count (wait_queues (booted t stk) w) = 0"
    "current_thread (booted t stk) = t" "thread_lock (booted t stk) = 0"
    "stacks (booted t stk) u = (if u = idle_thread then [In_initial_thread] else [])"
    "thread_list (booted t stk) = [idle_thread, t]"
    "m_magic (mutexes (booted t stk) m) = 0" "s_count (sems (booted t stk) s) = 0"
    "e_signaled (events (booted t stk) e) = False"
  using assms by (simp_all add: boot_defs zero_kernel_def fun_eq_iff)

lemma booted_user_inv:
  assumes "t \<noteq> idle_thread"
  shows "user_inv (booted t stk)"
proof -
  have f: "THREAD_FLAG_DETACHED AND THREAD_FLAG_IDLE = 0"
    "(THREAD_FLAG_FREE_STACK OR THREAD_FLAG_DETACHED) AND THREAD_FLAG_IDLE = 0"
    "(THREAD_FLAG_FREE_STACK OR THREAD_FLAG_DETACHED) AND THREAD_FLAG_DETACHED \<noteq> 0"
    "THREAD_FLAG_DETACHED \<noteq> 0"
    by (simp_all add: flag_defs)
  have "sched_inv (booted t stk)"
    by (auto simp: sched_inv_def inv_defs booted_threads [OF assms] booted_rest [OF assms] prio_consts)
  moreover have "object_inv (booted t stk)"
    using assms
    by (auto simp: obj_defs booted_threads [OF assms] booted_rest [OF assms] f MUTEX_MAGIC_def)
  ultimately show ?thesis using assms by (simp add: user_inv_def booted_rest [OF assms])
qed

lemma thread_create_idle_booted:
  assumes "t \<noteq> idle_thread"
  shows "thread_create_idle (Some stk) [] (thread_init (thread_init_early t zero_kernel)) =
    Ret NO_ERROR (booted t stk)"
proof -
  have "\<And>k. waiters k w = [] \<Longrightarrow> wait_queue_wake_all w False e fs k = Ret 0 k" for w e fs
    by (simp add: wait_queue_wake_all_def wake_all_loop_simps)
  then show ?thesis
    by (simp add: thread_create_idle_def thread_detach_def boot_defs)
qed


text \<open>
  \<open>thread_set_priority\<close> in the bootstrap thread returns at once: nobody else is ready.
\<close>

lemma lkl_thread_init_ret:
  assumes "t \<noteq> idle_thread"
  obtains v k where "lkl_thread_init t (Some stk) = Ret v k" "user_inv k" "current_thread k = t"
    "mutexes k = mutexes (booted t stk)"
proof -
  let ?b = "booted t stk"
  have inv: "user_inv ?b" using assms by (rule booted_user_inv)
  have eq: "lkl_thread_init t (Some stk) = thread_set_priority DEFAULT_PRIORITY [] ?b"
    by (simp add: lkl_thread_init_def thread_create_idle_booted [OF assms])
  have c: "current_thread ?b = t" using assms by (simp add: booted_rest)
  let ?k1 = "insert_in_run_queue_head t (set_state t THREAD_READY
      (upd_thread t (\<lambda>x. x\<lparr>t_priority := DEFAULT_PRIORITY\<rparr>) (locked ?b)))"
  have sp: "thread_set_priority DEFAULT_PRIORITY [] ?b =
      kbind (thread_resched [In_thread_set_priority (irq_state ?b)] ?k1)
        (\<lambda>_ k. ret_void (THREAD_UNLOCK (irq_state ?b) k))"
    by (simp add: thread_set_priority_def THREAD_LOCK_locked Let_def c prio_consts)
  have st: "tstate ?k1 u = (if u = t then THREAD_READY else THREAD_SUSPENDED)" for u
    by (simp add: set_state_def booted_threads [OF assms])
  have "base_inv {} (upd_thread t (\<lambda>x. x\<lparr>t_priority := DEFAULT_PRIORITY\<rparr>) (locked ?b))"
    using assms by (auto simp: inv_defs booted_threads [OF assms] booted_rest [OF assms] prio_consts)
  then have "base_inv {} ?k1"
    by (intro base_inv_ready_insert) (simp_all add: booted_threads [OF assms])
  with st have park: "parked ?k1" by (simp add: parked_def)
  have c1: "current_thread ?k1 = t" by (simp add: set_state_def c)
  obtain k where k: "lkl_thread_init t (Some stk) = Ret 0 k" "current_thread k = t" "mutexes k = mutexes ?b"
    using park
  proof (cases rule: thread_resched_cases [where fs = "[In_thread_set_priority (irq_state ?b)]"])
    case (stay k')
    moreover have "mutexes k' = mutexes ?b" using stay(2) by (simp add: resched_rel_def same_objects_def set_state_def)
    ultimately show ?thesis using sp eq c1 that by simp
  next
    case (switch k')
    have "\<exists>u. tstate ?k1 u = THREAD_READY" using st [of t] by auto
    with switch(2) have "tstate ?k1 (current_thread k') = THREAD_READY" by (auto simp: resched_rel_def)
    with switch(4) c1 st show ?thesis by simp
  qed
  moreover obtain v k' where "settle (thread_set_priority DEFAULT_PRIORITY [] ?b) = Ret v k'" "user_inv k'"
    by (rule thread_set_priority_user_inv [OF inv])
  ultimately show ?thesis using eq by (intro that [of 0 k]) simp_all
qed

section \<open>The invariant of every reachable state\<close>

interpretation lk_machine: invariant_machine kstart kstep user_inv
proof
  show "user_inv k" if "kstart k" for k
    using that
  proof cases
    case (boot t stk v)
    from boot(1) obtain v' k' where "lkl_thread_init t (Some stk) = Ret v' k'" "user_inv k'"
      by (rule lkl_thread_init_ret)
    with boot(2) show ?thesis by simp
  qed
  show "user_inv k'" if "user_inv k" "kstep k a v k'" for k a v k'
    using that(2)
  proof cases
    case step
    with exec_user_inv [OF that(1), of a] show ?thesis by auto
  qed
qed

lemma reachable_inv: "reachable k \<Longrightarrow> user_inv k"
  by (auto simp: reachable_def dest: lk_machine.run_inv)

text \<open>A concrete reachable state, for the examples.\<close>

definition boot_kernel :: kernel where
  "boot_kernel = (case lkl_thread_init 1 (Some 0) of Ret v k \<Rightarrow> k | _ \<Rightarrow> zero_kernel)"

lemma boot_kernel_start: "kstart boot_kernel" and boot_kernel_current: "current_thread boot_kernel = 1"
proof -
  have "(1 :: tid) \<noteq> idle_thread" by (simp add: idle_thread_def)
  then obtain v k where k: "lkl_thread_init 1 (Some 0) = Ret v k" "user_inv k" "current_thread k = 1"
    by (rule lkl_thread_init_ret)
  then have "boot_kernel = k" by (simp add: boot_kernel_def)
  with k \<open>1 \<noteq> idle_thread\<close> show "kstart boot_kernel" "current_thread boot_kernel = 1"
    by (auto intro: boot)
qed

lemma reachable_boot_kernel: "reachable boot_kernel"
  using boot_kernel_start by (auto simp: reachable_def intro: run_nil)

lemma reachable_step: "reachable k \<Longrightarrow> kstep k a v k' \<Longrightarrow> reachable k'"
  by (auto simp: reachable_def intro: run_snoc)

end
