(* ===== verification/Lk_Semaphores.thy ===== *)
theory Lk_Semaphores imports Lk_Boot begin

text \<open>
  Counting what the semaphores let through. \<open>sem_kept f X k\<close> fixes the counters of all semaphores and
  bounds their waiters; every call that is not on a semaphore keeps it, also through the saved stack
  the dispatcher continues with. From this follows the balance of a run, \<open>run_sem_count\<close>: a
  semaphore's counter is what it was, plus the posts, minus the waits.
\<close>

section \<open>States in which no timed wait has expired\<close>

text \<open>
  The timers of this port stop the system, so a saved \<open>In_sem_timedwait\<close> lies under an infinite
  block, and no thread is woken with \<open>ERR_TIMED_OUT\<close>.
\<close>

definition plain :: "frame list \<Rightarrow> bool" where
  "plain fs \<longleftrightarrow> (\<forall>s st. In_sem_timedwait s st \<notin> set fs)"

definition calm_stack :: "frame list \<Rightarrow> bool" where
  "calm_stack fs \<longleftrightarrow> plain fs \<or> (\<exists>s st. fs = [In_wait_queue_block INFINITE_TIME, In_sem_timedwait s st])"

definition calm :: "kernel \<Rightarrow> bool" where
  "calm k \<longleftrightarrow> (\<forall>t. t_wait_queue_block_ret (threads k t) \<noteq> ERR_TIMED_OUT \<and> calm_stack (stacks k t))"

definition sem_kept :: "(nat \<Rightarrow> semaphore) \<Rightarrow> (nat \<Rightarrow> tid set) \<Rightarrow> kernel \<Rightarrow> bool" where
  "sem_kept f X k \<longleftrightarrow> calm k \<and> sems k = f \<and> (\<forall>s. set (waiters k (Sem_wait s)) \<subseteq> X s)"

fun sat :: "(kernel \<Rightarrow> bool) \<Rightarrow> kres \<Rightarrow> bool" where
  "sat P (Ret v k) \<longleftrightarrow> P k"
| "sat P (Switch k) \<longleftrightarrow> P k"
| "sat P (Panic e) \<longleftrightarrow> True"

lemma sat_kbind: "sat P r \<Longrightarrow> (\<And>v k. P k \<Longrightarrow> sat P (f v k)) \<Longrightarrow> sat P (kbind r f)"
  by (cases r) auto

lemma plain_simps [simp]:
  "plain []" "plain (f # fs) \<longleftrightarrow> (\<forall>s st. f \<noteq> In_sem_timedwait s st) \<and> plain fs"
  by (auto simp: plain_def)

lemma plain_calm [intro]: "plain fs \<Longrightarrow> calm_stack fs"
  by (simp add: calm_stack_def)

lemma calm_timedwait [intro]: "calm_stack [In_wait_queue_block INFINITE_TIME, In_sem_timedwait s st]"
  by (simp add: calm_stack_def)

section \<open>The primitive steps\<close>

lemma sem_kept_view:
  assumes "sem_kept f X k"
    and "\<And>t. t_wait_queue_block_ret (threads k' t) = t_wait_queue_block_ret (threads k t)"
    and "stacks k' = stacks k" "sems k' = sems k" "\<And>s. waiters k' (Sem_wait s) = waiters k (Sem_wait s)"
  shows "sem_kept f X k'"
  using assms by (simp add: sem_kept_def calm_def)

lemma sem_kept_upd_thread [simp]:
  assumes "\<And>x. t_wait_queue_block_ret (g x) = t_wait_queue_block_ret x"
  shows "sem_kept f X (upd_thread t g k) = sem_kept f X k"
proof -
  have "t_wait_queue_block_ret (threads (upd_thread t g k) u) = t_wait_queue_block_ret (threads k u)" for u
    using assms by simp
  then show ?thesis by (simp add: sem_kept_def calm_def del: tstate_upd_thread)
qed

lemma sem_kept_simps [simp]:
  "sem_kept f X (locked k) = sem_kept f X k"
  "sem_kept f X (THREAD_UNLOCK st k) = sem_kept f X k"
  "sem_kept f X (insert_in_run_queue_head t k) = sem_kept f X k"
  "sem_kept f X (insert_in_run_queue_tail t k) = sem_kept f X k"
  "sem_kept f X (upd_mutex m g k) = sem_kept f X k"
  "sem_kept f X (upd_event e h k) = sem_kept f X k"
  "sem_kept f X (spin_unlock k) = sem_kept f X k"
  "sem_kept f X (heap_delayed_free a k) = sem_kept f X k"
  "sem_kept f X (free_mem a k) = sem_kept f X k"
  "sem_kept f X (k\<lparr>thread_list := l\<rparr>) = sem_kept f X k"
  "sem_kept f X (k\<lparr>cells := c\<rparr>) = sem_kept f X k"
  by (simp_all add: sem_kept_def calm_def spin_unlock_def heap_delayed_free_def free_mem_def)

lemma sem_kept_states [simp]:
  "sem_kept f X (set_state t z k) = sem_kept f X k"
  "sem_kept f X (requeue_current k) = sem_kept f X k"
  by (simp_all add: set_state_def requeue_current_def Let_def)

lemma sem_kept_woken:
  "sem_kept f X k \<Longrightarrow> waiters k w = t # ts \<Longrightarrow> err \<noteq> ERR_TIMED_OUT \<Longrightarrow> sem_kept f X (woken w t ts err k)"
  by (fastforce simp: sem_kept_def calm_def)

lemma sem_kept_enqueue:
  "sem_kept f X k \<Longrightarrow> (\<And>s. w = Sem_wait s \<Longrightarrow> current_thread k \<in> X s) \<Longrightarrow> sem_kept f X (wq_enqueue w k)"
  by (auto simp: sem_kept_def calm_def err_defs)

lemma sem_kept_wq_magic [simp]: "sem_kept f X (upd_wq w (\<lambda>q. q\<lparr>wq_magic := m\<rparr>) k) = sem_kept f X k"
  by (auto simp: sem_kept_def calm_def upd_wq_def)

lemma sem_kept_set_stack:
  "sem_kept f X k \<Longrightarrow> calm_stack fs \<Longrightarrow> sem_kept f X (set_stack t fs k)"
  by (auto simp: sem_kept_def calm_def set_stack_def)

lemma get_top_loop_frame:
  "threads (snd (get_top_loop b k)) = threads k" "stacks (snd (get_top_loop b k)) = stacks k"
  "sems (snd (get_top_loop b k)) = sems k" "wait_queues (snd (get_top_loop b k)) = wait_queues k"
  by (induction b k rule: get_top_loop.induct)
    (subst get_top_loop.simps, auto simp: Let_def split: list.split)+

lemma sem_kept_resched:
  assumes "sem_kept f X k" "calm_stack fs"
  shows "sat (sem_kept f X) (thread_resched fs k)"
proof -
  obtain n k1 where top: "get_top_thread k = (n, k1)" by fastforce
  then have k1: "k1 = snd (get_top_loop (run_queue_bitmap k) k)" by (simp add: get_top_thread_def)
  have "sem_kept f X k1"
    by (rule sem_kept_view [OF assms(1)]) (simp_all add: k1 get_top_loop_frame)
  then show ?thesis using assms(2)
    by (auto simp: thread_resched_def top Let_def arch_context_switch_def sem_kept_def calm_def upd_thread_def)
qed

section \<open>Blocking and waking\<close>

lemma sem_kept_block:
  assumes "sem_kept f X k" "\<And>s. w = Sem_wait s \<Longrightarrow> current_thread k \<in> X s"
    and "timeout = INFINITE_TIME \<Longrightarrow> calm_stack (In_wait_queue_block INFINITE_TIME # fs)"
  shows "sat (sem_kept f X) (wait_queue_block w timeout fs k)"
proof -
  note e = sem_kept_enqueue [OF assms(1,2)]
  consider "timeout = 0" | "timeout \<noteq> 0" "timeout \<noteq> INFINITE_TIME" | "timeout = INFINITE_TIME" by blast
  then show ?thesis
  proof cases
    case 2
    then show ?thesis by (simp add: wait_queue_block_def timer_initialize_def Let_def)
  next
    case 3
    have "sat (sem_kept f X) (kbind (thread_resched (In_wait_queue_block INFINITE_TIME # fs) (wq_enqueue w k))
      (\<lambda>_. wait_queue_block_end INFINITE_TIME))"
      by (intro sat_kbind sem_kept_resched e assms(3) 3) (simp_all add: wait_queue_block_end_def)
    with 3 show ?thesis by (simp add: wait_queue_block_def INFINITE_TIME_def Let_def)
  qed (use assms(1) in \<open>simp add: wait_queue_block_def\<close>)
qed

lemma sem_kept_wake_one:
  assumes "sem_kept f X k" "err \<noteq> ERR_TIMED_OUT" "plain fs"
  shows "sat (sem_kept f X) (wait_queue_wake_one w r err fs k)"
proof (cases "waiters k w")
  case (Cons t ts)
  have pop: "sem_kept f X (wq_pop w t ts err k)"
    using sem_kept_woken [OF assms(1) Cons assms(2)] by (simp add: woken_def)
  then have "sem_kept f X (insert_in_run_queue_head t (requeue_current (wq_pop w t ts err k)))" by simp
  moreover have "calm_stack (In_wait_queue_wake 1 # fs)" using assms(3) by auto
  ultimately have "sat (sem_kept f X) (thread_resched (In_wait_queue_wake 1 # fs)
      (insert_in_run_queue_head t (requeue_current (wq_pop w t ts err k))))"
    by (rule sem_kept_resched)
  then show ?thesis using pop
    by (auto simp: wait_queue_wake_one_def Cons Let_def intro!: sat_kbind)
qed (use assms in \<open>simp add: wait_queue_wake_one_def\<close>)

lemma sem_kept_wake_all_loop:
  "sem_kept f X k \<Longrightarrow> err \<noteq> ERR_TIMED_OUT \<Longrightarrow> sem_kept f X (snd (wake_all_loop w err n k))"
proof (induction "waiters k w" arbitrary: k n)
  case Nil
  then show ?case using wake_all_loop_simps(1) [of k w err n] by simp
next
  case (Cons t ts)
  then have w: "waiters k w = t # ts" by simp
  with Cons show ?case
    using Cons.hyps(1) [of "woken w t ts err k" "n + 1"] sem_kept_woken [OF Cons.prems(1) w Cons.prems(2)]
    by (simp add: wake_all_loop_simps(2))
qed

lemma sem_kept_wake_all:
  assumes "sem_kept f X k" "err \<noteq> ERR_TIMED_OUT" "plain fs"
  shows "sat (sem_kept f X) (wait_queue_wake_all w r err fs k)"
proof -
  define k1 where "k1 = (if r \<and> wq_count (wait_queues k w) > 0 then requeue_current k else k)"
  obtain n k2 where l: "wake_all_loop w err 0 k1 = (n, k2)" by fastforce
  have "sem_kept f X k1" using assms(1) by (simp add: k1_def)
  from sem_kept_wake_all_loop [OF this assms(2), of w 0] l have "sem_kept f X k2" by simp
  with assms(3) show ?thesis
    by (auto simp: wait_queue_wake_all_def k1_def [symmetric] l Let_def intro!: sat_kbind sem_kept_resched)
qed

lemma sem_kept_destroy:
  "sem_kept f X k \<Longrightarrow> plain fs \<Longrightarrow> sat (sem_kept f X) (wait_queue_destroy w r fs k)"
  unfolding wait_queue_destroy_def
  by (rule sat_kbind [OF sem_kept_wake_all]) (simp_all add: wait_queue_destroy_end_def err_defs)

section \<open>The saved stacks\<close>

lemma sem_kept_reap: "sem_kept f X k \<Longrightarrow> sat (sem_kept f X) (thread_join_reap t c st k)"
  by (cases c) (simp_all add: thread_join_reap_def Let_def)

lemma sem_kept_frame:
  assumes "sem_kept f X k" "\<And>s st. g \<noteq> In_sem_timedwait s st"
  shows "sat (sem_kept f X) (run_frame g v k)"
proof (cases g)
  case (In_mutex_acquire m st)
  with assms show ?thesis by (simp add: mutex_acquire_end_def mutex_take_def)
next
  case (In_thread_join t c st)
  with assms show ?thesis by (simp add: thread_join_end_def sem_kept_reap)
qed (use assms in \<open>simp_all add: initial_thread_func_def wait_queue_block_end_def timer_cancel_def
    wait_queue_destroy_end_def event_signal_end_def Let_def\<close>)

lemma sem_kept_frames:
  "sem_kept f X k \<Longrightarrow> plain fs \<Longrightarrow> sat (sem_kept f X) (run_frames fs v k)"
  by (induction fs arbitrary: v k) (auto intro!: sat_kbind sem_kept_frame)

lemma sem_kept_settle:
  assumes "sat (sem_kept f X) r"
  shows "sat (sem_kept f X) (settle r)"
proof (cases r)
  case (Switch k)
  let ?c = "current_thread k"
  have k: "sem_kept f X k" "sem_kept f X (set_stack ?c [] k)"
    using assms Switch by (simp_all add: sem_kept_set_stack plain_calm)
  then have "calm_stack (stacks k ?c)" "t_wait_queue_block_ret (threads k ?c) \<noteq> ERR_TIMED_OUT"
    by (simp_all add: sem_kept_def calm_def)
  then consider "plain (stacks k ?c)"
    | u st where "stacks k ?c = [In_wait_queue_block INFINITE_TIME, In_sem_timedwait u st]"
      "t_wait_queue_block_ret (threads k ?c) \<noteq> ERR_TIMED_OUT"
    by (auto simp: calm_stack_def)
  then show ?thesis
  proof cases
    case 1
    with k(2) Switch show ?thesis by (simp add: sem_kept_frames del: run_frames_Cons)
  next
    case 2
    with k(2) Switch show ?thesis by (simp add: wait_queue_block_end_def sem_timedwait_end_def)
  qed
qed (use assms in simp_all)

section \<open>The calls\<close>

lemma sem_kept_yield: "sem_kept f X k \<Longrightarrow> plain g \<Longrightarrow> sat (sem_kept f X) (thread_yield g k)"
  unfolding thread_yield_def THREAD_LOCK_locked Let_def prod.case
  by (intro sat_kbind sem_kept_resched) auto

lemma sem_kept_preempt: "sem_kept f X k \<Longrightarrow> sat (sem_kept f X) (thread_preempt [] k)"
  unfolding thread_preempt_def THREAD_LOCK_locked Let_def prod.case
  by (intro sat_kbind sem_kept_resched) auto

lemma sem_kept_tick: "sem_kept f X k \<Longrightarrow> sem_kept f X (snd (thread_timer_tick k))"
  by (simp add: thread_timer_tick_def Let_def)

lemma sem_kept_resume: "sem_kept f X k \<Longrightarrow> sat (sem_kept f X) (thread_resume t [] k)"
  by (auto simp: thread_resume_def THREAD_LOCK_locked Let_def intro!: sat_kbind sem_kept_yield)

lemma sem_kept_join: "sem_kept f X k \<Longrightarrow> sat (sem_kept f X) (thread_join t c timeout [] k)"
  by (auto simp: thread_join_def THREAD_LOCK_locked thread_join_end_def
      intro!: sat_kbind sem_kept_block sem_kept_reap)

lemma sem_kept_detach: "sem_kept f X k \<Longrightarrow> sat (sem_kept f X) (thread_detach t [] k)"
  unfolding thread_detach_def THREAD_LOCK_locked Let_def prod.case
  by (rule sat_kbind [OF sem_kept_wake_all]) (auto simp: err_defs intro!: sem_kept_join)

lemma sem_kept_exit: "sem_kept f X k \<Longrightarrow> sat (sem_kept f X) (thread_exit v [] k)"
  unfolding thread_exit_def THREAD_LOCK_locked Let_def prod.case
  by (intro sat_kbind [where f = "\<lambda>_ k. kbind (thread_resched _ k) _"])
    (auto simp: exit_detached_def Let_def err_defs intro!: sat_kbind sem_kept_wake_all sem_kept_resched)

lemma sem_kept_wq_init: "sem_kept f X k \<Longrightarrow> sem_kept f X (wait_queue_init w k)"
  by (auto simp: sem_kept_def calm_def wait_queue_init_def upd_wq_def)

lemma sem_kept_create:
  assumes "sem_kept f X k"
  shows "sem_kept f X (snd (thread_create_etc t0 name e x prio stk sz m ms k))"
proof -
  have init: "sem_kept f X (init_thread_struct t name k)" for t
    using assms by (auto simp: init_thread_struct_def Let_def sem_kept_def calm_def upd_wq_def upd_thread_def err_defs)
  have args: "sem_kept f X (upd_thread t (\<lambda>x. x\<lparr>t_entry := e, t_arg := a, t_priority := p, t_state := z,
      t_blocking_wait_queue := b, t_wait_queue_block_ret := NO_ERROR, t_retcode := r\<rparr>) k)"
    if "sem_kept f X k" for t e a p z b r k
    using that by (auto simp: sem_kept_def calm_def upd_thread_def err_defs)
  have stack: "sem_kept f X (arch_thread_initialize t k)" if "sem_kept f X k" for t k
    using that by (auto simp: arch_thread_initialize_def sem_kept_def calm_def)
  show ?thesis
    by (cases t0; cases m; cases stk; cases ms)
      (simp_all add: thread_create_etc_def Let_def assms init args stack sem_kept_wq_init THREAD_LOCK_locked)
qed

lemma sem_kept_mutex_acquire: "sem_kept f X k \<Longrightarrow> sat (sem_kept f X) (mutex_acquire_timeout m timeout [] k)"
  by (auto simp: mutex_acquire_timeout_def mutex_acquire_end_def mutex_take_def THREAD_LOCK_locked Let_def
      intro!: sat_kbind sem_kept_block)

lemma sem_kept_mutex_release: "sem_kept f X k \<Longrightarrow> sat (sem_kept f X) (mutex_release m [] k)"
  by (auto simp: mutex_release_def THREAD_LOCK_locked Let_def err_defs intro!: sat_kbind sem_kept_wake_one)

lemma sem_kept_mutex_destroy: "sem_kept f X k \<Longrightarrow> sat (sem_kept f X) (mutex_destroy m [] k)"
  by (auto simp: mutex_destroy_def THREAD_LOCK_locked Let_def intro!: sat_kbind sem_kept_destroy)

lemma sem_kept_event_destroy: "sem_kept f X k \<Longrightarrow> sat (sem_kept f X) (event_destroy e [] k)"
  by (auto simp: event_destroy_def THREAD_LOCK_locked Let_def intro!: sat_kbind sem_kept_destroy)

lemma sem_kept_event_wait: "sem_kept f X k \<Longrightarrow> sat (sem_kept f X) (event_wait_timeout e timeout [] k)"
  by (auto simp: event_wait_timeout_def THREAD_LOCK_locked Let_def intro!: sat_kbind sem_kept_block)

lemma sem_kept_event_signal: "sem_kept f X k \<Longrightarrow> sat (sem_kept f X) (event_signal e r [] k)"
  by (auto simp: event_signal_def event_signal_end_def THREAD_LOCK_locked Let_def err_defs
      intro!: sat_kbind sem_kept_wake_one sem_kept_wake_all)

text \<open>Every call that is not on a semaphore.\<close>

fun on_sem :: "kop \<Rightarrow> nat option" where
  "on_sem (Sem_init s n) = Some s"
| "on_sem (Sem_destroy s) = Some s"
| "on_sem (Sem_post s r) = Some s"
| "on_sem (Sem_wait_op s) = Some s"
| "on_sem (Sem_trywait s) = Some s"
| "on_sem (Sem_timedwait s timeout) = Some s"
| "on_sem _ = None"

lemma sem_kept_exec:
  assumes k: "sem_kept f X k" and "on_sem a = None"
  shows "sat (sem_kept f X) (exec a k)"
proof (cases a)
  case Timer_interrupt
  with sem_kept_tick [OF k] show ?thesis
    by (auto simp: timer_interrupt_def sem_kept_preempt split: prod.split handler_return.split)
next
  case (Create t name e x prio sz ms)
  with sem_kept_create [OF k] show ?thesis
    by (auto simp: thread_create_def split: prod.split option.split) (metis snd_conv)+
next
  case (Detach_and_resume t)
  with k show ?thesis
    by (auto simp: thread_detach_and_resume_def intro!: sat_kbind sem_kept_detach sem_kept_resume)
next
  case (Event_init e i fl)
  with k show ?thesis by (simp add: event_init_def sem_kept_wq_init)
next
  case (Mutex_init m)
  with k show ?thesis by (simp add: mutex_init_def sem_kept_wq_init)
qed (use assms in \<open>simp_all add: arch_idle_def sem_kept_yield sem_kept_preempt sem_kept_resume sem_kept_join
    sem_kept_detach sem_kept_exit sem_kept_mutex_acquire sem_kept_mutex_release sem_kept_mutex_destroy
    sem_kept_event_destroy sem_kept_event_wait sem_kept_event_signal thread_set_name_def
    event_unsignal_def thread_set_real_time_def THREAD_LOCK_locked thread_set_priority_def Let_def
    sat_kbind sem_kept_resched plain_calm\<close>)

section \<open>The calls on semaphores\<close>

lemma sem_kept_upd_sem:
  "sem_kept f X k \<Longrightarrow> sem_kept (f(s := g (f s))) X (upd_sem s g k)"
  by (simp add: sem_kept_def calm_def upd_sem_def)

lemma sem_kept_mono: "sem_kept f X k \<Longrightarrow> (\<And>s. X s \<subseteq> Y s) \<Longrightarrow> sem_kept f Y k"
  by (fastforce simp: sem_kept_def)

lemma sem_kept_self: "calm k \<Longrightarrow> sem_kept (sems k) (\<lambda>s. set (waiters k (Sem_wait s))) k"
  by (simp add: sem_kept_def)

lemma sem_kept_count:
  assumes "sem_kept f X k"
  shows "sem_kept (f(s := (f s)\<lparr>s_count := s_count (f s) + d\<rparr>)) X (upd_sem s (\<lambda>x. x\<lparr>s_count := s_count x + d\<rparr>) k)"
    and "sem_kept (f(s := (f s)\<lparr>s_count := s_count (f s) - d\<rparr>)) X (upd_sem s (\<lambda>x. x\<lparr>s_count := s_count x - d\<rparr>) k)"
  using sem_kept_upd_sem [OF assms, of s "\<lambda>x. x\<lparr>s_count := s_count x + d\<rparr>"]
    sem_kept_upd_sem [OF assms, of s "\<lambda>x. x\<lparr>s_count := s_count x - d\<rparr>"] by simp_all

definition counted :: "nat \<Rightarrow> int \<Rightarrow> (nat \<Rightarrow> semaphore) \<Rightarrow> nat \<Rightarrow> semaphore" where
  "counted s d f = f(s := (f s)\<lparr>s_count := s_count (f s) + d\<rparr>)"

lemma sem_kept_post:
  assumes "sem_kept f X k"
  shows "sat (sem_kept (counted s 1 f) X) (sem_post s r [] k)"
proof -
  let ?k = "upd_sem s (\<lambda>x. x\<lparr>s_count := s_count x + 1\<rparr>) (locked k)"
  have "sem_kept (counted s 1 f) X ?k"
    unfolding counted_def by (rule sem_kept_count) (simp add: assms)
  then have "sat (sem_kept (counted s 1 f) X) (if s_count (sems ?k s) \<le> 0
      then wait_queue_wake_one (Sem_wait s) r NO_ERROR [In_sem_post st] ?k else Ret 0 ?k)" for st
    by (simp add: sem_kept_wake_one err_defs)
  then show ?thesis
    unfolding sem_post_def THREAD_LOCK_locked Let_def prod.case by (rule sat_kbind) simp
qed

lemma sem_kept_wait:
  assumes "sem_kept f X k" "current_thread k \<in> X s"
  shows "sat (sem_kept (counted s (-1) f) X) (sem_wait s [] k)"
proof -
  let ?k = "upd_sem s (\<lambda>x. x\<lparr>s_count := s_count x - 1\<rparr>) (locked k)"
  have "sem_kept (counted s (-1) f) X ?k"
    using sem_kept_count(2) [of f X "locked k" s 1] assms by (simp add: counted_def)
  then have "sat (sem_kept (counted s (-1) f) X) (if s_count (sems ?k s) < 0
      then wait_queue_block (Sem_wait s) INFINITE_TIME [In_sem_wait st] ?k else Ret NO_ERROR ?k)" for st
    using assms(2) by (auto intro!: sem_kept_block)
  then show ?thesis
    unfolding sem_wait_def THREAD_LOCK_locked Let_def prod.case by (rule sat_kbind) simp
qed

lemma sem_kept_trywait:
  assumes "sem_kept f X k" "sem_trywait s k = Ret v k'"
  shows "sem_kept (if v = NO_ERROR then counted s (-1) f else f) X k'"
proof -
  have "sem_kept (counted s (-1) f) X (upd_sem s (\<lambda>x. x\<lparr>s_count := s_count x - 1\<rparr>) (locked k))"
    using sem_kept_count(2) [of f X "locked k" s 1] assms by (simp add: counted_def)
  with assms show ?thesis
    by (auto simp: sem_trywait_def THREAD_LOCK_locked Let_def err_defs split: if_splits)
qed

lemma counted_back: "sem_kept f X k \<Longrightarrow>
    sem_kept f X (upd_sem s (\<lambda>x. x\<lparr>s_count := s_count x + 1\<rparr>) (upd_sem s (\<lambda>x. x\<lparr>s_count := s_count x - 1\<rparr>) k))"
  by (auto simp: sem_kept_def calm_def upd_sem_def fun_eq_iff)

lemma sem_kept_timedwait:
  assumes "sem_kept f X k" "timeout \<noteq> 0 \<Longrightarrow> current_thread k \<in> X s"
  shows "timeout \<noteq> 0 \<Longrightarrow> sat (sem_kept (counted s (-1) f) X) (settle (sem_timedwait s timeout [] k))"
    and "timeout = 0 \<Longrightarrow> settle (sem_timedwait s timeout [] k) = Ret v k' \<Longrightarrow>
      sem_kept (if v = NO_ERROR then counted s (-1) f else f) X k'"
proof -
  let ?k = "upd_sem s (\<lambda>x. x\<lparr>s_count := s_count x - 1\<rparr>) (locked k)"
  have kc: "sem_kept (counted s (-1) f) X ?k"
    using sem_kept_count(2) [of f X "locked k" s 1] assms(1) by (simp add: counted_def)
  { assume t: "timeout \<noteq> 0"
    have resumed: "sat (sem_kept g X) (kbind (wait_queue_block_end INFINITE_TIME k1) (sem_timedwait_end s st))"
      if "sem_kept g X k1" for g k1 st
    proof -
      have "t_wait_queue_block_ret (threads k1 (current_thread k1)) \<noteq> ERR_TIMED_OUT"
        using that by (simp add: sem_kept_def calm_def)
      with that show ?thesis by (simp add: wait_queue_block_end_def sem_timedwait_end_def)
    qed
    have "sat (sem_kept (counted s (-1) f) X)
        (kbind (wait_queue_block (Sem_wait s) timeout [In_sem_timedwait s st] ?k) (sem_timedwait_end s st))" for st
    proof (cases "timeout = INFINITE_TIME")
      case True
      have "sem_kept (counted s (-1) f) X (wq_enqueue (Sem_wait s) ?k)"
        using kc assms(2) t by (intro sem_kept_enqueue) auto
      then have "sat (sem_kept (counted s (-1) f) X)
          (kbind (thread_resched [In_wait_queue_block INFINITE_TIME, In_sem_timedwait s st] (wq_enqueue (Sem_wait s) ?k))
            (\<lambda>_ k. kbind (wait_queue_block_end INFINITE_TIME k) (sem_timedwait_end s st)))"
        by (intro sat_kbind sem_kept_resched resumed) auto
      with True show ?thesis by (simp add: wait_queue_block_def INFINITE_TIME_def Let_def kbind_assoc)
    next
      case False
      with t show ?thesis by (simp add: wait_queue_block_def timer_initialize_def Let_def)
    qed
    then show "sat (sem_kept (counted s (-1) f) X) (settle (sem_timedwait s timeout [] k))"
      using kc by (intro sem_kept_settle) (simp add: sem_timedwait_def THREAD_LOCK_locked Let_def) }
  { assume "timeout = 0" "settle (sem_timedwait s timeout [] k) = Ret v k'"
    with kc counted_back [of f X "locked k" s] assms(1)
    show "sem_kept (if v = NO_ERROR then counted s (-1) f else f) X k'"
      by (auto simp: sem_timedwait_def THREAD_LOCK_locked Let_def wait_queue_block_timeout_0 sem_timedwait_end_def
          err_defs split: if_splits) }
qed

lemma sem_kept_init:
  "sem_kept f X k \<Longrightarrow> sem_kept (f(s := \<lparr>s_magic = SEMAPHORE_MAGIC, s_count = n\<rparr>)) X (sem_init s n k)"
  unfolding sem_init_def by (intro sem_kept_wq_init sem_kept_upd_sem)

lemma sem_kept_sem_destroy:
  assumes "sem_kept f X k"
  shows "sat (sem_kept (f(s := (f s)\<lparr>s_count := 0\<rparr>)) X) (sem_destroy s [] k)"
proof -
  have "sem_kept (f(s := (f s)\<lparr>s_count := 0\<rparr>)) X (upd_sem s (\<lambda>x. x\<lparr>s_count := 0\<rparr>) (locked k))"
    by (rule sem_kept_upd_sem) (simp add: assms)
  then show ?thesis
    unfolding sem_destroy_def THREAD_LOCK_locked Let_def prod.case
    by (intro sat_kbind sem_kept_destroy) simp_all
qed

section \<open>Steps and runs\<close>

text \<open>What a call does to the semaphore \<open>s\<close>: set it up anew, post it, or take from it.\<close>

fun resets :: "nat \<Rightarrow> kop \<Rightarrow> bool" where
  "resets s (Sem_init u n) \<longleftrightarrow> u = s"
| "resets s (Sem_destroy u) \<longleftrightarrow> u = s"
| "resets s _ \<longleftrightarrow> False"

fun posts_to :: "nat \<Rightarrow> kop \<Rightarrow> bool" where
  "posts_to s (Sem_post u r) \<longleftrightarrow> u = s"
| "posts_to s _ \<longleftrightarrow> False"

fun takes_from :: "nat \<Rightarrow> kop \<Rightarrow> int \<Rightarrow> bool" where
  "takes_from s (Sem_wait_op u) v \<longleftrightarrow> u = s"
| "takes_from s (Sem_trywait u) v \<longleftrightarrow> u = s \<and> v = NO_ERROR"
| "takes_from s (Sem_timedwait u timeout) v \<longleftrightarrow> u = s \<and> (timeout = 0 \<longrightarrow> v = NO_ERROR)"
| "takes_from s _ v \<longleftrightarrow> False"

definition sem_change :: "nat \<Rightarrow> kop \<Rightarrow> int \<Rightarrow> int" where
  "sem_change s a v = of_bool (posts_to s a) - of_bool (takes_from s a v)"

lemma kstep_sem_kept:
  assumes "calm k" "kstep k a v k'"
  obtains f where "sem_kept f (\<lambda>s. if takes_from s a v then insert (current_thread k) (set (waiters k (Sem_wait s)))
      else set (waiters k (Sem_wait s))) k'"
    "\<And>s. \<not> resets s a \<Longrightarrow> s_count (f s) = s_count (sems k s) + sem_change s a v"
proof -
  let ?X = "\<lambda>s. if takes_from s a v then insert (current_thread k) (set (waiters k (Sem_wait s)))
      else set (waiters k (Sem_wait s))"
  have ret: "settle (exec a k) = Ret v k'" using assms(2) by (cases rule: kstep_cases)
  have k: "sem_kept (sems k) ?X k"
    by (rule sem_kept_mono [OF sem_kept_self [OF assms(1)]]) auto
  have settled: "sem_kept f ?X k'" if "sat (sem_kept f ?X) (exec a k)" for f
    using sem_kept_settle [OF that] ret by simp
  show thesis
  proof (cases "on_sem a")
    case None
    then have "sem_change s a v = 0" for s by (cases a) (simp_all add: sem_change_def)
    with settled [OF sem_kept_exec [OF k None]] show ?thesis by (intro that) auto
  next
    case (Some u)
    then show ?thesis
    proof (cases a)
      case (Sem_init s n)
      with settled sem_kept_init [OF k, of s "int n"] show ?thesis
        by (intro that [of "(sems k)(s := \<lparr>s_magic = SEMAPHORE_MAGIC, s_count = int n\<rparr>)"]) (auto simp: sem_change_def)
    next
      case (Sem_destroy s)
      with settled sem_kept_sem_destroy [OF k, of s] show ?thesis
        by (intro that [of "(sems k)(s := (sems k s)\<lparr>s_count := 0\<rparr>)"]) (auto simp: sem_change_def)
    next
      case (Sem_post s r)
      with settled sem_kept_post [OF k, of s r] show ?thesis
        by (intro that [of "counted s 1 (sems k)"]) (auto simp: sem_change_def counted_def)
    next
      case (Sem_wait_op s)
      with settled sem_kept_wait [OF k, of s] show ?thesis
        by (intro that [of "counted s (-1) (sems k)"]) (auto simp: sem_change_def counted_def)
    next
      case (Sem_trywait s)
      then have "sem_trywait s k = Ret v k'"
        using ret by (auto simp: sem_trywait_def Let_def split: prod.splits if_splits)
      from sem_kept_trywait [OF k this] Sem_trywait show ?thesis
        by (intro that [of "if v = NO_ERROR then counted s (-1) (sems k) else sems k"]) (auto simp: sem_change_def counted_def)
    next
      case (Sem_timedwait s timeout)
      show ?thesis
      proof (cases "timeout = 0")
        case True
        with sem_kept_timedwait(2) [OF k, of timeout s v k'] Sem_timedwait ret show ?thesis
          by (intro that [of "if v = NO_ERROR then counted s (-1) (sems k) else sems k"]) (auto simp: sem_change_def counted_def)
      next
        case False
        with sem_kept_timedwait(1) [OF k, of timeout s] Sem_timedwait ret show ?thesis
          by (intro that [of "counted s (-1) (sems k)"]) (auto simp: sem_change_def counted_def)
      qed
    qed simp_all
  qed
qed

lemma kstep_sem:
  assumes "calm k" "kstep k a v k'"
  shows "calm k'" "\<not> resets s a \<Longrightarrow> s_count (sems k' s) = s_count (sems k s) + sem_change s a v"
    "set (waiters k' (Sem_wait s)) \<subseteq> set (waiters k (Sem_wait s)) \<union> (if takes_from s a v then {current_thread k} else {})"
  by (rule kstep_sem_kept [OF assms]; force simp: sem_kept_def split: if_splits)+

lemma sem_kept_set_priority:
  "sem_kept f X k \<Longrightarrow> sat (sem_kept f X) (thread_set_priority p [] k)"
  unfolding thread_set_priority_def THREAD_LOCK_locked Let_def prod.case
  by (intro sat_kbind sem_kept_resched) (auto simp: Let_def)

lemma kstart_sem_kept:
  assumes "kstart k"
  shows "sem_kept (sems zero_kernel) (\<lambda>_. {}) k"
proof -
  have zero: "sem_kept (sems zero_kernel) (\<lambda>_. {}) (thread_init (thread_init_early t zero_kernel))" for t
    by (simp add: sem_kept_def calm_def thread_init_def thread_init_early_def init_thread_struct_def
        wait_queue_init_def upd_wq_def upd_thread_def zero_kernel_def zero_thread_def err_defs Let_def plain_calm)
  have init: "sat (sem_kept (sems zero_kernel) (\<lambda>_. {})) (lkl_thread_init t stk)" for t stk
    using sem_kept_create [OF zero [of t], of "Some idle_thread" "''idle''" 0 0 IDLE_PRIORITY None DEFAULT_STACK_SIZE None stk]
    by (auto simp: lkl_thread_init_def thread_create_idle_def Let_def split_beta
        intro!: sat_kbind sem_kept_detach sem_kept_set_priority)
  from assms show ?thesis
  proof cases
    case (boot t stk v)
    with init [of t "Some stk"] show ?thesis by simp
  qed
qed

interpretation calm_machine: invariant_machine kstart kstep calm
  by unfold_locales (auto intro: kstep_sem(1) dest: kstart_sem_kept simp: sem_kept_def)

lemma reachable_calm: "reachable k \<Longrightarrow> calm k"
  by (auto simp: reachable_def dest: calm_machine.run_inv)

definition posts :: "nat \<Rightarrow> (kop \<times> int) list \<Rightarrow> nat" where
  "posts s tr = length (filter (\<lambda>(a, v). posts_to s a) tr)"

definition takes :: "nat \<Rightarrow> (kop \<times> int) list \<Rightarrow> nat" where
  "takes s tr = length (filter (\<lambda>(a, v). takes_from s a v) tr)"

lemma posts_takes_simps [simp]:
  "posts s [] = 0" "posts s ((a, v) # tr) = (if posts_to s a then 1 else 0) + posts s tr"
  "posts s (tr @ tr') = posts s tr + posts s tr'"
  "takes s [] = 0" "takes s ((a, v) # tr) = (if takes_from s a v then 1 else 0) + takes s tr"
  "takes s (tr @ tr') = takes s tr + takes s tr'"
  by (simp_all add: posts_def takes_def)

lemma run_sem_count:
  assumes "run kstep k tr k'" "calm k" "list_all (\<lambda>(a, v). \<not> resets s a) tr"
  shows "calm k' \<and> s_count (sems k' s) = s_count (sems k s) + int (posts s tr) - int (takes s tr)"
  using assms
proof (induction rule: run.induct)
  case (run_snoc k tr k' a v k'')
  then have k': "calm k'" "s_count (sems k' s) = s_count (sems k s) + int (posts s tr) - int (takes s tr)"
    by auto
  have "\<not> resets s a" using run_snoc.prems(2) by simp
  with kstep_sem(1) [OF k'(1) run_snoc.hyps(2)] kstep_sem(2) [OF k'(1) run_snoc.hyps(2), of s] k'(2)
  show ?case by (simp add: sem_change_def)
qed simp

end
