(* ===== verification/Lk_Properties.thy ===== *)
theory Lk_Properties imports Lk_Semaphores begin

text \<open>
  What the thread package guarantees: which thread the dispatcher picks, what yielding and
  preemption do, mutual exclusion, the branches of the mutex, semaphore and event calls, joining and
  exiting, the order of waking down to the list pointers, and the places where the code departs
  from its documentation.
\<close>

section \<open>Example states\<close>

text \<open>
  Small kernel states for the examples: the bootstrap thread 1 runs, thread 2 is blocked on \<open>w\<close> or
  ready.
\<close>

definition demo_blocked :: "wq_ref \<Rightarrow> frame \<Rightarrow> kernel" where
  "demo_blocked w f = zero_kernel
     \<lparr>threads := (\<lambda>_. zero_thread)
        (0 := zero_thread\<lparr>t_flags := THREAD_FLAG_DETACHED\<rparr>,
         1 := zero_thread\<lparr>t_state := THREAD_RUNNING, t_priority := 16\<rparr>,
         2 := zero_thread\<lparr>t_state := THREAD_BLOCKED, t_priority := 16, t_blocking_wait_queue := Some w\<rparr>),
      thread_list := [0, 1, 2], current_thread := 1,
      wait_queues := (wait_queues zero_kernel)(w := \<lparr>wq_magic = WAIT_QUEUE_MAGIC, wq_list = [2], wq_count = 1\<rparr>),
      mutexes := (mutexes zero_kernel)
        (0 := \<lparr>m_magic = MUTEX_MAGIC, m_holder = Some 1, m_count = (if w = Mutex_wait 0 then 2 else 1)\<rparr>,
         1 := \<lparr>m_magic = MUTEX_MAGIC, m_holder = None, m_count = 0\<rparr>),
      sems := (sems zero_kernel)(0 := \<lparr>s_magic = SEMAPHORE_MAGIC, s_count = (if w = Sem_wait 0 then -1 else 0)\<rparr>),
      stacks := (\<lambda>_. [])(0 := [In_initial_thread], 2 := [In_wait_queue_block INFINITE_TIME, f])\<rparr>"

definition demo_ready :: "int \<Rightarrow> kernel" where
  "demo_ready q = zero_kernel
     \<lparr>threads := (\<lambda>_. zero_thread)
        (0 := zero_thread\<lparr>t_flags := THREAD_FLAG_DETACHED\<rparr>,
         1 := zero_thread\<lparr>t_state := THREAD_RUNNING, t_priority := 16, t_remaining_quantum := q,
               t_flags := THREAD_FLAG_DETACHED\<rparr>,
         2 := zero_thread\<lparr>t_state := THREAD_READY, t_priority := 16\<rparr>),
      thread_list := [0, 1, 2], current_thread := 1,
      run_queue := (\<lambda>_. [])(16 := [2]), run_queue_bitmap := push_bit 16 1,
      stacks := (\<lambda>_. [])(0 := [In_initial_thread], 2 := [In_initial_thread])\<rparr>"

lemma demo_ready_simps [simp]:
  "bit (run_queue_bitmap (demo_ready q)) p \<longleftrightarrow> p = 16"
  "threads (demo_ready q) t =
     (if t = 0 then zero_thread\<lparr>t_flags := THREAD_FLAG_DETACHED\<rparr>
      else if t = 1 then zero_thread\<lparr>t_state := THREAD_RUNNING, t_priority := 16, t_remaining_quantum := q,
             t_flags := THREAD_FLAG_DETACHED\<rparr>
      else if t = 2 then zero_thread\<lparr>t_state := THREAD_READY, t_priority := 16\<rparr> else zero_thread)"
  "run_queue (demo_ready q) = (\<lambda>_. [])(16 := [2])"
  "thread_list (demo_ready q) = [0, 1, 2]" "current_thread (demo_ready q) = 1"
  "wait_queues (demo_ready q) w = \<lparr>wq_magic = 0, wq_list = [], wq_count = 0\<rparr>"
  "m_magic (mutexes (demo_ready q) m) = 0" "s_count (sems (demo_ready q) s) = 0"
  "e_signaled (events (demo_ready q) e) = False" "thread_lock (demo_ready q) = 0"
  "stacks (demo_ready q) t = (if t = 0 \<or> t = 2 then [In_initial_thread] else [])"
proof -
  have "bit (push_bit 16 1 :: u32) p \<longleftrightarrow> p = 16"
    by (subst bit_push_bit_iff) (auto simp: bit_1_iff)
  then show "bit (run_queue_bitmap (demo_ready q)) p \<longleftrightarrow> p = 16"
    by (simp add: demo_ready_def)
qed (simp_all add: demo_ready_def zero_kernel_def)

lemma demo_blocked_simps [simp]:
  "threads (demo_blocked w f) t =
     (if t = 0 then zero_thread\<lparr>t_flags := THREAD_FLAG_DETACHED\<rparr>
      else if t = 1 then zero_thread\<lparr>t_state := THREAD_RUNNING, t_priority := 16\<rparr>
      else if t = 2 then zero_thread\<lparr>t_state := THREAD_BLOCKED, t_priority := 16, t_blocking_wait_queue := Some w\<rparr>
      else zero_thread)"
  "run_queue (demo_blocked w f) = (\<lambda>_. [])" "run_queue_bitmap (demo_blocked w f) = 0"
  "thread_list (demo_blocked w f) = [0, 1, 2]" "current_thread (demo_blocked w f) = 1"
  "waiters (demo_blocked w f) v = (if v = w then [2] else [])"
  "wq_count (wait_queues (demo_blocked w f) v) = (if v = w then 1 else 0)"
  "mutexes (demo_blocked w f) m =
     (if m = 0 then \<lparr>m_magic = MUTEX_MAGIC, m_holder = Some 1, m_count = (if w = Mutex_wait 0 then 2 else 1)\<rparr>
      else if m = 1 then \<lparr>m_magic = MUTEX_MAGIC, m_holder = None, m_count = 0\<rparr>
      else \<lparr>m_magic = 0, m_holder = None, m_count = 0\<rparr>)"
  "s_count (sems (demo_blocked w f) s) = (if s = 0 \<and> w = Sem_wait 0 then -1 else 0)"
  "e_signaled (events (demo_blocked w f) e) = False" "e_flags (events (demo_blocked w f) e) = 0"
  "thread_lock (demo_blocked w f) = 0"
  "stacks (demo_blocked w f) t = (if t = 0 then [In_initial_thread]
     else if t = 2 then [In_wait_queue_block INFINITE_TIME, f] else [])"
  by (simp_all add: demo_blocked_def zero_kernel_def)

lemma zero_thread_simps [simp]:
  "t_state zero_thread = THREAD_SUSPENDED" "t_priority zero_thread = 0" "t_flags zero_thread = 0"
  "t_blocking_wait_queue zero_thread = None" "t_wait_queue_block_ret zero_thread = 0"
  by (simp_all add: zero_thread_def)

lemma demo_flags: "THREAD_FLAG_DETACHED AND THREAD_FLAG_IDLE = 0" "THREAD_FLAG_DETACHED \<noteq> 0"
  by (simp_all add: flag_defs)

lemma demo_ready_user_inv: "user_inv (demo_ready q)"
proof -
  have "sched_inv (demo_ready q)"
    by (auto simp: sched_inv_def inv_defs idle_thread_def)
  moreover have "object_inv (demo_ready q)"
    by (auto simp: obj_defs idle_thread_def ready_stack_def MUTEX_MAGIC_def demo_flags)
  ultimately show ?thesis by (simp add: user_inv_def)
qed

lemma demo_blocked_user_inv:
  assumes "after_block w f" "w = Mutex_wait 0 \<or> w = Sem_wait 0 \<or> w = Event_wait 0 \<or> w = Retcode_wait 1"
  shows "user_inv (demo_blocked w f)"
proof -
  have "sched_inv (demo_blocked w f)"
    by (auto simp: sched_inv_def inv_defs idle_thread_def)
  moreover have g: "granted (demo_blocked w f) m = {}" for m
    by (auto simp: granted_def runnable_def)
  have "stack_ok (demo_blocked w f)"
    using assms(1) by (auto simp: stack_ok_def runnable_def blocked_stack_def)
  moreover have "mutex_ok (demo_blocked w f) m" for m
    using assms(2) by (auto simp: mutex_ok_def g live_mutex_ok_def mutex_busy_def MUTEX_MAGIC_def)
  moreover have "sem_ok (demo_blocked w f) s" for s
    using assms(2) by (auto simp: sem_ok_def)
  moreover have "event_ok (demo_blocked w f) e" for e
    by (auto simp: event_ok_def)
  moreover have "join_ok (demo_blocked w f) t" for t
    using assms(2) by (auto simp: join_ok_def)
  moreover have "idle_set_up (demo_blocked w f)"
    by (auto simp: idle_set_up_def thread_is_idle_def idle_thread_def demo_flags)
  ultimately show ?thesis by (simp add: user_inv_def object_inv_def)
qed

section \<open>The dispatcher\<close>

fun highest_ready :: "(nat \<Rightarrow> tid list) \<Rightarrow> nat \<Rightarrow> tid option" where
  "highest_ready q 0 = None"
| "highest_ready q (Suc n) = (case q n of t # _ \<Rightarrow> Some t | [] \<Rightarrow> highest_ready q n)"

lemma highest_ready_top:
  "q p = t # ts \<Longrightarrow> (\<And>r. p < r \<Longrightarrow> q r = []) \<Longrightarrow> p < n \<Longrightarrow> highest_ready q n = Some t"
  by (induction n) (auto simp: less_Suc_eq)

lemma highest_ready_None: "(\<And>p. q p = []) \<Longrightarrow> highest_ready q n = None"
  by (induction n) simp_all

text \<open>C7: The bitmap search of get_top_thread (count leading zeros, clear the bit, try again) is the head
  of the highest non-empty run queue of the reference definition, or the idle thread.\<close>

theorem get_top_thread_highest:
  assumes "runq_ok T k"
  shows "fst (get_top_thread k) =
    (case highest_ready (run_queue k) NUM_PRIORITIES of Some t \<Rightarrow> t | None \<Rightarrow> idle_thread)"
  using assms
proof (cases rule: get_top_thread_cases)
  case idle
  then show ?thesis by (simp add: highest_ready_None)
next
  case (top p t ts)
  then have "bit (run_queue_bitmap k) p" using assms by (simp add: runq_ok_def)
  then have "p < NUM_PRIORITIES" by (auto simp: NUM_PRIORITIES_def dest: bit_imp_le_length)
  with top show ?thesis by (simp add: highest_ready_top)
qed

lemma get_top_thread_highest_witness: "fst (get_top_thread (demo_ready 0)) = 2"
proof -
  have "runq_ok {} (demo_ready 0)"
    using demo_ready_user_inv [of 0] by (simp add: user_inv_def sched_inv_def base_inv_def)
  from get_top_thread_highest [OF this] show ?thesis by (simp add: NUM_PRIORITIES_def numeral_eq_Suc)
qed

lemma resched_stays:
  assumes "parked k" "thread_resched fs k = Ret v k'" "tstate k (current_thread k) = THREAD_READY"
  defines "p \<equiv> nat (tprio k (current_thread k))"
  shows "\<exists>ts. run_queue k p = current_thread k # ts" "\<And>q. p < q \<Longrightarrow> run_queue k q = []"
proof -
  have base: "base_inv {} k" using assms(1) by (simp add: parked_def)
  then have rq: "runq_ok {} k" by (simp add: base_inv_def)
  have pr: "int p = tprio k (current_thread k)" using base by (simp add: p_def base_inv_prio)
  have mem: "current_thread k \<in> set (run_queue k p)" using assms(3) rq pr by (simp add: runq_ok_def)
  from rq have "(\<exists>ts. run_queue k p = current_thread k # ts) \<and> (\<forall>q>p. run_queue k q = [])"
  proof (cases rule: get_top_thread_cases)
    case idle
    with mem show ?thesis by simp
  next
    case (top r t ts)
    with assms(2) have t: "t = current_thread k" by (auto simp: thread_resched_eq Let_def split: if_splits)
    have "t \<in> set (run_queue k r)" using top(1) by simp
    with rq t pr have "r = p" by (simp add: runq_ok_def)
    with top t show ?thesis by blast
  qed
  then show "\<exists>ts. run_queue k p = current_thread k # ts" "\<And>q. p < q \<Longrightarrow> run_queue k q = []" by blast+
qed

lemma yield_parked:
  assumes k: "user_inv k"
  defines "k1 \<equiv> insert_in_run_queue_tail (current_thread k)
    (upd_thread (current_thread k) (\<lambda>x. x\<lparr>t_remaining_quantum := 0\<rparr>)
      (set_state (current_thread k) THREAD_READY (locked k)))"
  shows "thread_yield fs k = kbind (thread_resched (In_thread_yield (irq_state k) # fs) k1)
      (\<lambda>_ k'. ret_void (THREAD_UNLOCK (irq_state k) k'))"
    and "parked k1" and "run_queue k1 p =
      (if p = nat (tprio k (current_thread k)) then run_queue k p @ [current_thread k] else run_queue k p)"
proof -
  let ?c = "current_thread k"
  note u = user_invD [OF k]
  show "thread_yield fs k = kbind (thread_resched (In_thread_yield (irq_state k) # fs) k1)
      (\<lambda>_ k'. ret_void (THREAD_UNLOCK (irq_state k) k'))"
    using not_idle_flag [OF k, of ?c]
    by (simp add: thread_yield_def THREAD_LOCK_locked Let_def thread_is_idle_def set_state_def k1_def)
  have "base_inv {?c} (set_state ?c THREAD_READY (locked k))"
    unfolding set_state_def using u by (intro base_inv_make_ready) simp_all
  then have "base_inv {?c} (upd_thread ?c (\<lambda>x. x\<lparr>t_remaining_quantum := 0\<rparr>) (set_state ?c THREAD_READY (locked k)))"
    by (simp add: base_inv_quantum)
  from base_inv_insert_tail [OF this, of ?c] have "base_inv {} k1" by (simp add: k1_def)
  moreover have "tstate k t = THREAD_RUNNING \<longleftrightarrow> t = ?c" for t using u(1) by (simp add: sched_inv_def)
  ultimately show "parked k1" by (simp add: parked_def k1_def set_state_def)
  show "run_queue k1 p = (if p = nat (tprio k ?c) then run_queue k p @ [?c] else run_queue k p)"
    by (simp add: k1_def insert_in_run_queue_tail_def set_state_def Let_def)
qed

lemma thread_yield_stays:
  assumes k: "user_inv k" and stay: "thread_yield fs k = Ret v k'" and t: "tstate k t = THREAD_READY"
  shows "tprio k t < tprio k (current_thread k)"
proof -
  let ?c = "current_thread k" and ?p = "nat (tprio k (current_thread k))"
  define k1 where "k1 = insert_in_run_queue_tail ?c (upd_thread ?c (\<lambda>x. x\<lparr>t_remaining_quantum := 0\<rparr>)
      (set_state ?c THREAD_READY (locked k)))"
  note y = yield_parked [OF k, folded k1_def] and u = user_invD [OF k]
  obtain v' k2 where r: "thread_resched (In_thread_yield (irq_state k) # fs) k1 = Ret v' k2"
    using stay y(1) [of fs] by (cases "thread_resched (In_thread_yield (irq_state k) # fs) k1") simp_all
  have c1: "current_thread k1 = ?c" "tprio k1 ?c = tprio k ?c" "tstate k1 ?c = THREAD_READY"
    by (simp_all add: k1_def set_state_def)
  have "\<exists>ts. run_queue k1 ?p = ?c # ts" "\<And>q. ?p < q \<Longrightarrow> run_queue k1 q = []"
    using resched_stays [OF y(2) r] by (simp_all add: c1)
  then have hd: "\<exists>ts. run_queue k ?p @ [?c] = ?c # ts" and up: "\<And>q. ?p < q \<Longrightarrow> run_queue k q = []"
    by (simp_all add: y(3))
  have mem: "u \<in> set (run_queue k q) \<longleftrightarrow> tstate k u = THREAD_READY \<and> tprio k u = int q" for u q
    using u(5) by (simp add: base_inv_def runq_ok_def)
  have "?c \<notin> set (run_queue k ?p)" using mem [of ?c ?p] u(6) by simp
  with hd have empty: "run_queue k ?p = []" by (cases "run_queue k ?p") auto
  have "t \<in> set (run_queue k (nat (tprio k t)))" using t mem u(5) by (simp add: base_inv_prio)
  with empty up have "nat (tprio k t) \<noteq> ?p" "\<not> ?p < nat (tprio k t)" by (metis empty_iff list.set(1))+
  then show ?thesis by linarith
qed


text \<open>A thread that yields to one of at least its priority gives the processor away.\<close>

lemma thread_yield_gives_way:
  assumes k: "user_inv k" and t: "tstate k t = THREAD_READY" and p: "tprio k (current_thread k) \<le> tprio k t"
  shows "\<exists>k'. thread_yield fs k = Switch k' \<and> current_thread k' \<noteq> current_thread k \<and>
    tprio k t \<le> tprio k (current_thread k')"
proof -
  define k1 where "k1 = insert_in_run_queue_tail (current_thread k)
      (upd_thread (current_thread k) (\<lambda>x. x\<lparr>t_remaining_quantum := 0\<rparr>)
        (set_state (current_thread k) THREAD_READY (locked k)))"
  note y = yield_parked [OF k, folded k1_def]
  have c1: "current_thread k1 = current_thread k" "tprio k1 u = tprio k u"
    "tstate k1 t = THREAD_READY" for u
    using t by (simp_all add: k1_def set_state_def)
  from y(2) show ?thesis
  proof (cases rule: thread_resched_cases [where fs = "In_thread_yield (irq_state k) # fs"])
    case (stay k')
    then have "thread_yield fs k = ret_void (THREAD_UNLOCK (irq_state k) k')" by (simp add: y(1))
    from thread_yield_stays [OF k this t] p show ?thesis by simp
  next
    case (switch k')
    have "\<forall>u. tstate k1 u = THREAD_READY \<longrightarrow> tprio k1 u \<le> tprio k1 (current_thread k')"
      using switch(2) by (simp add: resched_rel_def)
    with c1(3) have "tprio k1 t \<le> tprio k1 (current_thread k')" by blast
    with switch c1 show ?thesis by (simp add: y(1))
  qed
qed

lemma thread_yield_gives_way_witness:
  "\<exists>k'. thread_yield [] (demo_ready 0) = Switch k' \<and> current_thread k' \<noteq> 1 \<and>
     16 \<le> tprio (demo_ready 0) (current_thread k')"
  using thread_yield_gives_way [OF demo_ready_user_inv [of 0], of 2 "[]"] by auto

text \<open>The current thread at the head of the highest non-empty queue is dispatched again.\<close>

lemma get_top_thread_head:
  assumes "runq_ok {} k" and "run_queue k p = c # ts" and "\<And>q. p < q \<Longrightarrow> run_queue k q = []"
  shows "fst (get_top_thread k) = c"
  using assms(1)
proof (cases rule: get_top_thread_cases)
  case idle
  with assms(2) show ?thesis by simp
next
  case (top r t us)
  then have "r = p" using assms(2,3) by (metis linorder_neqE_nat list.distinct(1))
  with top assms(2) show ?thesis by simp
qed

lemma thread_resched_stays:
  assumes park: "parked k" and top: "fst (get_top_thread k) = current_thread k"
  obtains k' where "thread_resched fs k = Ret 0 k'" "current_thread k' = current_thread k"
  using park
proof (cases rule: thread_resched_cases [where fs = fs])
  case (stay k')
  with that show ?thesis by simp
next
  case (switch k')
  then show ?thesis using top by (auto simp: thread_resched_eq Let_def split: prod.splits if_splits)
qed

text \<open>A preempted thread that has quantum left keeps the processor when no ready thread has a higher
  priority.\<close>

lemma thread_preempt_quantum:
  assumes k: "user_inv k" and q: "t_remaining_quantum (threads k (current_thread k)) > 0"
    and none: "\<And>t. tstate k t = THREAD_READY \<Longrightarrow> tprio k t \<le> tprio k (current_thread k)"
  shows "\<exists>k'. thread_preempt fs k = ret_void k' \<and> current_thread k' = current_thread k"
proof -
  let ?c = "current_thread k" and ?p = "nat (tprio k (current_thread k))"
  note u = user_invD [OF k]
  define k1 where "k1 = insert_in_run_queue_head ?c (set_state ?c THREAD_READY (locked k))"
  have eq: "thread_preempt fs k = kbind (thread_resched (In_thread_preempt (irq_state k) # fs) k1)
      (\<lambda>_ k'. ret_void (THREAD_UNLOCK (irq_state k) k'))"
    using not_idle_flag [OF k, of ?c] q
    by (simp add: thread_preempt_def THREAD_LOCK_locked Let_def thread_is_idle_def set_state_def k1_def)
  have run: "tstate k t = THREAD_RUNNING \<longleftrightarrow> t = ?c" for t using u(1) by (simp add: sched_inv_def)
  have base: "base_inv {} k1"
    unfolding k1_def using u by (intro base_inv_ready_insert) simp_all
  with run have park: "parked k1" by (simp add: parked_def k1_def set_state_def)
  have q1: "run_queue k1 r = (if r = ?p then ?c # run_queue k r else run_queue k r)" for r
    by (simp add: k1_def insert_in_run_queue_head_def set_state_def Let_def)
  have "run_queue k r = []" if "?p < r" for r
  proof (rule ccontr)
    assume "run_queue k r \<noteq> []"
    then obtain t where "t \<in> set (run_queue k r)" by (cases "run_queue k r") auto
    then have t: "tstate k t = THREAD_READY" "tprio k t = int r"
      using u(5) by (auto simp: base_inv_def runq_ok_def)
    from none [OF t(1)] t(2) that show False by linarith
  qed
  moreover have c1: "current_thread k1 = ?c" by (simp add: k1_def set_state_def)
  ultimately have "fst (get_top_thread k1) = current_thread k1"
    using base by (intro get_top_thread_head [of k1 ?p]) (auto simp: base_inv_def q1)
  with park obtain k2 where "thread_resched (In_thread_preempt (irq_state k) # fs) k1 = Ret 0 k2"
    "current_thread k2 = current_thread k1" by (rule thread_resched_stays)
  then show ?thesis by (simp add: eq c1)
qed

text \<open>C6: thread_resched switches to a ready thread of the highest priority (the idle thread when none is
  ready) and leaves the scheduler invariant intact.\<close>

theorem resched_picks_highest:
  assumes "parked k"
  shows "\<exists>k'. (thread_resched fs k = ret_void k' \<or> thread_resched fs k = Switch k') \<and>
    sched_inv k' \<and> (\<forall>t. tstate k t = THREAD_READY \<longrightarrow> tprio k t \<le> tprio k (current_thread k')) \<and>
    ((\<exists>t. tstate k t = THREAD_READY) \<longrightarrow> tstate k (current_thread k') = THREAD_READY) \<and>
    ((\<forall>t. tstate k t \<noteq> THREAD_READY) \<longrightarrow> current_thread k' = idle_thread)"
  using assms
  by (cases rule: thread_resched_cases [where fs = fs]) (auto simp: resched_rel_def)

lemma zero_kernel_parked: "parked zero_kernel"
  by (simp add: parked_def inv_defs zero_kernel_def zero_thread_def)

lemma resched_picks_highest_witness:
  "\<exists>k'. (thread_resched [] zero_kernel = ret_void k' \<or> thread_resched [] zero_kernel = Switch k') \<and>
     current_thread k' = idle_thread"
  using resched_picks_highest [OF zero_kernel_parked, of "[]"] by (auto simp: zero_kernel_def)

section \<open>Where a call leaves the kernel\<close>

fun kernel_of :: "kres \<Rightarrow> kernel option" where
  "kernel_of (Ret v k) = Some k"
| "kernel_of (Switch k) = Some k"
| "kernel_of (Panic s) = None"

lemma kernel_of_resched:
  assumes "parked k" "tstate k r = THREAD_READY"
  obtains k' where "kernel_of (kbind (thread_resched fs k) (\<lambda>_ k. Ret v (THREAD_UNLOCK st k))) = Some k'"
    "same_objects k k'" "wait_queues k' = wait_queues k"
    "\<And>t. runnable k' t \<longleftrightarrow> runnable k t"
    "\<And>t. same_thread (threads k t) (threads k' t)"
    "\<And>t. t \<noteq> current_thread k \<Longrightarrow> stacks k' t = stacks k t"
    "stacks k' (current_thread k) \<in> {fs, stacks k (current_thread k)}"
proof -
  have ready: "runnable k (current_thread k')" if "resched_rel k k'" for k'
    using that assms(2) by (auto simp: resched_rel_def runnable_def)
  from assms(1) show thesis
  proof (cases rule: thread_resched_cases [where fs = fs])
    case (stay k')
    note r = resched_runnable(1) [OF stay(2) assms(1)] ready [OF stay(2)]
    show ?thesis
      by (rule that [of "THREAD_UNLOCK st k'"])
        (use stay r in \<open>auto simp: resched_rel_def same_objects_def runnable_def\<close>)
  next
    case (switch k')
    note r = resched_runnable(1) [OF switch(2) assms(1)] ready [OF switch(2)]
    show ?thesis by (rule that [of k']) (use switch r in \<open>auto simp: resched_rel_def\<close>)
  qed
qed

text \<open>
  \<open>wait_queue_wake_one\<close> with a reschedule inside a call: what is left when it returns or gives
  the processor away.
\<close>

lemma kernel_of_wake_one:
  assumes sched: "sched_inv k" and un: "stacks k (current_thread k) = []" and ts: "waiters k w = t # ts"
    and f: "\<And>v k'. f v k' = Ret (g v) (THREAD_UNLOCK st k')"
  obtains k' where "kernel_of (kbind (wait_queue_wake_one w r err fs k) f) = Some k'"
    "same_objects k k'" "\<And>v. waiters k' v = (if v = w then ts else waiters k v)"
    "\<And>u. runnable k' u \<longleftrightarrow> runnable k u \<or> u = t"
    "\<And>u. t_wait_queue_block_ret (threads k' u) =
       (if u = t then err else t_wait_queue_block_ret (threads k u))"
    "\<And>u. u \<noteq> current_thread k \<Longrightarrow> stacks k' u = stacks k u"
    "stacks k' (current_thread k) \<in> {[], In_wait_queue_wake 1 # fs}"
proof -
  have run: "tstate k u = THREAD_RUNNING \<longleftrightarrow> u = current_thread k" for u
    using sched by (simp add: sched_inv_def)
  note tc = sched_inv_woken(2) [OF sched ts]
  have fe: "f = (\<lambda>v k'. Ret (g v) (THREAD_UNLOCK st k'))" using f by (intro ext)
  show thesis
  proof (cases r)
    case False
    have "kbind (wait_queue_wake_one w r err fs k) f = Ret (g 1) (THREAD_UNLOCK st (woken w t ts err k))"
      using False ts by (simp add: wait_queue_wake_one_def woken_def fe)
    then show thesis
      by (intro that [of "THREAD_UNLOCK st (woken w t ts err k)"])
        (use un in \<open>auto simp: same_objects_def runnable_def\<close>)
  next
    case True
    let ?k1 = "woken w t ts err (requeue_current k)"
    have eq: "kbind (wait_queue_wake_one w r err fs k) f =
        kbind (thread_resched (In_wait_queue_wake 1 # fs) ?k1) (\<lambda>_ k'. Ret (g 1) (THREAD_UNLOCK st k'))"
      using True ts woken_requeue [OF tc, of w ts err]
      by (simp add: wait_queue_wake_one_def Let_def kbind_assoc fe)
    have "base_inv {} ?k1"
      using base_inv_woken [OF base_inv_requeue_current [of "{}" k]] sched run ts
      by (simp add: sched_inv_def)
    then have "parked ?k1" using run by (simp add: parked_def)
    moreover have "tstate ?k1 t = THREAD_READY" by simp
    ultimately obtain k' where k': "kernel_of (kbind (thread_resched (In_wait_queue_wake 1 # fs) ?k1)
          (\<lambda>_ k. Ret (g 1) (THREAD_UNLOCK st k))) = Some k'"
      "same_objects ?k1 k'" "wait_queues k' = wait_queues ?k1"
      "\<And>u. runnable k' u \<longleftrightarrow> runnable ?k1 u" "\<And>u. same_thread (threads ?k1 u) (threads k' u)"
      "\<And>u. u \<noteq> current_thread ?k1 \<Longrightarrow> stacks k' u = stacks ?k1 u"
      "stacks k' (current_thread ?k1) \<in> {In_wait_queue_wake 1 # fs, stacks ?k1 (current_thread ?k1)}"
      by (rule kernel_of_resched [where fs = "In_wait_queue_wake 1 # fs" and v = "g 1" and st = st]) blast
    have r1: "runnable k' u \<longleftrightarrow> runnable k u \<or> u = t" for u
      using k'(4) run [of u] by (auto simp: runnable_def)
    have "t_wait_queue_block_ret (threads k' u) = (if u = t then err else t_wait_queue_block_ret (threads k u))" for u
      using k'(5) [of u] by (auto simp: same_thread_def split: if_splits)
    with r1 k' eq un show thesis by (intro that [of k']) (auto simp: same_objects_def)
  qed
qed

section \<open>Mutexes\<close>

definition owners :: "kernel \<Rightarrow> nat \<Rightarrow> tid set" where
  "owners k m = {t. m_holder (mutexes k m) = Some t} \<union> granted k m"

lemma live_mutex_owners:
  assumes "live_mutex_ok (mutexes k m) (waiters k (Mutex_wait m)) (granted k m)"
  shows "(\<forall>t\<in>owners k m. \<forall>u\<in>owners k m. t = u)"
    and "m_count (mutexes k m) = int (length (waiters k (Mutex_wait m)) + card (owners k m))"
    and "waiters k (Mutex_wait m) \<noteq> [] \<longrightarrow> owners k m \<noteq> {}"
proof -
  show one: "\<forall>t\<in>owners k m. \<forall>u\<in>owners k m. t = u"
    using assms by (auto simp: live_mutex_ok_def owners_def)
  have busy: "mutex_busy (mutexes k m) (granted k m) \<longleftrightarrow> owners k m \<noteq> {}"
    by (auto simp: mutex_busy_def owners_def)
  have "card (owners k m) = (if owners k m = {} then 0 else 1)"
  proof (cases "owners k m = {}")
    case False
    then obtain t where "t \<in> owners k m" by auto
    with one have "owners k m = {t}" by auto
    then show ?thesis by simp
  qed simp
  with assms busy show "m_count (mutexes k m) = int (length (waiters k (Mutex_wait m)) + card (owners k m))"
    "waiters k (Mutex_wait m) \<noteq> [] \<longrightarrow> owners k m \<noteq> {}"
    by (auto simp: live_mutex_ok_def)
qed

text \<open>An infinite wait for a busy mutex: the caller is at the end of the queue and another thread runs.\<close>

lemma mutex_acquire_blocks:
  assumes k: "user_inv k" and live: "m_magic (mutexes k m) = MUTEX_MAGIC"
    and c: "current_thread k \<noteq> idle_thread" and busy: "m_count (mutexes k m) \<noteq> 0"
  obtains k' where "mutex_acquire_timeout m INFINITE_TIME fs k = Switch k'"
    "waiters k' (Mutex_wait m) = waiters k (Mutex_wait m) @ [current_thread k]"
    "tstate k' (current_thread k) = THREAD_BLOCKED" "m_holder (mutexes k' m) = m_holder (mutexes k m)"
proof -
  let ?k = "upd_mutex m (\<lambda>x. x\<lparr>m_count := m_count x + 1\<rparr>) (locked k)"
  let ?fs = "In_mutex_acquire m (irq_state k) # fs"
  note u = user_invD [OF k] and cnt = mutex_count_busy [OF mutex_okD(1) [OF k live]]
  have "sched_inv ?k" "current_thread ?k \<noteq> idle_thread" using u c by simp_all
  then obtain k' where b: "wait_queue_block (Mutex_wait m) INFINITE_TIME ?fs ?k = Switch k'"
    "resched_rel (wq_enqueue (Mutex_wait m) ?k) k'" "current_thread k' \<noteq> current_thread ?k"
    by (rule wait_queue_block_switches)
  have "mutex_acquire_timeout m INFINITE_TIME fs k = Switch k'"
    using busy cnt(2) b(1) by (simp add: mutex_acquire_timeout_def THREAD_LOCK_locked)
  moreover from b have "waiters k' (Mutex_wait m) = waiters k (Mutex_wait m) @ [current_thread k]"
    "tstate k' (current_thread k) = THREAD_BLOCKED" "m_holder (mutexes k' m) = m_holder (mutexes k m)"
    by (simp_all add: resched_rel_def same_objects_def)
  ultimately show ?thesis by (rule that)
qed

text \<open>C10: mutex_acquire_timeout on every branch: a free mutex is taken at once; a busy one gives
  ERR_TIMED_OUT and is left unchanged for timeout 0, blocks the caller at the end of the queue for
  an infinite timeout, and stops in the timer stub for a finite one.\<close>

theorem mutex_acquire_branches:
  assumes k: "user_inv k" and live: "m_magic (mutexes k m) = MUTEX_MAGIC"
    and c: "current_thread k \<noteq> idle_thread"
  shows "(m_count (mutexes k m) = 0 \<longrightarrow>
           (\<exists>k'. mutex_acquire_timeout m timeout fs k = Ret NO_ERROR k' \<and>
              mutexes k' m = (mutexes k m)\<lparr>m_count := 1, m_holder := Some (current_thread k)\<rparr>)) \<and>
         (m_count (mutexes k m) \<noteq> 0 \<longrightarrow>
           (timeout = 0 \<longrightarrow> (\<exists>k'. mutex_acquire_timeout m timeout fs k = Ret ERR_TIMED_OUT k' \<and>
              mutexes k' m = mutexes k m)) \<and>
           (timeout = INFINITE_TIME \<longrightarrow> (\<exists>k'. mutex_acquire_timeout m timeout fs k = Switch k' \<and>
              waiters k' (Mutex_wait m) = waiters k (Mutex_wait m) @ [current_thread k] \<and>
              tstate k' (current_thread k) = THREAD_BLOCKED \<and>
              m_holder (mutexes k' m) = m_holder (mutexes k m))) \<and>
           (timeout \<noteq> 0 \<and> timeout \<noteq> INFINITE_TIME \<longrightarrow>
              mutex_acquire_timeout m timeout fs k = Panic ''assert(0)''))"
proof -
  let ?k = "upd_mutex m (\<lambda>x. x\<lparr>m_count := m_count x + 1\<rparr>) (locked k)"
  let ?fs = "In_mutex_acquire m (irq_state k) # fs"
  note u = user_invD [OF k] and cnt = mutex_count_busy [OF mutex_okD(1) [OF k live]]
  have eq: "mutex_acquire_timeout m tmo fs k =
      kbind (wait_queue_block (Mutex_wait m) tmo ?fs ?k) (mutex_acquire_end m (irq_state k))"
    if "m_count (mutexes k m) \<noteq> 0" for tmo
    using that cnt(2) by (simp add: mutex_acquire_timeout_def THREAD_LOCK_locked)
  show ?thesis
  proof (cases "m_count (mutexes k m) = 0")
    case True
    then show ?thesis by (simp add: mutex_acquire_timeout_def THREAD_LOCK_locked mutex_take_def)
  next
    case False
    from mutex_acquire_blocks [OF k live c False] obtain k' where
      "mutex_acquire_timeout m INFINITE_TIME fs k = Switch k'"
      "waiters k' (Mutex_wait m) = waiters k (Mutex_wait m) @ [current_thread k]"
      "tstate k' (current_thread k) = THREAD_BLOCKED" "m_holder (mutexes k' m) = m_holder (mutexes k m)" .
    with False show ?thesis
      by (auto simp: eq [OF False] wait_queue_block_timeout_0 wait_queue_block_finite
          mutex_acquire_end_def err_defs)
  qed
qed

lemma mutex_acquire_branches_witness:
  "\<exists>k'. mutex_acquire_timeout 1 0 [] (demo_blocked (Mutex_wait 0) (In_mutex_acquire 0 1)) = Ret NO_ERROR k' \<and>
     m_holder (mutexes k' 1) = Some 1"
  using mutex_acquire_branches [OF demo_blocked_user_inv [of "Mutex_wait 0" "In_mutex_acquire 0 1"], of 1 0 "[]"]
  by (auto simp: idle_thread_def)

lemma waiter_frames:
  assumes k: "user_inv k" and "t \<in> set (waiters k (Mutex_wait m))"
  shows "t \<noteq> current_thread k \<and>
    (\<exists>st. stacks k t = [In_wait_queue_block INFINITE_TIME, In_mutex_acquire m st])"
proof -
  note u = user_invD [OF k]
  from assms(2) u(5) have t: "tstate k t = THREAD_BLOCKED" "twait k t = Some (Mutex_wait m)"
    unfolding base_inv_def waitq_ok_def by blast+
  with u(6) have "t \<noteq> current_thread k" by auto
  moreover from t u(8) have "\<exists>st. stacks k t = [In_wait_queue_block INFINITE_TIME, In_mutex_acquire m st]"
    by (fastforce simp: stack_ok_def blocked_stack_def elim: after_block.elims)
  ultimately show ?thesis by blast
qed

text \<open>C9: mutex_release with waiters hands the mutex to the first waiter: it becomes the only owner, the
  count drops by one, and the other waiters stay in order.\<close>

theorem mutex_release_hands_over:
  assumes k: "user_inv k" and live: "m_magic (mutexes k m) = MUTEX_MAGIC"
    and own: "m_holder (mutexes k m) = Some (current_thread k)"
    and ts: "waiters k (Mutex_wait m) = t # ts"
  shows "\<exists>k'. kernel_of (mutex_release m fs k) = Some k' \<and> owners k' m = {t} \<and>
    m_holder (mutexes k' m) = None \<and> m_count (mutexes k' m) = m_count (mutexes k m) - 1 \<and>
    waiters k' (Mutex_wait m) = ts"
proof -
  let ?k = "upd_mutex m (\<lambda>x. x\<lparr>m_holder := None, m_count := m_count x - 1\<rparr>) (locked k)"
  let ?f = "\<lambda>(_ :: int) k'. Ret NO_ERROR (THREAD_UNLOCK (irq_state k) k')" and ?w = "Mutex_wait m"
  let ?fs = "In_mutex_release (irq_state k) # fs"
  note u = user_invD [OF k] and ok = mutex_okD(1) [OF k live]
  have g: "granted k m = {}" and cnt: "m_count (mutexes k m) = int (length ts) + 2"
    using ok own ts by (auto simp: live_mutex_ok_def mutex_busy_def)
  have two: "upd_mutex m (\<lambda>x. x\<lparr>m_count := m_count x - 1\<rparr>) (upd_mutex m (\<lambda>x. x\<lparr>m_holder := None\<rparr>) (locked k)) = ?k"
    by (simp add: upd_mutex_def)
  have eq: "mutex_release m fs k = kbind (wait_queue_wake_one ?w True NO_ERROR ?fs ?k) ?f"
    using cnt two by (simp add: mutex_release_def THREAD_LOCK_locked Let_def)
  have "sched_inv ?k" "stacks ?k (current_thread ?k) = []" "waiters ?k ?w = t # ts"
    using u ts by simp_all
  then obtain k' where k': "kernel_of (kbind (wait_queue_wake_one ?w True NO_ERROR ?fs ?k) ?f) = Some k'"
    "same_objects ?k k'" "\<And>v. waiters k' v = (if v = ?w then ts else waiters ?k v)"
    "\<And>u. runnable k' u \<longleftrightarrow> runnable ?k u \<or> u = t"
    "\<And>u. t_wait_queue_block_ret (threads k' u) =
       (if u = t then NO_ERROR else t_wait_queue_block_ret (threads ?k u))"
    "\<And>u. u \<noteq> current_thread ?k \<Longrightarrow> stacks k' u = stacks ?k u"
    "stacks k' (current_thread ?k) \<in> {[], In_wait_queue_wake 1 # ?fs}"
    by (rule kernel_of_wake_one [where r = True and err = NO_ERROR and fs = ?fs and f = ?f
          and g = "\<lambda>_. NO_ERROR" and st = "irq_state k"]) (rule refl, blast)
  have "t \<in> set (waiters k ?w)" using ts by simp
  from waiter_frames [OF k this] obtain st where
    st: "t \<noteq> current_thread k" "stacks k t = [In_wait_queue_block INFINITE_TIME, In_mutex_acquire m st]"
    by blast
  have "granted k' m = {t}"
  proof -
    have "v \<in> granted k' m \<longleftrightarrow> v = t" for v
    proof (cases "v = current_thread k")
      case True
      with k'(7) st(1) show ?thesis by (auto simp: granted_def)
    next
      case False
      with g k'(4,5,6) st(2) show ?thesis by (auto simp: granted_def runnable_def)
    qed
    then show ?thesis by auto
  qed
  moreover have "mutexes k' m = (mutexes k m)\<lparr>m_holder := None, m_count := m_count (mutexes k m) - 1\<rparr>"
    using k'(2) by (simp add: same_objects_def)
  ultimately show ?thesis using k'(1,3) eq by (auto simp: owners_def)
qed

lemma mutex_release_hands_over_witness:
  "\<exists>k'. kernel_of (mutex_release 0 [] (demo_blocked (Mutex_wait 0) (In_mutex_acquire 0 1))) = Some k' \<and>
     owners k' 0 = {2} \<and> m_count (mutexes k' 0) = 1"
  using mutex_release_hands_over [OF demo_blocked_user_inv [of "Mutex_wait 0" "In_mutex_acquire 0 1"], of 0 2 "[]" "[]"]
  by auto

section \<open>Reachable states\<close>

text \<open>C1: In every reachable state of the thread package (after start-up, any sequence of calls the
  callers are allowed to make) the scheduler is consistent (bitmap, run queues, wait queues,
  counters and thread states agree), every mutex, semaphore and event agrees with its queue, and
  the thread lock is free.\<close>

theorem reachable_user_inv:
  assumes "reachable k"
  shows "sched_inv k \<and> object_inv k \<and> thread_lock k = 0"
  using reachable_inv [OF assms] by (simp add: user_inv_def)

lemma reachable_user_inv_witness:
  "sched_inv boot_kernel \<and> object_inv boot_kernel \<and> thread_lock boot_kernel = 0"
  by (rule reachable_user_inv [OF reachable_boot_kernel])

text \<open>C3: Every allowed call in a reachable state completes: the processor comes back to some thread in
  its own code (no panic, no lost thread) and the state reached is reachable again.\<close>

theorem calls_complete:
  assumes "reachable k" "allowed k a"
  shows "\<exists>v k'. settle (exec a k) = Ret v k' \<and> kstep k a v k' \<and> reachable k'"
proof -
  obtain v k' where "settle (exec a k) = Ret v k'"
    using exec_user_inv [OF reachable_inv [OF assms(1)] assms(2)] by auto
  with assms show ?thesis by (blast intro: kstep.intros reachable_step)
qed

lemma calls_complete_witness:
  "\<exists>v k'. settle (exec (Exit 0) boot_kernel) = Ret v k' \<and> kstep boot_kernel (Exit 0) v k' \<and> reachable k'"
  by (rule calls_complete [OF reachable_boot_kernel])
    (simp add: allowed_def boot_kernel_current idle_thread_def)

text \<open>Start-up completes and leaves the bootstrap thread running.\<close>

lemma boot_completes:
  assumes "t \<noteq> idle_thread"
  shows "\<exists>v k. lkl_thread_init t (Some stk) = Ret v k \<and> kstart k \<and> current_thread k = t"
  using lkl_thread_init_ret [OF assms, of stk] by (metis assms boot)

text \<open>C2: Mutual exclusion: in a reachable state a live mutex has at most one owner (the holder, or the
  waiter it was handed to), its count is the number of owners and waiters, and somebody owns it
  whenever somebody waits.\<close>

theorem mutex_exclusion:
  assumes "reachable k" "m_magic (mutexes k m) = MUTEX_MAGIC"
  shows "(\<forall>t\<in>owners k m. \<forall>u\<in>owners k m. t = u) \<and>
    m_count (mutexes k m) = int (length (waiters k (Mutex_wait m)) + card (owners k m)) \<and>
    (waiters k (Mutex_wait m) \<noteq> [] \<longrightarrow> owners k m \<noteq> {})"
  using live_mutex_owners [OF mutex_okD(1) [OF reachable_inv [OF assms(1)] assms(2)]] by blast

lemma boot_kernel_mutex_0: "m_magic (mutexes boot_kernel m) = 0"
proof -
  have "(1 :: tid) \<noteq> idle_thread" by (simp add: idle_thread_def)
  then obtain v k where k: "lkl_thread_init 1 (Some 0) = Ret v k" "mutexes k = mutexes (booted 1 0)"
    by (rule lkl_thread_init_ret)
  then show ?thesis using \<open>1 \<noteq> idle_thread\<close> by (simp add: boot_kernel_def booted_rest)
qed

lemma mutex_exclusion_witness:
  "\<exists>k. reachable k \<and> m_count (mutexes k 0) = int (length (waiters k (Mutex_wait 0)) + card (owners k 0))"
proof -
  let ?k = "mutex_init 0 boot_kernel"
  have "kstep boot_kernel (Mutex_init 0) 0 ?k"
    by (rule kstep.step) (simp_all add: allowed_def boot_kernel_mutex_0 MUTEX_MAGIC_def boot_kernel_current idle_thread_def)
  with reachable_boot_kernel have r: "reachable ?k" by (rule reachable_step)
  have "m_magic (mutexes ?k 0) = MUTEX_MAGIC" by (simp add: mutex_init_def wait_queue_init_def)
  from mutex_exclusion [OF r this] r show ?thesis by blast
qed

section \<open>Semaphores and events\<close>

text \<open>C11: sem_post increments the count by one; with a waiter it wakes exactly the first one, whose wait
  returns NO_ERROR.\<close>

theorem sem_post_branches:
  assumes k: "user_inv k"
  shows "(waiters k (Sem_wait s) = [] \<longrightarrow> (\<exists>k'. sem_post s r fs k = Ret 0 k' \<and>
            waiters k' (Sem_wait s) = [] \<and> s_count (sems k' s) = s_count (sems k s) + 1)) \<and>
         (waiters k (Sem_wait s) \<noteq> [] \<longrightarrow> (\<exists>k'. kernel_of (sem_post s r fs k) = Some k' \<and>
            waiters k' (Sem_wait s) = tl (waiters k (Sem_wait s)) \<and>
            s_count (sems k' s) = s_count (sems k s) + 1 \<and>
            runnable k' (hd (waiters k (Sem_wait s))) \<and>
            t_wait_queue_block_ret (threads k' (hd (waiters k (Sem_wait s)))) = NO_ERROR))"
proof (cases "waiters k (Sem_wait s)")
  case Nil
  with sem_okD [OF k, of s] have "s_count (sems k s) \<ge> 0" by (simp add: sem_ok_def)
  with Nil show ?thesis by (simp add: sem_post_def THREAD_LOCK_locked)
next
  case (Cons t ts)
  let ?k = "upd_sem s (\<lambda>x. x\<lparr>s_count := s_count x + 1\<rparr>) (locked k)" and ?w = "Sem_wait s"
  let ?f = "\<lambda>ret k'. Ret ret (THREAD_UNLOCK (irq_state k) k')" and ?fs = "In_sem_post (irq_state k) # fs"
  note u = user_invD [OF k]
  have "s_count (sems k s) < 0" using sem_okD [OF k, of s] Cons by (simp add: sem_ok_def)
  then have eq: "sem_post s r fs k = kbind (wait_queue_wake_one ?w r NO_ERROR ?fs ?k) ?f"
    by (simp add: sem_post_def THREAD_LOCK_locked)
  have "sched_inv ?k" "stacks ?k (current_thread ?k) = []" "waiters ?k ?w = t # ts"
    using u Cons by simp_all
  then obtain k' where k': "kernel_of (kbind (wait_queue_wake_one ?w r NO_ERROR ?fs ?k) ?f) = Some k'"
    "same_objects ?k k'" "\<And>v. waiters k' v = (if v = ?w then ts else waiters ?k v)"
    "\<And>u. runnable k' u \<longleftrightarrow> runnable ?k u \<or> u = t"
    "\<And>u. t_wait_queue_block_ret (threads k' u) =
       (if u = t then NO_ERROR else t_wait_queue_block_ret (threads ?k u))"
    by (rule kernel_of_wake_one [where r = r and err = NO_ERROR and fs = ?fs and f = ?f
          and g = "\<lambda>v. v" and st = "irq_state k"]) (rule refl, blast)
  have "sems k' = sems ?k" using k'(2) by (simp add: same_objects_def)
  with k' Cons eq show ?thesis by auto
qed

lemma sem_post_branches_witness:
  "\<exists>k'. kernel_of (sem_post 0 True [] (demo_blocked (Sem_wait 0) (In_sem_wait 1))) = Some k' \<and>
     waiters k' (Sem_wait 0) = [] \<and> s_count (sems k' 0) = 0 \<and> runnable k' 2"
  using sem_post_branches [OF demo_blocked_user_inv [of "Sem_wait 0" "In_sem_wait 1"], of 0 True "[]"]
  by auto

text \<open>sem_wait decrements the count by one and returns at once when it was positive; otherwise the
  caller blocks at the end of the queue.\<close>

lemma sem_wait_branches:
  assumes k: "user_inv k" and c: "current_thread k \<noteq> idle_thread"
  shows "(s_count (sems k s) > 0 \<longrightarrow> (\<exists>k'. sem_wait s fs k = Ret NO_ERROR k' \<and>
            s_count (sems k' s) = s_count (sems k s) - 1)) \<and>
         (s_count (sems k s) \<le> 0 \<longrightarrow> (\<exists>k'. sem_wait s fs k = Switch k' \<and>
            s_count (sems k' s) = s_count (sems k s) - 1 \<and>
            waiters k' (Sem_wait s) = waiters k (Sem_wait s) @ [current_thread k] \<and>
            tstate k' (current_thread k) = THREAD_BLOCKED))"
proof -
  let ?k = "upd_sem s (\<lambda>x. x\<lparr>s_count := s_count x - 1\<rparr>) (locked k)"
  let ?fs = "In_sem_wait (irq_state k) # fs"
  have "sched_inv ?k" "current_thread ?k \<noteq> idle_thread" using user_invD [OF k] c by simp_all
  then obtain k' where b: "wait_queue_block (Sem_wait s) INFINITE_TIME ?fs ?k = Switch k'"
    "resched_rel (wq_enqueue (Sem_wait s) ?k) k'" "current_thread k' \<noteq> current_thread ?k"
    by (rule wait_queue_block_switches)
  then have "waiters k' (Sem_wait s) = waiters k (Sem_wait s) @ [current_thread k]"
    "tstate k' (current_thread k) = THREAD_BLOCKED" "s_count (sems k' s) = s_count (sems k s) - 1"
    by (simp_all add: resched_rel_def same_objects_def)
  with b(1) show ?thesis by (simp add: sem_wait_def THREAD_LOCK_locked)
qed

text \<open>
  Waking all waiters inside a call.
\<close>

lemma kernel_of_wake_all:
  assumes sched: "sched_inv k" and un: "stacks k (current_thread k) = []"
    and f: "\<And>v k'. f v k' = Ret (g v) (THREAD_UNLOCK st k')"
  obtains k' where "kernel_of (kbind (wait_queue_wake_all w r err fs k) f) = Some k'"
    "same_objects k k'" "\<And>v. waiters k' v = (if v = w then [] else waiters k v)"
    "\<And>u. runnable k' u \<longleftrightarrow> runnable k u \<or> u \<in> set (waiters k w)"
    "\<And>u. t_wait_queue_block_ret (threads k' u) =
       (if u \<in> set (waiters k w) then err else t_wait_queue_block_ret (threads k u))"
proof -
  have base: "base_inv {} k" and run: "\<And>u. tstate k u = THREAD_RUNNING \<longleftrightarrow> u = current_thread k"
    using sched by (simp_all add: sched_inv_def)
  have cnt: "wq_count (wait_queues k w) = int (length (waiters k w))"
    using base by (simp add: base_inv_def waitq_ok_def)
  have fe: "f = (\<lambda>v k'. Ret (g v) (THREAD_UNLOCK st k'))" using f by (intro ext)
  define go where "go \<longleftrightarrow> r \<and> waiters k w \<noteq> []"
  define k0 where "k0 = (if go then requeue_current k else k)"
  have k0: "base_inv {} k0" "waiters k0 v = waiters k v" "same_objects k k0" "current_thread k0 = current_thread k"
    "\<And>u. runnable k0 u \<longleftrightarrow> runnable k u"
    "\<And>u. t_wait_queue_block_ret (threads k0 u) = t_wait_queue_block_ret (threads k u)"
    "go \<Longrightarrow> tstate k0 u = (if u = current_thread k then THREAD_READY else tstate k u)" for u v
    using base run by (auto simp: k0_def same_objects_def runnable_def base_inv_requeue_current)
  obtain k1 where k1: "wake_all_loop w err 0 k0 = (0 + int (length (waiters k0 w)), k1)"
    "base_inv {} k1" "wake_all_rel w err k0 k1" using wake_all_loop_spec [OF k0(1)] by blast
  have k1f: "same_objects k k1" "waiters k1 v = (if v = w then [] else waiters k v)"
    "runnable k1 u \<longleftrightarrow> runnable k u \<or> u \<in> set (waiters k w)"
    "t_wait_queue_block_ret (threads k1 u) =
       (if u \<in> set (waiters k w) then err else t_wait_queue_block_ret (threads k u))" for u v
    using k1(3) k0 by (auto simp: wake_all_rel_def same_objects_def runnable_def)
  show thesis
  proof (cases go)
    case False
    then have "kbind (wait_queue_wake_all w r err fs k) f = Ret (g (int (length (waiters k w)))) (THREAD_UNLOCK st k1)"
      using k1(1) cnt k0(2) by (cases r) (auto simp: wait_queue_wake_all_def fe k0_def go_def)
    then show thesis
      by (intro that [of "THREAD_UNLOCK st k1"]) (use k1f in \<open>simp_all add: same_objects_def runnable_def\<close>)
  next
    case True
    let ?n = "int (length (waiters k w))"
    have eq: "kbind (wait_queue_wake_all w r err fs k) f =
        kbind (thread_resched (In_wait_queue_wake ?n # fs) k1) (\<lambda>_ k'. Ret (g ?n) (THREAD_UNLOCK st k'))"
      using True k1(1) cnt k0(2) by (simp add: wait_queue_wake_all_def fe k0_def go_def kbind_assoc)
    have ws: "tstate k u = THREAD_BLOCKED" if "u \<in> set (waiters k w)" for u
      using base that unfolding base_inv_def waitq_ok_def by blast
    have c1: "current_thread k1 = current_thread k" using k1(3) k0(4) by (simp add: wake_all_rel_def)
    have th: "tstate k1 u = (if u \<in> set (waiters k w) then THREAD_READY else tstate k0 u)" for u
      using k1(3) k0(2) by (simp add: wake_all_rel_def)
    have "parked k1" using k1(2) th k0(7) [OF True] run by (simp add: parked_def)
    moreover have "tstate k1 (current_thread k) = THREAD_READY"
      using th k0(7) [OF True] by simp
    ultimately obtain k' where "kernel_of (kbind (thread_resched (In_wait_queue_wake ?n # fs) k1)
          (\<lambda>_ k. Ret (g ?n) (THREAD_UNLOCK st k))) = Some k'"
      "same_objects k1 k'" "wait_queues k' = wait_queues k1" "\<And>u. runnable k' u \<longleftrightarrow> runnable k1 u"
      "\<And>u. same_thread (threads k1 u) (threads k' u)"
      by (rule kernel_of_resched [where fs = "In_wait_queue_wake ?n # fs" and v = "g ?n" and st = st]) blast
    then show thesis
      by (intro that [of k']) (use k1f eq in \<open>simp_all add: same_objects_def same_thread_def\<close>)
  qed
qed

text \<open>C4: In every run of the system a semaphore is an exact counter: its count is the old count plus the
  posts minus the waits, so of the waits exactly as many get through as the old count and the
  posts provide, however the threads interleave.\<close>

theorem semaphore_balance:
  assumes "reachable k" "run kstep k tr k'" "list_all (\<lambda>(a, v). \<not> resets s a) tr"
    and "0 \<le> s_count (sems k s)"
  shows "s_count (sems k' s) = s_count (sems k s) + int (posts s tr) - int (takes s tr)
    \<and> int (takes s tr) - int (length (waiters k' (Sem_wait s))) =
      min (int (takes s tr)) (s_count (sems k s) + int (posts s tr))"
proof -
  have count: "s_count (sems k' s) = s_count (sems k s) + int (posts s tr) - int (takes s tr)"
    using run_sem_count [OF assms(2) reachable_calm [OF assms(1)] assms(3)] by blast
  have "reachable k'" using assms(2,1) by (induction rule: run.induct) (auto intro: reachable_step)
  then have "sem_ok k' s" by (intro sem_okD reachable_inv)
  with count assms(4) show ?thesis by (auto simp: sem_ok_def)
qed

lemma semaphore_balance_witness:
  "\<exists>v k'. run kstep boot_kernel [(Sem_post 7 False, v)] k' \<and> s_count (sems k' 7) = 1"
proof -
  have "allowed boot_kernel (Sem_post 7 False)" by (simp add: allowed_def boot_kernel_current idle_thread_def)
  with exec_user_inv [OF reachable_inv [OF reachable_boot_kernel]] obtain v k' where
    "settle (exec (Sem_post 7 False) boot_kernel) = Ret v k'" by blast
  then have r: "run kstep boot_kernel [(Sem_post 7 False, v)] k'"
    using run_snoc [OF run_nil, of kstep boot_kernel] \<open>allowed boot_kernel (Sem_post 7 False)\<close>
    by (fastforce intro: kstep.step)
  have "sems boot_kernel = sems zero_kernel"
    using kstart_sem_kept [OF boot_kernel_start] by (simp add: sem_kept_def)
  then have "s_count (sems boot_kernel 7) = 0" by (simp add: zero_kernel_def)
  with semaphore_balance [OF reachable_boot_kernel r, of 7] r show ?thesis by auto
qed

lemma event_signal_manual:
  assumes k: "user_inv k" and off: "\<not> e_signaled (events k e)"
    and manual: "e_flags (events k e) AND EVENT_FLAG_AUTOUNSIGNAL = 0"
  shows "\<exists>k'. kernel_of (event_signal e r fs k) = Some k' \<and> e_signaled (events k' e) \<and>
    waiters k' (Event_wait e) = [] \<and> (\<forall>t\<in>set (waiters k (Event_wait e)).
      runnable k' t \<and> t_wait_queue_block_ret (threads k' t) = NO_ERROR)"
proof -
  let ?w = "Event_wait e" and ?st = "irq_state k"
  let ?k = "upd_event e (\<lambda>x. x\<lparr>e_signaled := True\<rparr>) (locked k)"
  let ?f = "event_signal_end e False ?st" and ?fs = "In_event_signal e False ?st # fs"
  have "sched_inv ?k" "stacks ?k (current_thread ?k) = []" using user_invD [OF k] by simp_all
  then obtain k' where k': "kernel_of (kbind (wait_queue_wake_all ?w r NO_ERROR ?fs ?k) ?f) = Some k'"
    "same_objects ?k k'" "\<And>v. waiters k' v = (if v = ?w then [] else waiters ?k v)"
    "\<And>t. runnable k' t \<longleftrightarrow> runnable ?k t \<or> t \<in> set (waiters ?k ?w)"
    "\<And>t. t_wait_queue_block_ret (threads k' t) =
       (if t \<in> set (waiters ?k ?w) then NO_ERROR else t_wait_queue_block_ret (threads ?k t))"
    by (rule kernel_of_wake_all [where r = r and err = NO_ERROR and fs = ?fs and f = ?f and w = ?w
          and g = "\<lambda>_. NO_ERROR" and st = ?st]) (simp add: event_signal_end_def, blast)
  moreover have "event_signal e r fs k = kbind (wait_queue_wake_all ?w r NO_ERROR ?fs ?k) ?f"
    using off manual by (simp add: event_signal_def THREAD_LOCK_locked)
  moreover have "e_signaled (events k' e)" using k'(2) by (simp add: same_objects_def)
  ultimately show ?thesis by simp
qed

lemma event_signal_auto:
  assumes k: "user_inv k" and off: "\<not> e_signaled (events k e)"
    and auto: "e_flags (events k e) AND EVENT_FLAG_AUTOUNSIGNAL \<noteq> 0"
  defines "ws \<equiv> waiters k (Event_wait e)"
  shows "\<exists>k'. kernel_of (event_signal e r fs k) = Some k' \<and> waiters k' (Event_wait e) = tl ws \<and>
    (e_signaled (events k' e) \<longleftrightarrow> ws = []) \<and>
    (ws \<noteq> [] \<longrightarrow> runnable k' (hd ws) \<and> t_wait_queue_block_ret (threads k' (hd ws)) = NO_ERROR)"
proof -
  let ?w = "Event_wait e" and ?st = "irq_state k"
  let ?f = "event_signal_end e True ?st" and ?fs = "In_event_signal e True ?st # fs"
  have eq: "event_signal e r fs k = kbind (wait_queue_wake_one ?w r NO_ERROR ?fs (locked k)) ?f"
    using off auto by (simp add: event_signal_def THREAD_LOCK_locked)
  show ?thesis
  proof (cases "waiters k ?w")
    case Nil
    with eq show ?thesis by (simp add: ws_def wait_queue_wake_one_def event_signal_end_def)
  next
    case (Cons t ts)
    let ?g = "\<lambda>(v :: int) k'. Ret NO_ERROR (THREAD_UNLOCK ?st k')"
    have one: "kbind (wait_queue_wake_one ?w r NO_ERROR ?fs (locked k)) ?f =
        kbind (wait_queue_wake_one ?w r NO_ERROR ?fs (locked k)) ?g"
      using Cons by (simp add: wait_queue_wake_one_def Let_def kbind_assoc event_signal_end_def)
    have "sched_inv (locked k)" "stacks (locked k) (current_thread (locked k)) = []"
      "waiters (locked k) ?w = t # ts" using user_invD [OF k] Cons by simp_all
    then obtain k' where k': "kernel_of (kbind (wait_queue_wake_one ?w r NO_ERROR ?fs (locked k)) ?g) = Some k'"
      "same_objects (locked k) k'" "\<And>v. waiters k' v = (if v = ?w then ts else waiters (locked k) v)"
      "\<And>u. runnable k' u \<longleftrightarrow> runnable (locked k) u \<or> u = t"
      "\<And>u. t_wait_queue_block_ret (threads k' u) =
         (if u = t then NO_ERROR else t_wait_queue_block_ret (threads (locked k) u))"
      by (rule kernel_of_wake_one [where r = r and err = NO_ERROR and fs = ?fs and f = ?g
            and g = "\<lambda>_. NO_ERROR" and st = ?st]) (rule refl, blast)
    moreover have "\<not> e_signaled (events k' e)" using k'(2) off by (simp add: same_objects_def)
    ultimately show ?thesis using eq one Cons by (simp add: ws_def)
  qed
qed

text \<open>C12: event_signal on an unsignaled event: without the auto-unsignal flag every waiter is made
  runnable and the event stays signaled; with the flag only the first waiter is, and the event
  becomes signaled exactly when nobody waited.\<close>

theorem event_signal_branches:
  assumes k: "user_inv k" and off: "\<not> e_signaled (events k e)"
  defines "ws \<equiv> waiters k (Event_wait e)"
  shows "(e_flags (events k e) AND EVENT_FLAG_AUTOUNSIGNAL = 0 \<longrightarrow>
      (\<exists>k'. kernel_of (event_signal e r fs k) = Some k' \<and> e_signaled (events k' e) \<and>
         waiters k' (Event_wait e) = [] \<and>
         (\<forall>t\<in>set ws. runnable k' t \<and> t_wait_queue_block_ret (threads k' t) = NO_ERROR))) \<and>
    (e_flags (events k e) AND EVENT_FLAG_AUTOUNSIGNAL \<noteq> 0 \<longrightarrow>
      (\<exists>k'. kernel_of (event_signal e r fs k) = Some k' \<and> waiters k' (Event_wait e) = tl ws \<and>
         (e_signaled (events k' e) \<longleftrightarrow> ws = []) \<and>
         (ws \<noteq> [] \<longrightarrow> runnable k' (hd ws) \<and> t_wait_queue_block_ret (threads k' (hd ws)) = NO_ERROR)))"
  using event_signal_manual [OF k off] event_signal_auto [OF k off] unfolding ws_def by blast

lemma event_signal_branches_witness:
  "\<exists>k'. kernel_of (event_signal 0 True [] (demo_blocked (Event_wait 0) (In_event_wait 1))) = Some k' \<and>
     e_signaled (events k' 0) \<and> waiters k' (Event_wait 0) = [] \<and> runnable k' 2"
  using event_signal_branches [OF demo_blocked_user_inv [of "Event_wait 0" "In_event_wait 1"], of 0 True "[]"]
  by auto

section \<open>Joining and exiting\<close>

text \<open>C13: thread_exit of a joinable thread records the return code, marks the thread dead and makes every
  joiner runnable with NO_ERROR, and never returns.\<close>

theorem thread_exit_wakes_joiners:
  assumes k: "user_inv k" and c: "current_thread k \<noteq> idle_thread"
    and nd: "t_flags (threads k (current_thread k)) AND THREAD_FLAG_DETACHED = 0"
  shows "\<exists>k'. thread_exit r fs k = Switch k' \<and> tstate k' (current_thread k) = THREAD_DEATH \<and>
    t_retcode (threads k' (current_thread k)) = r \<and> waiters k' (Retcode_wait (current_thread k)) = [] \<and>
    (\<forall>t\<in>set (waiters k (Retcode_wait (current_thread k))).
       runnable k' t \<and> t_wait_queue_block_ret (threads k' t) = NO_ERROR)"
proof -
  let ?c = "current_thread k" and ?w = "Retcode_wait (current_thread k)"
  let ?k1 = "dying r k"
  note u = user_invD [OF k]
  note b1 = base_inv_dying [OF k c, of r] and o1 = object_inv_dying [OF k c, of r]
  have run: "tstate k t = THREAD_RUNNING \<longleftrightarrow> t = ?c" for t using u(1) by (simp add: sched_inv_def)
  obtain k2 where k2: "wake_all_loop ?w 0 0 ?k1 = (0 + int (length (waiters ?k1 ?w)), k2)"
    "base_inv {} k2" "wake_all_rel ?w 0 ?k1 k2" "object_inv_but {?w} k2"
    "\<And>t. tstate ?k1 t \<noteq> THREAD_BLOCKED \<Longrightarrow> tstate k2 t = tstate ?k1 t"
    "\<And>t. tstate k2 t = THREAD_RUNNING \<longleftrightarrow> tstate ?k1 t = THREAD_RUNNING"
    by (rule wake_all_facts [OF o1 b1, of 0 0]) (simp_all add: err_defs)
  have eq: "thread_exit r fs k = kbind (thread_resched (In_thread_exit # fs) k2)
      (\<lambda>_ _. Panic ''somehow fell through thread_exit()'')"
    using nd k2(1)
    by (simp add: thread_exit_def THREAD_LOCK_locked Let_def dying_def set_state_def wait_queue_wake_all_def)
  have park: "parked k2" using k2(2,6) run by (auto simp: parked_def)
  have c2: "current_thread k2 = ?c" using k2(3) by (simp add: wake_all_rel_def)
  have dead: "tstate k2 ?c = THREAD_DEATH" using k2(5) [of ?c] by simp
  have rc: "t_retcode (threads k2 ?c) = r" and wq: "waiters k2 ?w = []"
    and ws: "t \<in> set (waiters k ?w) \<Longrightarrow> tstate k2 t = THREAD_READY \<and> t_wait_queue_block_ret (threads k2 t) = 0" for t
    using k2(3) by (auto simp: wake_all_rel_def)
  from park show ?thesis
  proof (cases rule: thread_resched_cases [where fs = "In_thread_exit # fs"])
    case (stay k')
    with c2 c dead show ?thesis by simp
  next
    case (switch k')
    have same: "same_thread (threads k2 t) (threads k' t)" for t
      using switch(2) by (simp add: resched_rel_def)
    have "tstate k' ?c = THREAD_DEATH"
      using switch(2,4) dead c2 by (simp add: resched_rel_def)
    moreover have "t_retcode (threads k' ?c) = r" using same [of ?c] rc by (simp add: same_thread_def)
    moreover have "waiters k' ?w = []" using switch(2) wq by (simp add: resched_rel_def)
    moreover have "runnable k' t \<and> t_wait_queue_block_ret (threads k' t) = NO_ERROR" if "t \<in> set (waiters k ?w)" for t
      using resched_runnable(1) [OF switch(2) park, of t] ws [OF that] same [of t]
      by (simp add: runnable_def same_thread_def err_defs)
    ultimately show ?thesis using switch(1) eq by simp
  qed
qed

lemma thread_exit_wakes_joiners_witness:
  "\<exists>k'. thread_exit 7 [] (demo_blocked (Retcode_wait 1) (In_thread_join 1 None 1)) = Switch k' \<and>
     runnable k' 2 \<and> t_retcode (threads k' 1) = 7"
  using thread_exit_wakes_joiners [OF demo_blocked_user_inv [of "Retcode_wait 1" "In_thread_join 1 None 1"], of 7 "[]"]
  by (auto simp: idle_thread_def)

text \<open>thread_join of a dead thread returns its code, takes it off the thread list, clears its magic
  and frees exactly the stack and structure the flags say the package owns.\<close>

lemma thread_join_dead:
  assumes "tstate k t = THREAD_DEATH" "t_flags (threads k t) AND THREAD_FLAG_DETACHED = 0"
  shows "\<exists>k'. thread_join t (Some a) timeout fs k = Ret NO_ERROR k' \<and> cells k' a = t_retcode (threads k t) \<and>
    thread_list k' = remove1 t (thread_list k) \<and> t_magic (threads k' t) = 0 \<and>
    ints_enabled k' = ints_enabled k \<and>
    freed k' = freed k @
      (if t_flags (threads k t) AND THREAD_FLAG_FREE_STACK \<noteq> 0 \<and> t_stack (threads k t) \<noteq> None
       then [Stack_of t] else []) @
      (if t_flags (threads k t) AND THREAD_FLAG_FREE_STRUCT \<noteq> 0 then [Struct_of t] else [])"
proof -
  have eq: "thread_join t (Some a) timeout fs k = thread_join_reap t (Some a) (irq_state k) (locked k)"
    using assms by (simp add: thread_join_def THREAD_LOCK_locked)
  show ?thesis unfolding eq thread_join_reap_eq
    by (simp add: THREAD_UNLOCK_eq reaped_def locked_def upd_thread_def)
qed

section \<open>The order of waking, down to the pointers\<close>

text \<open>C8: The wake-up loop on the pointers of list.h refines the loop on lists: draining the wait list
  node by node into the heads of the run queues keeps every list well formed, and the pointers
  represent exactly the queues the model computes.\<close>

theorem wake_all_pointers:
  assumes base: "base_inv {} k" and heap: "lists_at h Q"
    and wl: "Q wl = Some (waiters k w)"
    and rq: "\<And>p. p < 32 \<Longrightarrow> Q (rqh p) = Some (run_queue k p)"
    and heads: "inj_on rqh {..<32}" "\<And>p. p < 32 \<Longrightarrow> rqh p \<noteq> wl"
  defines "q \<equiv> \<lambda>t. rqh (nat (tprio k t))"
  shows "\<exists>k' Q'. wake_all_loop w err 0 k = (int (length (waiters k w)), k') \<and>
    lists_at (drain list_remove_head list_add_head q wl (length (waiters k w)) h) Q' \<and>
    Q' wl = Some (waiters k' w) \<and> (\<forall>p<32. Q' (rqh p) = Some (run_queue k' p))"
proof -
  let ?ws = "waiters k w"
  let ?Q' = "drained q wl ?ws Q"
  have lt: "nat (tprio k t) < 32" for t using base_inv_prio [OF base] by simp
  obtain k' where k': "wake_all_loop w err 0 k = (0 + int (length ?ws), k')" "wake_all_rel w err k k'"
    using wake_all_loop_spec [OF base] by blast
  have qw: "q t \<noteq> wl" "q t \<in> dom Q" for t using heads(2) [OF lt] rq [OF lt] by (auto simp: q_def)
  have "lists_at (drain list_remove_head list_add_head q wl (length ?ws) h) ?Q'"
    using lk.drain_rep [OF heap wl, of q "length ?ws"] qw by simp
  moreover have "?Q' wl = Some (waiters k' w)"
    using drained_wait [of ?ws q wl Q] qw wl k'(2) by (simp add: wake_all_rel_def)
  moreover have "?Q' (rqh p) = Some (run_queue k' p)" if p: "p < 32" for p
  proof -
    have "q t = rqh p \<longleftrightarrow> nat (tprio k t) = p" for t
      using heads(1) lt [of t] p by (auto simp: q_def inj_on_def)
    then show ?thesis
      using wake_all_rel_drained [OF k'(2), of q wl rqh p Q] qw wl rq [OF p] heads(2) [OF p] by simp
  qed
  ultimately show ?thesis using k'(1) by auto
qed

lemma wake_all_pointers_witness:
  "\<exists>k' Q'. wake_all_loop (Sem_wait 0) 0 0 (demo_blocked (Sem_wait 0) (In_sem_wait 1)) = (1, k') \<and>
     lists_at (drain list_remove_head list_add_head (\<lambda>t. 200 + nat (tprio (demo_blocked (Sem_wait 0) (In_sem_wait 1)) t))
       100 1 \<lparr>prv = (\<lambda>a. a)(100 := 2, 2 := 100), nxt = (\<lambda>a. a)(100 := 2, 2 := 100)\<rparr>) Q' \<and>
     Q' 100 = Some (waiters k' (Sem_wait 0)) \<and> (\<forall>p<32. Q' (200 + p) = Some (run_queue k' p))"
proof -
  let ?k = "demo_blocked (Sem_wait 0) (In_sem_wait 1)"
  let ?h = "\<lparr>prv = (\<lambda>a. a)(100 := 2, 2 := 100), nxt = (\<lambda>a. a)(100 := 2, 2 := 100)\<rparr>"
  let ?Q = "\<lambda>l :: nat. if l = 100 then Some [2 :: nat] else if 200 \<le> l \<and> l < 232 then Some [] else None"
  have b: "base_inv {} ?k"
    using demo_blocked_user_inv [of "Sem_wait 0" "In_sem_wait 1"] by (simp add: user_inv_def sched_inv_def)
  have h: "lists_at ?h ?Q"
    by (auto simp: lists_at_def dlist_def linked_def footprint_def split: if_splits)
  show ?thesis
    using wake_all_pointers [OF b h, of 100 "Sem_wait 0" "\<lambda>p. 200 + p" 0]
    by (simp add: inj_on_def)
qed

section \<open>Where the code departs from its documentation\<close>

text \<open>Blocking with a finite non-zero timeout stops the system: the timer functions of this port are
  assert(0).\<close>

lemma finite_timeouts_stop:
  assumes "timeout \<noteq> 0" "timeout \<noteq> INFINITE_TIME"
  shows "wait_queue_block w timeout fs k = Panic ''assert(0)''"
  using assms by (rule wait_queue_block_finite)

text \<open>thread_resume of a thread that is not suspended changes no thread and no run queue and returns
  NO_ERROR, not the documented ERR_NOT_SUSPENDED.\<close>

lemma thread_resume_not_suspended:
  assumes "tstate k t \<noteq> THREAD_SUSPENDED"
  shows "\<exists>k'. thread_resume t fs k = Ret NO_ERROR k' \<and> threads k' = threads k \<and>
    run_queue k' = run_queue k"
  using assms by (simp add: thread_resume_def THREAD_LOCK_locked)

text \<open>A detached thread that exits leaves the thread list, but nothing is ever freed:
  heap_delayed_free is a stub, so its stack and structure leak.\<close>

lemma detached_exit_frees_nothing:
  assumes k: "user_inv k" and c: "current_thread k \<noteq> idle_thread"
    and d: "t_flags (threads k (current_thread k)) AND THREAD_FLAG_DETACHED \<noteq> 0"
  shows "\<exists>k'. thread_exit r fs k = Switch k' \<and> freed k' = freed k \<and>
    thread_list k' = remove1 (current_thread k) (thread_list k) \<and>
    t_magic (threads k' (current_thread k)) = 0"
proof -
  let ?c = "current_thread k"
  let ?k1 = "exit_detached ?c (dying r k)"
  note u = user_invD [OF k]
  have run: "tstate k t = THREAD_RUNNING \<longleftrightarrow> t = ?c" for t using u(1) by (simp add: sched_inv_def)
  have "join_ok (dying r k) ?c" using u(2) d by (auto simp: object_inv_def join_ok_def)
  with object_inv_dying [OF k c, of r] have o: "object_inv (dying r k)" by (rule object_inv_but_close)
  note x = exit_detached_facts [OF o c base_inv_dying [OF k c]]
  have eq: "thread_exit r fs k = kbind (thread_resched (In_thread_exit # fs) ?k1)
      (\<lambda>_ _. Panic ''somehow fell through thread_exit()'')"
    using d by (simp add: thread_exit_def THREAD_LOCK_locked Let_def dying_def set_state_def)
  have f: "freed ?k1 = freed k" "thread_list ?k1 = remove1 ?c (thread_list k)" "t_magic (threads ?k1 ?c) = 0"
    by (simp_all add: exit_detached_def Let_def heap_delayed_free_def dying_def set_state_def locked_def)
  have park: "parked ?k1" using x run by (auto simp: parked_def)
  have c1: "current_thread ?k1 = ?c" "tstate ?k1 ?c = THREAD_DEATH" using x by simp_all
  from park show ?thesis
  proof (cases rule: thread_resched_cases [where fs = "In_thread_exit # fs"])
    case (stay k')
    with c1 c show ?thesis by simp
  next
    case (switch k')
    then have "same_thread (threads ?k1 ?c) (threads k' ?c)" by (simp add: resched_rel_def)
    with switch f eq show ?thesis by (simp add: resched_rel_def same_thread_def)
  qed
qed

end
