(* ===== verification/Arm_Context.thy ===== *)
theory Arm_Context imports Prelude begin

text \<open>
  The machine level of a context switch: the assembler routines of \<open>src/Arm/*.S\<close> run on a register
  machine, \<open>makecontext\<close> of \<open>src/Arm/makecontext.c\<close> on its memory, and the layout of \<open>ucontext_t\<close>
  (\<open>src/Arm/Include/sys/ucontext.h\<close>) that both rely on. The lemmas say what each routine stores and
  loads, field by field.
\<close>

section \<open>The processor\<close>

text \<open>
  The core registers \<open>r0\<close> to \<open>r15\<close> (13 the stack pointer, 14 the link register, 15 the program
  counter, written by branches only), the words of \<open>d8\<close> to \<open>d15\<close>, the floating-point status, the zero
  flag and the memory. All accesses of this code are to aligned words, so the memory gives for the
  address of a word the word stored there.
\<close>

type_synonym heap_words = "u32 \<Rightarrow> u32"

record cpu =
  rg :: "nat \<Rightarrow> u32"
  vfp :: "nat \<Rightarrow> u32"
  fpscr :: u32
  z_flag :: bool
  mem :: heap_words

text \<open>The instructions of the routines; the two coprocessor transfers are of \<open>d8\<close> to \<open>d15\<close>.\<close>

datatype instr =
    ADD nat nat u32
  | MOV nat nat
  | MOVI nat u32
  | MOVS nat nat
  | CMP nat u32
  | LDRI nat nat u32
  | STRI nat nat u32
  | LDRI_POST nat nat u32
  | STRI_POST nat nat u32
  | LDMIA nat "nat list"
  | STMIA nat "nat list"
  | PUSH "nat list"
  | POP "nat list"
  | VSTMIA nat
  | VLDMIA nat
  | FMRX nat
  | FMXR nat
  | BX nat

primrec store_words :: "u32 \<Rightarrow> u32 list \<Rightarrow> heap_words \<Rightarrow> heap_words" where
  "store_words a [] m = m"
| "store_words a (v # vs) m = store_words (a + 4) vs (m(a := v))"

primrec load_words :: "u32 \<Rightarrow> nat list \<Rightarrow> heap_words \<Rightarrow> (nat \<Rightarrow> u32) \<Rightarrow> nat \<Rightarrow> u32" where
  "load_words a [] m f = f"
| "load_words a (r # rs) m f = load_words (a + 4) rs m (f(r := m a))"

definition set_rg :: "nat \<Rightarrow> u32 \<Rightarrow> cpu \<Rightarrow> cpu" where
  "set_rg r v c = c\<lparr>rg := (rg c)(r := v)\<rparr>"

definition d8_d15 :: "nat list" where
  "d8_d15 = [0..<16]"

primrec step_asm :: "instr \<Rightarrow> cpu \<Rightarrow> cpu" where
  "step_asm (ADD d n i) c = set_rg d (rg c n + i) c"
| "step_asm (MOV d n) c = set_rg d (rg c n) c"
| "step_asm (MOVI d i) c = set_rg d i c"
| "step_asm (MOVS d n) c = (set_rg d (rg c n) c)\<lparr>z_flag := rg c n = 0\<rparr>"
| "step_asm (CMP n i) c = c\<lparr>z_flag := rg c n = i\<rparr>"
| "step_asm (LDRI t n i) c = set_rg t (mem c (rg c n + i)) c"
| "step_asm (STRI t n i) c = c\<lparr>mem := (mem c)(rg c n + i := rg c t)\<rparr>"
| "step_asm (LDRI_POST t n i) c = set_rg t (mem c (rg c n)) (set_rg n (rg c n + i) c)"
| "step_asm (STRI_POST t n i) c =
     (set_rg n (rg c n + i) c)\<lparr>mem := (mem c)(rg c n := rg c t)\<rparr>"
| "step_asm (LDMIA n rs) c = c\<lparr>rg := load_words (rg c n) rs (mem c) (rg c)\<rparr>"
| "step_asm (STMIA n rs) c = c\<lparr>mem := store_words (rg c n) (map (rg c) rs) (mem c)\<rparr>"
| "step_asm (PUSH rs) c =
     (let sp = rg c 13 - of_nat (4 * length rs)
      in (set_rg 13 sp c)\<lparr>mem := store_words sp (map (rg c) rs) (mem c)\<rparr>)"
| "step_asm (POP rs) c =
     (let sp = rg c 13
      in set_rg 13 (sp + of_nat (4 * length rs)) (c\<lparr>rg := load_words sp rs (mem c) (rg c)\<rparr>))"
| "step_asm (VSTMIA n) c =
     (set_rg n (rg c n + 64) c)\<lparr>mem := store_words (rg c n) (map (vfp c) d8_d15) (mem c)\<rparr>"
| "step_asm (VLDMIA n) c =
     (set_rg n (rg c n + 64) c)\<lparr>vfp := load_words (rg c n) d8_d15 (mem c) (vfp c)\<rparr>"
| "step_asm (FMRX t) c = set_rg t (fpscr c) c"
| "step_asm (FMXR t) c = c\<lparr>fpscr := rg c t\<rparr>"
| "step_asm (BX n) c = set_rg 15 (rg c n) c"

definition run_asm :: "instr list \<Rightarrow> cpu \<Rightarrow> cpu" where
  "run_asm is c = fold step_asm is c"

section \<open>The layout of a context\<close>

text \<open>The offsets of \<open>ucontext_offsets.h\<close>, as the assembler uses them.\<close>

definition MCONTEXT_ARM_R0 :: u32 where "MCONTEXT_ARM_R0 = 32"
definition MCONTEXT_ARM_R4 :: u32 where "MCONTEXT_ARM_R4 = 48"
definition MCONTEXT_ARM_SP :: u32 where "MCONTEXT_ARM_SP = 84"
definition MCONTEXT_ARM_LR :: u32 where "MCONTEXT_ARM_LR = 88"
definition MCONTEXT_ARM_PC :: u32 where "MCONTEXT_ARM_PC = 92"
definition UCONTEXT_REGSPACE :: u32 where "UCONTEXT_REGSPACE = 232"

named_theorems offsets

lemmas asm_offsets [offsets] = MCONTEXT_ARM_R0_def MCONTEXT_ARM_R4_def MCONTEXT_ARM_SP_def
  MCONTEXT_ARM_LR_def MCONTEXT_ARM_PC_def UCONTEXT_REGSPACE_def

text \<open>
  The structures of the C side as lists of fields with size and alignment in bytes on ARM
  (\<open>int\<close>, \<open>long\<close>, \<open>size_t\<close> and pointers have four bytes), placed one after the other.
\<close>

type_synonym field = "string \<times> nat \<times> nat"

fun place :: "nat \<Rightarrow> field list \<Rightarrow> (string \<times> nat) list" where
  "place n [] = []"
| "place n ((f, sz, align) # fs) =
     (let p = (n + align - 1) div align * align in (f, p) # place (p + sz) fs)"

definition offset_of :: "field list \<Rightarrow> string \<Rightarrow> nat" where
  "offset_of fs f = (case map_of (place 0 fs) f of Some p \<Rightarrow> p | None \<Rightarrow> 0)"

definition long_field :: "string \<Rightarrow> field" where
  "long_field f = (f, 4, 4)"

definition stack_t_fields :: "field list" where
  "stack_t_fields = map long_field [''ss_sp'', ''ss_flags'', ''ss_size'']"

definition sigcontext_fields :: "field list" where
  "sigcontext_fields = map long_field
     [''trap_no'', ''error_code'', ''oldmask'', ''arm_r0'', ''arm_r1'', ''arm_r2'', ''arm_r3'', ''arm_r4'',
      ''arm_r5'', ''arm_r6'', ''arm_r7'', ''arm_r8'', ''arm_r9'', ''arm_r10'', ''arm_fp'', ''arm_ip'',
      ''arm_sp'', ''arm_lr'', ''arm_pc'', ''arm_cpsr'', ''fault_address'']"

definition sigset_words :: nat where
  "sigset_words = 1024 div (8 * 4)"

definition regspace_words :: nat where
  "regspace_words = 128"

definition ucontext_fields :: "field list" where
  "ucontext_fields =
     [long_field ''uc_flags'', long_field ''uc_link'',
      (''uc_stack'', 4 * length stack_t_fields, 4),
      (''uc_mcontext'', 4 * length sigcontext_fields, 4),
      (''uc_sigmask'', 4 * sigset_words, 4),
      (''uc_regspace'', 4 * regspace_words, 8)]"

definition uc_field :: "string \<Rightarrow> u32" where
  "uc_field f = of_nat (offset_of ucontext_fields f)"

definition uc_stack_field :: "string \<Rightarrow> u32" where
  "uc_stack_field f = uc_field ''uc_stack'' + of_nat (offset_of stack_t_fields f)"

definition uc_mcontext_field :: "string \<Rightarrow> u32" where
  "uc_mcontext_field f = uc_field ''uc_mcontext'' + of_nat (offset_of sigcontext_fields f)"

definition sizeof_ucontext :: nat where
  "sizeof_ucontext = offset_of ucontext_fields ''uc_regspace'' + 4 * regspace_words"

lemmas layout_defs = uc_field_def uc_stack_field_def uc_mcontext_field_def sizeof_ucontext_def
  offset_of_def ucontext_fields_def stack_t_fields_def sigcontext_fields_def long_field_def
  sigset_words_def regspace_words_def Let_def

lemma c_offsets [offsets]:
  "uc_field ''uc_link'' = 4"
  "uc_stack_field ''ss_sp'' = 8"
  "uc_stack_field ''ss_flags'' = 12"
  "uc_stack_field ''ss_size'' = 16"
  "uc_mcontext_field ''arm_r0'' = 32"
  "uc_mcontext_field ''arm_r4'' = 48"
  "uc_mcontext_field ''arm_sp'' = 84"
  "uc_mcontext_field ''arm_lr'' = 88"
  "uc_mcontext_field ''arm_pc'' = 92"
  "uc_field ''uc_regspace'' = 232"
  "sizeof_ucontext = 744"
  by (simp_all add: layout_defs)

section \<open>The routines\<close>

text \<open>
  \<open>getcontext.S\<close> and \<open>setcontext.S\<close>, without the transfers of the iWMMXt registers, which the branch
  to \<open>.Lno_iwmmxt\<close> skips. The argument is in \<open>r0\<close>.
\<close>

definition getcontext :: "cpu \<Rightarrow> cpu" where
  "getcontext = run_asm
     [ADD 1 0 MCONTEXT_ARM_R4,
      STMIA 1 [4, 5, 6, 7, 8, 9, 10, 11],
      STRI 13 0 MCONTEXT_ARM_SP,
      STRI 14 0 MCONTEXT_ARM_LR,
      STRI 14 0 MCONTEXT_ARM_PC,
      MOVI 2 0,
      STRI 2 0 MCONTEXT_ARM_R0,
      MOV 4 0,
      ADD 0 4 UCONTEXT_REGSPACE,
      VSTMIA 0,
      FMRX 1,
      STRI_POST 1 0 4,
      LDRI 14 4 MCONTEXT_ARM_LR,
      LDRI 4 4 MCONTEXT_ARM_R4,
      MOVI 0 0,
      BX 14]"

definition setcontext :: "cpu \<Rightarrow> cpu" where
  "setcontext = run_asm
     [MOV 4 0,
      ADD 0 0 UCONTEXT_REGSPACE,
      VLDMIA 0,
      LDRI_POST 1 0 4,
      FMXR 1,
      ADD 14 4 MCONTEXT_ARM_R0,
      LDMIA 14 [0, 1, 2, 3, 4, 5, 6, 7, 8, 9, 10, 11, 12],
      LDRI 13 14 (MCONTEXT_ARM_SP - MCONTEXT_ARM_R0),
      ADD 14 14 (MCONTEXT_ARM_LR - MCONTEXT_ARM_R0),
      LDMIA 14 [14, 15]]"

text \<open>
  \<open>__startcontext\<close>, where a function started by \<open>makecontext\<close> returns to: it goes on with the context
  in \<open>r4\<close>, or calls \<open>exit\<close>.
\<close>

datatype returning = Continues cpu | Exits cpu

definition startcontext :: "cpu \<Rightarrow> returning" where
  "startcontext c =
     (let c = run_asm [MOVS 0 4] c in if \<not> z_flag c then Continues (setcontext c) else Exits c)"

text \<open>
  \<open>swapcontext.S\<close>; \<open>ret\<close> is the address behind its \<open>bl getcontext\<close>, where \<open>getcontext\<close> returns to.
\<close>

definition swapcontext :: "u32 \<Rightarrow> cpu \<Rightarrow> cpu" where
  "swapcontext ret c =
     (let c = run_asm [PUSH [0, 1, 3, 14]] c;
          c = getcontext (set_rg 14 ret c);
          c = run_asm [MOV 4 0, POP [0, 1, 3, 14], CMP 4 0] c
      in if \<not> z_flag c then run_asm [MOV 0 4, BX 14] c
         else
           let c = run_asm [STRI 13 0 MCONTEXT_ARM_SP, STRI 14 0 MCONTEXT_ARM_LR,
                         STRI 14 0 MCONTEXT_ARM_PC, MOV 0 1] c
           in setcontext c)"

text \<open>
  \<open>makecontext\<close> on the memory: \<open>startc\<close> is the address of \<open>__startcontext\<close>, \<open>args\<close> are the \<open>argc\<close>
  variable arguments. The two loops store the first four in the register slots and the rest on the
  stack, both through a pointer that moves up.
\<close>

definition NREG_ARGS :: nat where "NREG_ARGS = 4"

definition makecontext_sp :: "u32 \<Rightarrow> nat \<Rightarrow> u32" where
  "makecontext_sp funcstack argc =
     (let misaligned = (funcstack AND 4 \<noteq> 0);
          misaligned = (if argc > NREG_ARGS \<and> odd argc then \<not> misaligned else misaligned);
          funcstack = (if misaligned then funcstack - 4 else funcstack)
      in if argc > NREG_ARGS then funcstack - 4 * of_nat (argc - NREG_ARGS) else funcstack)"

definition makecontext :: "u32 \<Rightarrow> u32 \<Rightarrow> u32 \<Rightarrow> u32 list \<Rightarrow> heap_words \<Rightarrow> heap_words" where
  "makecontext startc ucp func args m =
     (let funcstack = m (ucp + uc_stack_field ''ss_sp'') + m (ucp + uc_stack_field ''ss_size'');
          funcstack = makecontext_sp funcstack (length args);
          m = m(ucp + uc_mcontext_field ''arm_sp'' := funcstack);
          m = m(ucp + uc_mcontext_field ''arm_pc'' := func);
          m = m(ucp + uc_mcontext_field ''arm_r4'' := m (ucp + uc_field ''uc_link''));
          m = m(ucp + uc_mcontext_field ''arm_lr'' := startc);
          m = store_words (ucp + uc_mcontext_field ''arm_r0'') (take NREG_ARGS args) m
      in store_words funcstack (drop NREG_ARGS args) m)"

text \<open>\<open>arch_thread_initialize\<close> and \<open>arch_context_switch\<close> of \<open>src/lk/arch_thread.c\<close> on this machine.\<close>

definition call_getcontext :: "u32 \<Rightarrow> u32 \<Rightarrow> cpu \<Rightarrow> cpu" where
  "call_getcontext lr ucp c = getcontext (set_rg 0 ucp (set_rg 14 lr c))"

definition arm_thread_initialize ::
  "u32 \<Rightarrow> u32 \<Rightarrow> u32 \<Rightarrow> u32 \<Rightarrow> u32 \<Rightarrow> u32 \<Rightarrow> cpu \<Rightarrow> cpu" where
  "arm_thread_initialize lr startc initial_thread_func ucp stack stack_size c =
     (let c = call_getcontext lr ucp c;
          m = mem c;
          m = m(ucp + uc_stack_field ''ss_sp'' := stack);
          m = m(ucp + uc_stack_field ''ss_size'' := stack_size);
          m = m(ucp + uc_stack_field ''ss_flags'' := 0);
          m = m(ucp + uc_field ''uc_link'' := 0)
      in c\<lparr>mem := makecontext startc ucp initial_thread_func [] m\<rparr>)"

definition arm_context_switch :: "u32 \<Rightarrow> u32 \<Rightarrow> u32 \<Rightarrow> u32 \<Rightarrow> cpu \<Rightarrow> cpu" where
  "arm_context_switch ret lr old_context new_context c =
     swapcontext ret (set_rg 0 old_context (set_rg 1 new_context (set_rg 14 lr c)))"

section \<open>What the routines store and load\<close>

lemma run_asm_simps [simp]: "run_asm [] c = c" "run_asm (i # is) c = run_asm is (step_asm i c)"
  by (simp_all add: run_asm_def)

lemma set_rg_simps [simp]:
  "rg (set_rg r v c) = (rg c)(r := v)"
  "vfp (set_rg r v c) = vfp c"
  "fpscr (set_rg r v c) = fpscr c"
  "z_flag (set_rg r v c) = z_flag c"
  "mem (set_rg r v c) = mem c"
  by (simp_all add: set_rg_def)

lemma d8_d15_list: "d8_d15 = [0, 1, 2, 3, 4, 5, 6, 7, 8, 9, 10, 11, 12, 13, 14, 15]"
  by (simp add: d8_d15_def upt_rec)

text \<open>What a context holds, and what the processor goes on with.\<close>

record saved =
  s_callee :: "u32 list"
  s_r0 :: u32
  s_sp :: u32
  s_lr :: u32
  s_pc :: u32
  s_vfp :: "u32 list"
  s_fpscr :: u32

definition callee_regs :: "nat list" where
  "callee_regs = [4, 5, 6, 7, 8, 9, 10, 11]"

definition saved_at :: "heap_words \<Rightarrow> u32 \<Rightarrow> saved" where
  "saved_at m ucp =
     \<lparr>s_callee = map (\<lambda>i. m (ucp + MCONTEXT_ARM_R0 + 4 * of_nat i)) callee_regs,
      s_r0 = m (ucp + MCONTEXT_ARM_R0),
      s_sp = m (ucp + MCONTEXT_ARM_SP),
      s_lr = m (ucp + MCONTEXT_ARM_LR),
      s_pc = m (ucp + MCONTEXT_ARM_PC),
      s_vfp = map (\<lambda>i. m (ucp + UCONTEXT_REGSPACE + 4 * of_nat i)) d8_d15,
      s_fpscr = m (ucp + UCONTEXT_REGSPACE + 64)\<rparr>"

definition going_on :: "cpu \<Rightarrow> saved" where
  "going_on c =
     \<lparr>s_callee = map (rg c) callee_regs, s_r0 = rg c 0, s_sp = rg c 13, s_lr = rg c 14, s_pc = rg c 15,
      s_vfp = map (vfp c) d8_d15, s_fpscr = fpscr c\<rparr>"

text \<open>The state in which a call made with this processor state returns 0 to its caller.\<close>

definition return_zero :: "cpu \<Rightarrow> saved" where
  "return_zero c = (going_on c)\<lparr>s_r0 := 0, s_pc := rg c 14\<rparr>"

text \<open>
  The bytes from \<open>a\<close> on and those from \<open>b\<close> on, with the address arithmetic of the machine: a byte lies
  in a region when its distance from the start is less than the size, and two regions are separate
  when each starts behind the other.
\<close>

definition inside :: "u32 \<Rightarrow> nat \<Rightarrow> u32 \<Rightarrow> bool" where
  "inside a n x \<longleftrightarrow> unat (x - a) < n"

definition separate :: "u32 \<Rightarrow> nat \<Rightarrow> u32 \<Rightarrow> nat \<Rightarrow> bool" where
  "separate a n b m \<longleftrightarrow> n \<le> unat (b - a) \<and> m \<le> unat (a - b)"

abbreviation in_context :: "u32 \<Rightarrow> u32 \<Rightarrow> bool" where
  "in_context ucp \<equiv> inside ucp sizeof_ucontext"

lemma separate_sym: "separate a n b m \<Longrightarrow> separate b m a n"
  by (simp add: separate_def)

lemma separate_not_inside:
  assumes "separate a n b m" and "inside a n x"
  shows "\<not> inside b m x"
proof -
  define p q where "p = x - a" and "q = b - a"
  have "x - b = p - q" "a - b = 0 - q"
    by (simp_all add: p_def q_def)
  moreover have "unat p < n" "n \<le> unat q" "m \<le> unat (a - b)"
    using assms by (simp_all add: inside_def separate_def p_def q_def)
  moreover have "unat (0 - q) + unat q = 2 ^ 32 \<or> unat q = 0"
    using unat_sub_if_size [of 0 q] unsigned_less [of q, where ?'a = nat] by (auto simp: size_word_def)
  ultimately show ?thesis
    using unsigned_less [of p, where ?'a = nat] unat_sub_if_size [of p q]
    by (auto simp: inside_def size_word_def not_less)
qed

lemma getcontext_saves:
  "saved_at (mem (getcontext c)) (rg c 0) = return_zero c"
  by (simp add: getcontext_def saved_at_def return_zero_def going_on_def callee_regs_def d8_d15_list offsets
      add.assoc)

lemma getcontext_state:
  "rg (getcontext c) 0 = 0" "r \<notin> {0, 1, 2, 15} \<Longrightarrow> rg (getcontext c) r = rg c r"
  "rg (getcontext c) 15 = rg c 14"
  "vfp (getcontext c) = vfp c" "fpscr (getcontext c) = fpscr c"
  by (simp_all add: getcontext_def d8_d15_list offsets add.assoc)

lemma getcontext_frame:
  "\<not> in_context (rg c 0) a \<Longrightarrow> mem (getcontext c) a = mem c a"
  by (auto simp: getcontext_def inside_def d8_d15_list offsets add.assoc)

lemma setcontext_going_on: "going_on (setcontext c) = saved_at (mem c) (rg c 0)"
  by (simp add: setcontext_def saved_at_def going_on_def callee_regs_def d8_d15_list offsets add.assoc)

lemma setcontext_mem: "mem (setcontext c) = mem c"
  by (simp add: setcontext_def)

lemma saved_at_cong:
  assumes "\<And>a. in_context ucp a \<Longrightarrow> m a = m' a"
  shows "saved_at m ucp = saved_at m' ucp"
  by (simp add: saved_at_def callee_regs_def d8_d15_list offsets add.assoc assms inside_def)

lemma saved_at_upd:
  "saved_at (m(ucp + MCONTEXT_ARM_SP := v)) ucp = (saved_at m ucp)\<lparr>s_sp := v\<rparr>"
  "saved_at (m(ucp + MCONTEXT_ARM_LR := v)) ucp = (saved_at m ucp)\<lparr>s_lr := v\<rparr>"
  "saved_at (m(ucp + MCONTEXT_ARM_PC := v)) ucp = (saved_at m ucp)\<lparr>s_pc := v\<rparr>"
  by (simp_all add: saved_at_def callee_regs_def d8_d15_list offsets add.assoc)

lemma in_context_offsets:
  "in_context ucp (ucp + MCONTEXT_ARM_SP)" "in_context ucp (ucp + MCONTEXT_ARM_LR)"
  "in_context ucp (ucp + MCONTEXT_ARM_PC)"
  by (simp_all add: inside_def offsets)

section \<open>Swapping contexts\<close>

text \<open>
  \<open>swapcontext\<close> uses the 16 bytes below the stack pointer. When they and the two contexts are separate,
  the old context gets the state in which this very call returns 0, the processor goes on with what
  the new context holds, and no other memory changes.
\<close>

definition swap_frame :: nat where "swap_frame = 16"

definition can_swap :: "u32 \<Rightarrow> u32 \<Rightarrow> u32 \<Rightarrow> bool" where
  "can_swap sp old_context new_context \<longleftrightarrow>
     separate old_context sizeof_ucontext new_context sizeof_ucontext \<and>
     separate (sp - of_nat swap_frame) swap_frame old_context sizeof_ucontext \<and>
     separate (sp - of_nat swap_frame) swap_frame new_context sizeof_ucontext"

lemma push_frame:
  fixes sp :: u32
  assumes "\<not> inside (sp - of_nat swap_frame) swap_frame x"
  shows "x \<noteq> sp - 16 \<and> x \<noteq> sp - 12 \<and> x \<noteq> sp - 8 \<and> x \<noteq> sp - 4"
  using assms by (auto simp: inside_def swap_frame_def)

lemma swapcontext_before_set:
  assumes sep: "can_swap (rg c 13) (rg c 0) (rg c 1)"
  obtains c' where "swapcontext ret c = setcontext c'" and "rg c' 0 = rg c 1"
    and "saved_at (mem c') (rg c 0) = return_zero c"
    and "\<And>a. \<not> in_context (rg c 0) a \<Longrightarrow> \<not> inside (rg c 13 - of_nat swap_frame) swap_frame a \<Longrightarrow>
      mem c' a = mem c a"
proof -
  define c1 where "c1 = set_rg 14 ret (run_asm [PUSH [0, 1, 3, 14]] c)"
  define c2 where "c2 = getcontext c1"
  define c3 where "c3 = run_asm [MOV 4 0, POP [0, 1, 3, 14], CMP 4 0] c2"
  define c4 where "c4 = run_asm [STRI 13 0 MCONTEXT_ARM_SP, STRI 14 0 MCONTEXT_ARM_LR,
    STRI 14 0 MCONTEXT_ARM_PC, MOV 0 1] c3"
  let ?push = "inside (rg c 13 - of_nat swap_frame) swap_frame"
  have c1: "rg c1 = (rg c)(13 := rg c 13 - 16, 14 := ret)"
    "mem c1 = (mem c)(rg c 13 - 16 := rg c 0, rg c 13 - 12 := rg c 1, rg c 13 - 8 := rg c 3,
       rg c 13 - 4 := rg c 14)"
    "vfp c1 = vfp c" "fpscr c1 = fpscr c"
    by (simp_all add: c1_def Let_def)
  have push: "?push (rg c 13 - 16)" "?push (rg c 13 - 12)" "?push (rg c 13 - 8)" "?push (rg c 13 - 4)"
    by (simp_all add: inside_def swap_frame_def)
  have sep1: "?push a \<Longrightarrow> \<not> in_context (rg c 0) a" for a
    using sep separate_not_inside by (auto simp: can_swap_def)
  have frame2: "mem c2 a = mem c1 a" if "?push a" for a
    using sep1 [OF that] getcontext_frame [of c1 a] by (simp add: c2_def c1(1))
  note pushed = push [THEN frame2, unfolded c1(2), simplified]
  have c2: "rg c2 0 = 0" "rg c2 13 = rg c 13 - 16"
    by (simp_all add: c2_def getcontext_state c1(1))
  have z: "z_flag c3" and c3: "rg c3 0 = rg c 0" "rg c3 1 = rg c 1" "rg c3 14 = rg c 14"
    "rg c3 13 = rg c 13" "mem c3 = mem c2"
    unfolding c3_def by (simp_all add: Let_def pushed c2)
  have mem4: "mem c4 = (mem c2)(rg c 0 + MCONTEXT_ARM_SP := rg c 13,
      rg c 0 + MCONTEXT_ARM_LR := rg c 14, rg c 0 + MCONTEXT_ARM_PC := rg c 14)"
    by (simp add: c4_def c3)
  have "swapcontext ret c = setcontext c4"
    using z by (simp add: swapcontext_def Let_def c4_def c3_def c2_def c1_def)
  moreover have "rg c4 0 = rg c 1"
    by (simp add: c4_def c3 [simplified])
  moreover have "saved_at (mem c4) (rg c 0) = return_zero c"
    using getcontext_saves [of c1] unfolding mem4 saved_at_upd
    by (simp add: c2_def [symmetric] c1 return_zero_def going_on_def callee_regs_def)
  moreover have "mem c4 a = mem c a" if "\<not> in_context (rg c 0) a" "\<not> ?push a" for a
    using that in_context_offsets [of "rg c 0"] push_frame [OF that(2)]
      getcontext_frame [of c1 a] by (auto simp: mem4 c2_def c1)
  ultimately show thesis
    by (rule that)
qed

theorem swapcontext_spec:
  assumes sep: "can_swap (rg c 13) (rg c 0) (rg c 1)"
  shows "going_on (swapcontext ret c) = saved_at (mem c) (rg c 1) \<and>
    saved_at (mem (swapcontext ret c)) (rg c 0) = return_zero c \<and>
    (\<forall>a. \<not> in_context (rg c 0) a \<and> \<not> inside (rg c 13 - of_nat swap_frame) swap_frame a \<longrightarrow>
       mem (swapcontext ret c) a = mem c a)"
proof -
  from sep obtain c' where c': "swapcontext ret c = setcontext c'" "rg c' 0 = rg c 1"
    "saved_at (mem c') (rg c 0) = return_zero c"
    "\<And>a. \<not> in_context (rg c 0) a \<Longrightarrow> \<not> inside (rg c 13 - of_nat swap_frame) swap_frame a \<Longrightarrow>
       mem c' a = mem c a"
    by (rule swapcontext_before_set [where ret = ret]) blast
  have "mem c' a = mem c a" if "in_context (rg c 1) a" for a
    using that sep separate_not_inside [of "rg c 1" sizeof_ucontext _ _ a] separate_sym c'(4)
    by (auto simp: can_swap_def)
  from saved_at_cong [OF this] show ?thesis
    using c' by (simp add: setcontext_going_on setcontext_mem)
qed

section \<open>Starting a function\<close>

lemma store_words_outside:
  "\<not> inside a (4 * length vs) x \<Longrightarrow> 4 * length vs \<le> 2 ^ 32 \<Longrightarrow> store_words a vs m x = m x"
proof (induction vs arbitrary: a m)
  case (Cons v vs)
  have "x \<noteq> a"
    using Cons.prems by (auto simp: inside_def)
  moreover have "\<not> inside (a + 4) (4 * length vs) x"
  proof
    assume "inside (a + 4) (4 * length vs) x"
    moreover have "x - a = (x - (a + 4)) + 4"
      by simp
    ultimately show False
      using Cons.prems unat_add_lem [of "x - (a + 4)" 4] by (simp add: inside_def)
  qed
  ultimately show ?case
    using Cons by simp
qed simp

lemma store_words_at:
  "i < length vs \<Longrightarrow> 4 * length vs \<le> 2 ^ 32 \<Longrightarrow> store_words a vs m (a + 4 * of_nat i) = vs ! i"
proof (induction vs arbitrary: a m i)
  case (Cons v vs)
  show ?case
  proof (cases i)
    case 0
    have "\<not> inside (a + 4) (4 * length vs) a"
      using Cons.prems by (simp add: inside_def)
    then show ?thesis
      using 0 Cons.prems by (simp add: store_words_outside)
  next
    case (Suc j)
    have "store_words (a + 4) vs (m(a := v)) ((a + 4) + 4 * of_nat j) = vs ! j"
      using Suc Cons.prems by (intro Cons.IH) simp_all
    then show ?thesis
      by (simp add: Suc algebra_simps)
  qed
qed simp

text \<open>
  The stack pointer \<open>makecontext\<close> chooses: below the top by the words on the stack, and one more where
  that is needed to make it a multiple of eight.
\<close>

definition start_words :: "nat \<Rightarrow> nat \<Rightarrow> nat" where
  "start_words hi argc =
     (let n = argc - NREG_ARGS in n + (if even (hi div 4 + n) then 0 else 1))"

lemma start_words_bounds:
  "argc - NREG_ARGS \<le> start_words hi argc \<and> start_words hi argc \<le> argc - NREG_ARGS + 1"
  by (simp_all add: start_words_def Let_def)

lemma and_4_odd: "(w :: u32) AND 4 \<noteq> 0 \<longleftrightarrow> odd (unat w div 4)"
proof -
  have "bit w 2 \<longleftrightarrow> bit (unat w) 2"
    by (simp add: bit_unsigned_iff)
  also have "... \<longleftrightarrow> odd (unat w div 4)"
    by (simp add: bit_iff_odd [of "unat w" 2])
  finally show ?thesis
    using and_exp_eq_0_iff_not_bit [of w 2] by simp
qed

lemma makecontext_sp_eq:
  "makecontext_sp hi argc = hi - 4 * of_nat (start_words (unat hi) argc)"
  by (cases "NREG_ARGS < argc")
    (auto simp: makecontext_sp_def start_words_def and_4_odd Let_def algebra_simps not_less
      NREG_ARGS_def)

lemma unat_sub_words:
  assumes "4 * n \<le> unat (hi :: u32)"
  shows "unat (hi - 4 * of_nat n) = unat hi - 4 * n"
proof -
  have "unat (of_nat (4 * n) :: u32) = 4 * n"
    using assms unsigned_less [of hi, where ?'a = nat]
    by (simp only: unsigned_of_nat) (simp add: take_bit_nat_eq_self)
  then have "unat (4 * of_nat n :: u32) = 4 * n"
    by simp
  then show ?thesis
    using assms by (simp add: unat_sub word_le_nat_alt)
qed

lemma makecontext_sp_aligned:
  assumes "4 dvd unat hi" and "4 * (argc - NREG_ARGS) + 4 \<le> unat hi"
  shows "unat (makecontext_sp hi argc) = unat hi - 4 * start_words (unat hi) argc"
    and "8 dvd unat (makecontext_sp hi argc)"
proof -
  have le: "4 * start_words (unat hi) argc \<le> unat hi"
    using assms by (simp add: start_words_def Let_def)
  then show eq: "unat (makecontext_sp hi argc) = unat hi - 4 * start_words (unat hi) argc"
    by (simp add: makecontext_sp_eq unat_sub_words)
  obtain t where t: "unat hi = 4 * t"
    using assms(1) by blast
  have "even (t - start_words (unat hi) argc)"
    using le by (auto simp: t start_words_def Let_def)
  then show "8 dvd unat (makecontext_sp hi argc)"
    by (auto simp: eq t elim!: evenE simp flip: right_diff_distrib')
qed

text \<open>
  The stack handed to \<open>makecontext\<close> lies apart from the context, does not reach the end of the address
  space, ends at a word and has room for the arguments and one word of padding.
\<close>

definition entry_stack_ok :: "u32 \<Rightarrow> u32 \<Rightarrow> u32 \<Rightarrow> nat \<Rightarrow> bool" where
  "entry_stack_ok ucp stack stack_size argc \<longleftrightarrow>
     separate stack (unat stack_size) ucp sizeof_ucontext \<and>
     unat stack + unat stack_size < 2 ^ 32 \<and>
     4 dvd unat stack + unat stack_size \<and>
     4 * (argc - NREG_ARGS) + 4 \<le> unat stack_size"

lemma entry_stack_sp:
  assumes "entry_stack_ok ucp stack stack_size argc"
  defines "sp \<equiv> makecontext_sp (stack + stack_size) argc"
  shows "8 dvd unat sp" and "unat stack \<le> unat sp"
    and "unat sp + 4 * (argc - NREG_ARGS) \<le> unat stack + unat stack_size"
proof -
  have top: "unat (stack + stack_size) = unat stack + unat stack_size"
    using assms(1) unat_add_lem [of stack stack_size] by (simp add: entry_stack_ok_def)
  have "unat sp = unat stack + unat stack_size - 4 * start_words (unat stack + unat stack_size) argc"
    and "8 dvd unat sp"
    using makecontext_sp_aligned [of "stack + stack_size" argc] assms(1)
    by (simp_all add: sp_def top entry_stack_ok_def)
  with start_words_bounds [of argc "unat stack + unat stack_size"] show "8 dvd unat sp" and "unat stack \<le> unat sp"
    and "unat sp + 4 * (argc - NREG_ARGS) \<le> unat stack + unat stack_size"
    using assms(1) by (auto simp: entry_stack_ok_def)
qed

lemma inside_part:
  assumes "unat a \<le> unat b" and "unat b + n \<le> unat a + k" and "inside b n x"
  shows "inside a k x"
proof -
  have "x - a = (x - b) + (b - a)"
    by simp
  moreover have "unat (b - a) = unat b - unat a"
    using assms(1) by (simp add: unat_sub word_le_nat_alt)
  moreover have "unat ((x - b) + (b - a)) \<le> unat (x - b) + unat (b - a)"
    by (simp only: unat_plus_if_size split: if_split) simp
  ultimately show ?thesis
    using assms by (simp add: inside_def)
qed

text \<open>
  What \<open>makecontext\<close> leaves behind: the fields of the context, the arguments and the frame.
\<close>

lemma makecontext_fields:
  assumes ok: "entry_stack_ok ucp stack stack_size (length args)"
    and stack: "m (ucp + uc_stack_field ''ss_sp'') = stack" "m (ucp + uc_stack_field ''ss_size'') = stack_size"
    and sp_def: "sp = makecontext_sp (stack + stack_size) (length args)"
    and m'_def: "m' = makecontext startc ucp func args m"
  shows makecontext_saved: "s_sp (saved_at m' ucp) = sp \<and> s_pc (saved_at m' ucp) = func \<and>
      s_lr (saved_at m' ucp) = startc \<and> hd (s_callee (saved_at m' ucp)) = m (ucp + uc_field ''uc_link'')"
    and makecontext_regs: "i < length args \<Longrightarrow> i < NREG_ARGS \<Longrightarrow> m' (ucp + MCONTEXT_ARM_R0 + 4 * of_nat i) = args ! i"
    and makecontext_stack: "i < length args - NREG_ARGS \<Longrightarrow> m' (sp + 4 * of_nat i) = args ! (NREG_ARGS + i)"
    and makecontext_frame: "\<not> in_context ucp a \<Longrightarrow> \<not> inside stack (unat stack_size) a \<Longrightarrow> m' a = m a"
proof -
  let ?r0 = "ucp + uc_mcontext_field ''arm_r0''"
  define m1 where "m1 = m(ucp + uc_mcontext_field ''arm_sp'' := sp, ucp + uc_mcontext_field ''arm_pc'' := func,
    ucp + uc_mcontext_field ''arm_r4'' := m (ucp + uc_field ''uc_link''),
    ucp + uc_mcontext_field ''arm_lr'' := startc)"
  define m2 where "m2 = store_words ?r0 (take NREG_ARGS args) m1"
  have m': "m' = store_words sp (drop NREG_ARGS args) m2"
    by (simp only: m'_def makecontext_def Let_def stack m2_def m1_def sp_def) (simp add: offsets)
  have small: "4 * length (drop NREG_ARGS args) \<le> 2 ^ 32"
    using ok unsigned_less [of stack_size, where ?'a = nat] by (simp add: entry_stack_ok_def)
  have on_stack: "inside stack (unat stack_size) a" if "inside sp (4 * length (drop NREG_ARGS args)) a" for a
    using entry_stack_sp [OF ok] that by (auto simp: sp_def intro: inside_part)
  have m2: "m' a = m2 a" if "\<not> inside stack (unat stack_size) a" for a
    unfolding m' using that on_stack small by (intro store_words_outside) blast+
  have ctx: "m' a = m2 a" if "in_context ucp a" for a
    using that ok separate_not_inside [OF separate_sym] by (intro m2) (auto simp: entry_stack_ok_def)
  show "i < length args - NREG_ARGS \<Longrightarrow> m' (sp + 4 * of_nat i) = args ! (NREG_ARGS + i)"
    using small by (simp add: m' store_words_at)
  show "i < length args \<Longrightarrow> i < NREG_ARGS \<Longrightarrow> m' (ucp + MCONTEXT_ARM_R0 + 4 * of_nat i) = args ! i"
  proof -
    assume i: "i < length args" "i < NREG_ARGS"
    then have "i = 0 \<or> i = 1 \<or> i = 2 \<or> i = 3"
      by (auto simp: NREG_ARGS_def)
    then have "in_context ucp (ucp + MCONTEXT_ARM_R0 + 4 * of_nat i)"
      by (auto simp: inside_def offsets)
    moreover have "m2 (?r0 + 4 * of_nat i) = args ! i"
      using i by (simp add: m2_def store_words_at NREG_ARGS_def)
    ultimately show ?thesis
      by (simp add: ctx offsets)
  qed
  have regs: "m2 a = m1 a" if "16 \<le> unat (a - ?r0)" for a
    using that by (auto simp: m2_def inside_def NREG_ARGS_def intro!: store_words_outside)
  have "saved_at m' ucp = saved_at m2 ucp"
    using ctx by (rule saved_at_cong)
  then show "s_sp (saved_at m' ucp) = sp \<and> s_pc (saved_at m' ucp) = func \<and>
      s_lr (saved_at m' ucp) = startc \<and> hd (s_callee (saved_at m' ucp)) = m (ucp + uc_field ''uc_link'')"
    by (simp add: saved_at_def callee_regs_def regs m1_def offsets add.assoc)
  show "m' a = m a" if a: "\<not> in_context ucp a" "\<not> inside stack (unat stack_size) a"
  proof -
    have "16 \<le> unat (a - ?r0)"
    proof (rule ccontr)
      assume "\<not> 16 \<le> unat (a - ?r0)"
      moreover have "a - ucp = (a - ?r0) + 32"
        by (simp add: offsets)
      ultimately have "unat (a - ucp) < 48"
        by (simp only: unat_plus_if_size split: if_split) (simp add: size_word_def)
      with a(1) show False
        by (simp add: inside_def offsets)
    qed
    with a show ?thesis
      by (auto simp: m2 regs m1_def inside_def offsets)
  qed
qed

end
