(* ===== verification/Arm_Switch.thy ===== *)
theory Arm_Switch imports Arm_Context Scheduler begin

text \<open>
  Threads on the machine: the contract of a context switch as a locale, its two implementations (the
  assembler of \<open>Arm_Context\<close> and the call stacks of the scheduler's model), and the start of a new
  thread.
\<close>

section \<open>The contract\<close>

text \<open>
  A thread is away from the moment it is switched away from: the other threads run, which leaves what
  is saved of it alone, and switch among each other and back to it.
\<close>

inductive away ::
  "('m \<Rightarrow> 't \<Rightarrow> 'c) \<Rightarrow> ('t \<Rightarrow> 't \<Rightarrow> 'm \<Rightarrow> bool) \<Rightarrow> ('t \<Rightarrow> 't \<Rightarrow> 'm \<Rightarrow> 'm) \<Rightarrow> 't \<Rightarrow> 'm \<Rightarrow> 'm \<Rightarrow> bool"
  for saved_of can switch t m where
  away_start: "away saved_of can switch t m m"
| away_run: "away saved_of can switch t m m' \<Longrightarrow> saved_of m'' t = saved_of m' t \<Longrightarrow>
    away saved_of can switch t m m''"
| away_switch: "away saved_of can switch t m m' \<Longrightarrow> can old new m' \<Longrightarrow> old \<noteq> t \<Longrightarrow>
    away saved_of can switch t m (switch old new m')"

locale context_switch =
  fixes threads :: "'t set"
    and saved_of :: "'m \<Rightarrow> 't \<Rightarrow> 'c"
    and at_call :: "'m \<Rightarrow> 't \<Rightarrow> 'c"
    and goes_on :: "'m \<Rightarrow> 't \<Rightarrow> 'c"
    and can :: "'t \<Rightarrow> 't \<Rightarrow> 'm \<Rightarrow> bool"
    and switch :: "'t \<Rightarrow> 't \<Rightarrow> 'm \<Rightarrow> 'm"
  assumes switch_known: "can old new m \<Longrightarrow> old \<in> threads \<and> new \<in> threads"
    and switch_goes_on: "can old new m \<Longrightarrow> goes_on (switch old new m) new = saved_of m new"
    and switch_saves: "can old new m \<Longrightarrow> saved_of (switch old new m) old = at_call m old"
    and switch_keeps: "can old new m \<Longrightarrow> t \<in> threads \<Longrightarrow> t \<noteq> old \<Longrightarrow>
      saved_of (switch old new m) t = saved_of m t"
begin

lemma away_keeps:
  "away saved_of can switch t m m' \<Longrightarrow> t \<in> threads \<Longrightarrow> saved_of m' t = saved_of m t"
  by (induction rule: away.induct) (auto simp: switch_keeps)

lemma resumes:
  assumes "can t u m" and "away saved_of can switch t (switch t u m) m'" and "can old t m'"
  shows "goes_on (switch old t m') t = at_call m t"
  using assms switch_known [OF assms(1)] by (simp add: switch_goes_on away_keeps switch_saves)

end

section \<open>The machine\<close>

text \<open>
  A thread owns its context and its stack. What is saved of it are the registers in its context and
  the words of its stack from the saved stack pointer on.
\<close>

record arm_thread =
  at_context :: u32
  at_stack :: u32
  at_stack_size :: u32

definition thread_view :: "heap_words \<Rightarrow> saved \<Rightarrow> arm_thread \<Rightarrow> saved \<times> u32 list" where
  "thread_view m s t =
     (s, map (\<lambda>i. if unat (s_sp s - at_stack t) \<le> 4 * i then m (at_stack t + 4 * of_nat i) else 0)
           [0..<unat (at_stack_size t) div 4])"

definition arm_saved_of :: "cpu \<Rightarrow> arm_thread \<Rightarrow> saved \<times> u32 list" where
  "arm_saved_of c t = thread_view (mem c) (saved_at (mem c) (at_context t)) t"

definition arm_at_call :: "u32 \<Rightarrow> cpu \<Rightarrow> arm_thread \<Rightarrow> saved \<times> u32 list" where
  "arm_at_call lr c t = thread_view (mem c) (return_zero (set_rg 14 lr c)) t"

definition arm_goes_on :: "cpu \<Rightarrow> arm_thread \<Rightarrow> saved \<times> u32 list" where
  "arm_goes_on c t = thread_view (mem c) (going_on c) t"

text \<open>
  The contexts and stacks of different threads do not overlap, and the old thread calls with its stack
  pointer in its own stack, with room for the frame of \<open>swapcontext\<close>.
\<close>

definition layout_ok :: "arm_thread list \<Rightarrow> bool" where
  "layout_ok ts \<longleftrightarrow>
     (\<forall>t\<in>set ts. \<forall>u\<in>set ts.
        separate (at_stack t) (unat (at_stack_size t)) (at_context u) sizeof_ucontext \<and>
        (t \<noteq> u \<longrightarrow> separate (at_context t) sizeof_ucontext (at_context u) sizeof_ucontext \<and>
           separate (at_stack t) (unat (at_stack_size t)) (at_stack u) (unat (at_stack_size u))))"

definition runs_on :: "cpu \<Rightarrow> arm_thread \<Rightarrow> bool" where
  "runs_on c t \<longleftrightarrow>
     swap_frame \<le> unat (rg c 13 - at_stack t) \<and> unat (rg c 13 - at_stack t) \<le> unat (at_stack_size t)"

definition arm_can :: "arm_thread list \<Rightarrow> arm_thread \<Rightarrow> arm_thread \<Rightarrow> cpu \<Rightarrow> bool" where
  "arm_can ts old new c \<longleftrightarrow>
     layout_ok ts \<and> old \<in> set ts \<and> new \<in> set ts \<and> old \<noteq> new \<and> runs_on c old"

definition arm_switch :: "u32 \<Rightarrow> u32 \<Rightarrow> arm_thread \<Rightarrow> arm_thread \<Rightarrow> cpu \<Rightarrow> cpu" where
  "arm_switch ret lr old new = arm_context_switch ret lr (at_context old) (at_context new)"

lemma frame_in_stack:
  assumes "runs_on c t" and "inside (rg c 13 - of_nat swap_frame) swap_frame a"
  shows "inside (at_stack t) (unat (at_stack_size t)) a"
    and "unat (a - at_stack t) < unat (rg c 13 - at_stack t)"
proof -
  define p q where "p = rg c 13 - at_stack t" and "q = a - (rg c 13 - 16)"
  have a: "a - at_stack t = (p - 16) + q"
    by (simp add: p_def q_def)
  have p: "16 \<le> unat p" "unat p \<le> unat (at_stack_size t)" and q: "unat q < 16"
    using assms by (simp_all add: runs_on_def inside_def swap_frame_def p_def q_def)
  have "unat (p - 16) = unat p - 16"
    using p(1) by (simp add: unat_sub word_le_nat_alt)
  then have "unat (a - at_stack t) \<le> unat p - 16 + unat q"
    unfolding a by (simp only: unat_plus_if_size split: if_split) simp
  then show "unat (a - at_stack t) < unat (rg c 13 - at_stack t)"
    using p q by (simp add: p_def)
  then show "inside (at_stack t) (unat (at_stack_size t)) a"
    using p by (simp add: inside_def p_def)
qed

lemma stack_word_inside:
  assumes "i < unat (at_stack_size t) div 4"
  shows "unat (4 * of_nat i :: u32) = 4 * i" and "inside (at_stack t) (unat (at_stack_size t)) (at_stack t + 4 * of_nat i)"
proof -
  have le: "4 * i < unat (at_stack_size t)"
    using assms by simp
  then have "unat (of_nat (4 * i) :: u32) = 4 * i"
    using unsigned_less [of "at_stack_size t", where ?'a = nat]
    by (simp only: unsigned_of_nat) (simp add: take_bit_nat_eq_self)
  then show "unat (4 * of_nat i :: u32) = 4 * i"
    by simp
  with le show "inside (at_stack t) (unat (at_stack_size t)) (at_stack t + 4 * of_nat i)"
    by (simp add: inside_def)
qed

lemma thread_view_cong:
  assumes "\<And>a. inside (at_stack t) (unat (at_stack_size t)) a \<Longrightarrow>
      unat (s_sp s - at_stack t) \<le> unat (a - at_stack t) \<Longrightarrow> m a = m' a"
  shows "thread_view m s t = thread_view m' s t"
  by (auto simp: thread_view_def intro!: assms stack_word_inside(2)) (simp_all add: stack_word_inside)

lemma layout_okD:
  assumes "layout_ok ts" and "t \<in> set ts" and "u \<in> set ts"
  shows "separate (at_stack t) (unat (at_stack_size t)) (at_context u) sizeof_ucontext"
    and "t \<noteq> u \<Longrightarrow> separate (at_context t) sizeof_ucontext (at_context u) sizeof_ucontext"
    and "t \<noteq> u \<Longrightarrow>
      separate (at_stack t) (unat (at_stack_size t)) (at_stack u) (unat (at_stack_size u))"
  using assms by (simp_all add: layout_ok_def)

lemma separate_part:
  fixes a b p :: u32
  assumes "separate a n b m" and "unat (p - a) + k \<le> n" and "0 < k"
  shows "separate p k b m"
proof -
  define x y where "x = p - a" and "y = b - a"
  have eqs: "b - p = y - x" "p - b = x - y" "a - b = 0 - y"
    by (simp_all add: x_def y_def)
  have le: "unat x + k \<le> unat y" and m: "m \<le> unat (0 - y)"
    using assms by (simp_all add: separate_def x_def y_def)
  have "unat (0 - y) = 2 ^ 32 - unat y" "unat (y - x) = unat y - unat x"
    "unat (x - y) = unat x + 2 ^ 32 - unat y"
    using le assms(3) unsigned_less [of y, where ?'a = nat]
    by (simp_all only: unat_sub_if_size) (simp_all add: size_word_def)
  with le m unsigned_less [of y, where ?'a = nat] show ?thesis
    unfolding separate_def eqs by auto
qed

lemma arm_can_swap:
  assumes "arm_can ts old new c"
  shows "can_swap (rg c 13) (at_context old) (at_context new)"
proof -
  have runs: "runs_on c old" and lay: "layout_ok ts" "old \<in> set ts" "new \<in> set ts" "old \<noteq> new"
    using assms by (simp_all add: arm_can_def)
  have eq: "(rg c 13 - of_nat swap_frame) - at_stack old = (rg c 13 - at_stack old) - 16"
    by (simp add: swap_frame_def)
  have "unat ((rg c 13 - at_stack old) - 16) = unat (rg c 13 - at_stack old) - 16"
    using runs by (simp add: runs_on_def swap_frame_def unat_sub word_le_nat_alt)
  then have "unat ((rg c 13 - of_nat swap_frame) - at_stack old) + swap_frame \<le> unat (at_stack_size old)"
    unfolding eq using runs by (auto simp: runs_on_def swap_frame_def)
  then show ?thesis
    using lay by (auto simp: can_swap_def swap_frame_def intro: layout_okD separate_part)
qed

lemma arm_switch_effect:
  assumes "arm_can ts old new c"
  shows arm_switch_going_on: "going_on (arm_switch ret lr old new c) = saved_at (mem c) (at_context new)"
    and arm_switch_old: "saved_at (mem (arm_switch ret lr old new c)) (at_context old) = return_zero (set_rg 14 lr c)"
    and arm_switch_frame: "\<not> in_context (at_context old) a \<Longrightarrow>
      \<not> inside (rg c 13 - of_nat swap_frame) swap_frame a \<Longrightarrow> mem (arm_switch ret lr old new c) a = mem c a"
proof -
  let ?c = "set_rg 0 (at_context old) (set_rg 1 (at_context new) (set_rg 14 lr c))"
  have "can_swap (rg ?c 13) (rg ?c 0) (rg ?c 1)"
    using arm_can_swap [OF assms] by simp
  note spec = swapcontext_spec [OF this, of ret]
  have "return_zero ?c = return_zero (set_rg 14 lr c)"
    by (simp add: return_zero_def going_on_def callee_regs_def)
  with spec show "going_on (arm_switch ret lr old new c) = saved_at (mem c) (at_context new)"
    "saved_at (mem (arm_switch ret lr old new c)) (at_context old) = return_zero (set_rg 14 lr c)"
    "\<not> in_context (at_context old) a \<Longrightarrow>
      \<not> inside (rg c 13 - of_nat swap_frame) swap_frame a \<Longrightarrow> mem (arm_switch ret lr old new c) a = mem c a"
    by (simp_all add: arm_switch_def arm_context_switch_def)
qed

lemma arm_switch_others:
  assumes can: "arm_can ts old new c" and t: "t \<in> set ts" "t \<noteq> old"
  shows "saved_at (mem (arm_switch ret lr old new c)) (at_context t) = saved_at (mem c) (at_context t)"
    and "thread_view (mem (arm_switch ret lr old new c)) s t = thread_view (mem c) s t"
proof -
  have lay: "layout_ok ts" "old \<in> set ts" and runs: "runs_on c old"
    using can by (simp_all add: arm_can_def)
  note push = frame_in_stack(1) [OF runs]
  have "\<not> in_context (at_context old) a \<and> \<not> inside (rg c 13 - of_nat swap_frame) swap_frame a"
    if "in_context (at_context t) a \<or> inside (at_stack t) (unat (at_stack_size t)) a" for a
    using that push separate_not_inside [OF layout_okD(2) [OF lay(1) t(1) lay(2) t(2)]]
      separate_not_inside [OF layout_okD(1) [OF lay t(1)]]
      separate_not_inside [OF layout_okD(1) [OF lay(1) t(1) lay(2)]]
      separate_not_inside [OF layout_okD(3) [OF lay(1) t(1) lay(2) t(2)]] by blast
  then have same: "mem (arm_switch ret lr old new c) a = mem c a"
    if "in_context (at_context t) a \<or> inside (at_stack t) (unat (at_stack_size t)) a" for a
    using that arm_switch_frame [OF can] by blast
  show "saved_at (mem (arm_switch ret lr old new c)) (at_context t) = saved_at (mem c) (at_context t)"
    by (rule saved_at_cong) (simp add: same)
  show "thread_view (mem (arm_switch ret lr old new c)) s t = thread_view (mem c) s t"
    by (rule thread_view_cong) (simp add: same)
qed

lemma arm_switch_own:
  assumes can: "arm_can ts old new c"
  shows "thread_view (mem (arm_switch ret lr old new c)) (return_zero (set_rg 14 lr c)) old =
    thread_view (mem c) (return_zero (set_rg 14 lr c)) old"
proof (rule thread_view_cong)
  fix a
  assume a: "inside (at_stack old) (unat (at_stack_size old)) a"
    "unat (s_sp (return_zero (set_rg 14 lr c)) - at_stack old) \<le> unat (a - at_stack old)"
  have lay: "layout_ok ts" "old \<in> set ts" and runs: "runs_on c old"
    using can by (simp_all add: arm_can_def)
  have "\<not> inside (rg c 13 - of_nat swap_frame) swap_frame a"
    using frame_in_stack(2) [OF runs, of a] a(2) by (auto simp: return_zero_def going_on_def)
  moreover have "\<not> in_context (at_context old) a"
    using separate_not_inside [OF layout_okD(1) [OF lay lay(2)] a(1)] .
  ultimately show "mem (arm_switch ret lr old new c) a = mem c a"
    by (simp add: arm_switch_frame [OF can])
qed

section \<open>Both implementations meet the contract\<close>

interpretation arm: context_switch "set ts" arm_saved_of "arm_at_call lr" arm_goes_on "arm_can ts"
    "arm_switch ret lr"
  for ts :: "arm_thread list" and ret lr :: u32
proof
  fix old new t c
  assume can: "arm_can ts old new c"
  then show "old \<in> set ts \<and> new \<in> set ts"
    by (simp add: arm_can_def)
  have "new \<in> set ts" "new \<noteq> old"
    using can by (auto simp: arm_can_def)
  then show "arm_goes_on (arm_switch ret lr old new c) new = arm_saved_of c new"
    by (simp add: arm_goes_on_def arm_saved_of_def arm_switch_going_on [OF can] arm_switch_others(2) [OF can])
  show "arm_saved_of (arm_switch ret lr old new c) old = arm_at_call lr c old"
    by (simp add: arm_saved_of_def arm_at_call_def arm_switch_old [OF can] arm_switch_own [OF can])
  assume "t \<in> set ts" "t \<noteq> old"
  then show "arm_saved_of (arm_switch ret lr old new c) t = arm_saved_of c t"
    by (simp add: arm_saved_of_def arm_switch_others [OF can])
qed

text \<open>
  The model of the scheduler keeps the call stack of a thread as a list of frames. The processor is
  the pair of the running call stack and the kernel's state.
\<close>

definition kernel_switch :: "tid \<Rightarrow> tid \<Rightarrow> frame list \<times> kernel \<Rightarrow> frame list \<times> kernel" where
  "kernel_switch old new m =
     (let k = arch_context_switch old (fst m) (snd m) in (stacks k new, k))"

interpretation kernel: context_switch UNIV "\<lambda>m. stacks (snd m)" "\<lambda>m t. fst m" "\<lambda>m t. fst m"
    "\<lambda>old new m. old \<noteq> new" kernel_switch
  by unfold_locales (auto simp: kernel_switch_def arch_context_switch_def)

section \<open>A new thread\<close>

lemma arm_thread_initialize_saved:
  assumes "entry_stack_ok ucp stack stack_size 0"
    and s_def: "s = saved_at (mem (arm_thread_initialize lr startc func ucp stack stack_size c)) ucp"
  shows "s_pc s = func \<and> s_lr s = startc \<and> hd (s_callee s) = 0 \<and> s_sp s = makecontext_sp (stack + stack_size) 0"
proof -
  let ?m = "(mem (call_getcontext lr ucp c))(ucp + uc_stack_field ''ss_sp'' := stack,
    ucp + uc_stack_field ''ss_size'' := stack_size, ucp + uc_stack_field ''ss_flags'' := 0,
    ucp + uc_field ''uc_link'' := 0)"
  have "s = saved_at (makecontext startc ucp func [] ?m) ucp"
    by (simp add: s_def arm_thread_initialize_def Let_def)
  moreover have "?m (ucp + uc_stack_field ''ss_sp'') = stack" "?m (ucp + uc_stack_field ''ss_size'') = stack_size"
    "?m (ucp + uc_field ''uc_link'') = 0"
    by (simp_all add: offsets)
  ultimately show ?thesis
    using makecontext_saved [of ucp stack stack_size "[]" ?m _ _ startc func] assms(1) by simp
qed

end
