(* ===== verification/Arm_Properties.thy ===== *)
theory Arm_Properties imports Arm_Switch begin

text \<open>
  The properties of the machine level: the layout both sides of a context agree on, the arguments and
  the stack of \<open>makecontext\<close>, how a new thread starts, and that a thread that was switched away from
  resumes exactly where it called.
\<close>

section \<open>An example of two threads\<close>

definition demo_thread :: "nat \<Rightarrow> arm_thread" where
  "demo_thread i =
     \<lparr>at_context = 0x8000 + of_nat i * 0x1000, at_stack = 0x10000 + of_nat i * 0x10000, at_stack_size = 0x400\<rparr>"

definition demo_threads :: "arm_thread list" where
  "demo_threads = [demo_thread 0, demo_thread 1]"

definition demo_cpu :: cpu where
  "demo_cpu = \<lparr>rg = (\<lambda>r. if r = 13 then 0x10200 else of_nat r), vfp = of_nat, fpscr = 7, z_flag = False,
     mem = (\<lambda>a. 0)(0x9000 + MCONTEXT_ARM_SP := 0x20200)\<rparr>"

lemma demo_layout: "layout_ok demo_threads"
  by (simp add: layout_ok_def demo_threads_def demo_thread_def separate_def offsets)

lemma demo_can: "arm_can demo_threads (demo_thread 0) (demo_thread 1) demo_cpu"
  using demo_layout
  by (simp add: arm_can_def runs_on_def demo_cpu_def demo_threads_def demo_thread_def swap_frame_def)

lemma demo_back:
  "arm_can demo_threads (demo_thread 1) (demo_thread 0)
     (arm_switch ret lr (demo_thread 0) (demo_thread 1) demo_cpu)"
proof -
  have "s_sp (going_on (arm_switch ret lr (demo_thread 0) (demo_thread 1) demo_cpu)) = 0x20200"
    unfolding arm_switch_going_on [OF demo_can] by (simp add: saved_at_def demo_cpu_def demo_thread_def)
  then have "rg (arm_switch ret lr (demo_thread 0) (demo_thread 1) demo_cpu) 13 = 0x20200"
    by (simp add: going_on_def)
  then show ?thesis
    using demo_layout by (simp add: arm_can_def runs_on_def demo_threads_def demo_thread_def swap_frame_def)
qed

section \<open>The layout of a context\<close>













section \<open>Switching\<close>

text \<open>C14: A thread that switched away resumes exactly where it called arch_context_switch, whatever the
  other threads did and however often they switched meanwhile, as long as they left its context
  and its stack alone: with its callee-saved and floating-point registers, its stack pointer, the
  words of its stack, the return value 0, and the program counter at the return address.\<close>

theorem switched_thread_resumes:
  assumes "arm_can ts t u c"
    and "away arm_saved_of (arm_can ts) (arm_switch ret lr) t (arm_switch ret lr t u c) c'"
    and "arm_can ts old t c'"
  shows "arm_goes_on (arm_switch ret lr old t c') t = arm_at_call lr c t"
  by (rule arm.resumes [OF assms])

theorem switched_thread_resumes_witness:
  "arm_goes_on (arm_switch 1 2 (demo_thread 1) (demo_thread 0)
     (arm_switch 1 2 (demo_thread 0) (demo_thread 1) demo_cpu)) (demo_thread 0) =
   arm_at_call 2 demo_cpu (demo_thread 0)"
  by (rule switched_thread_resumes [OF demo_can away_start demo_back])

section \<open>Starting\<close>

text \<open>C16: A function prepared by makecontext finds its arguments where the procedure call standard has
  them, the first four in r0 to r3 and the rest on the stack, with a stack pointer that is a
  multiple of eight; the arguments on the stack lie inside the stack, and nothing but the context
  and the stack is written.\<close>

theorem makecontext_arguments:
  assumes "entry_stack_ok ucp (m (ucp + uc_stack_field ''ss_sp'')) (m (ucp + uc_stack_field ''ss_size'')) (length args)"
    and "m' = makecontext startc ucp func args m" and "sp = s_sp (saved_at m' ucp)"
  shows "8 dvd unat sp \<and> unat (m (ucp + uc_stack_field ''ss_sp'')) \<le> unat sp \<and>
    unat sp + 4 * (length args - NREG_ARGS) \<le>
      unat (m (ucp + uc_stack_field ''ss_sp'')) + unat (m (ucp + uc_stack_field ''ss_size'')) \<and>
    (\<forall>i<length args. args ! i =
       (if i < NREG_ARGS then m' (ucp + MCONTEXT_ARM_R0 + 4 * of_nat i)
        else m' (sp + 4 * of_nat (i - NREG_ARGS)))) \<and>
    (\<forall>a. \<not> in_context ucp a \<and>
       \<not> inside (m (ucp + uc_stack_field ''ss_sp'')) (unat (m (ucp + uc_stack_field ''ss_size''))) a \<longrightarrow>
       m' a = m a)"
proof -
  note facts = makecontext_fields [OF assms(1) refl refl refl assms(2)]
  have "sp = makecontext_sp (m (ucp + uc_stack_field ''ss_sp'') + m (ucp + uc_stack_field ''ss_size'')) (length args)"
    using facts(1) assms(3) by simp
  moreover have "m' (sp + 4 * of_nat (i - NREG_ARGS)) = args ! i" if "i < length args" "\<not> i < NREG_ARGS" for i
    using facts(3) [of "i - NREG_ARGS"] that calculation by simp
  ultimately show ?thesis
    using facts(2,4) entry_stack_sp [OF assms(1)] by (auto simp del: of_nat_diff)
qed

definition demo_memory :: heap_words where
  "demo_memory = (\<lambda>a. 0)(0x8008 := 0x10000, 0x8010 := 0x400)"

theorem makecontext_arguments_witness:
  "8 dvd unat (s_sp (saved_at (makecontext 0x500 0x8000 0x600 [1, 2, 3, 4, 5] demo_memory) 0x8000))"
  using makecontext_arguments [where ucp = "0x8000" and m = demo_memory and args = "[1, 2, 3, 4, 5]", OF _ refl refl]
  by (simp add: entry_stack_ok_def demo_memory_def separate_def offsets NREG_ARGS_def)

text \<open>C15: A thread set up by arch_thread_initialize starts, when it is first switched to, in its entry
  function with an aligned stack pointer in its own stack and with __startcontext as return
  address; since no context is linked, a return from the entry function leaves the program.\<close>

theorem new_thread_starts:
  assumes "entry_stack_ok (at_context t) (at_stack t) (at_stack_size t) 0"
    and "away arm_saved_of (arm_can ts) (arm_switch ret lr) t
      (arm_thread_initialize lr' startc func (at_context t) (at_stack t) (at_stack_size t) c) c'"
    and "arm_can ts old t c'" and "s = going_on (arm_switch ret lr old t c')"
  shows "s_pc s = func \<and> s_lr s = startc \<and> 8 dvd unat (s_sp s) \<and>
    unat (at_stack t) \<le> unat (s_sp s) \<and> unat (s_sp s) \<le> unat (at_stack t) + unat (at_stack_size t) \<and>
    (\<forall>d. rg d 4 = hd (s_callee s) \<longrightarrow> (\<exists>e. startcontext d = Exits e))"
proof -
  let ?i = "arm_thread_initialize lr' startc func (at_context t) (at_stack t) (at_stack_size t) c"
  have "t \<in> set ts"
    using assms(3) by (simp add: arm_can_def)
  with arm.away_keeps [OF assms(2)] have "arm_saved_of c' t = arm_saved_of ?i t"
    by simp
  then have "s = saved_at (mem ?i) (at_context t)"
    by (simp add: assms(4) arm_switch_going_on [OF assms(3)] arm_saved_of_def thread_view_def)
  note start = arm_thread_initialize_saved [OF assms(1) this]
  have "\<exists>e. startcontext d = Exits e" if "rg d 4 = 0" for d
    using that by (simp add: startcontext_def)
  with start entry_stack_sp [OF assms(1)] show ?thesis
    by simp
qed

definition demo_started :: cpu where
  "demo_started = arm_thread_initialize 1 0x500 0x600 0x9000 0x20000 0x400 demo_cpu"

lemma demo_start: "arm_can demo_threads (demo_thread 0) (demo_thread 1) demo_started"
proof -
  have "rg demo_started 13 = 0x10200"
    by (simp add: demo_started_def arm_thread_initialize_def call_getcontext_def Let_def getcontext_state demo_cpu_def)
  then show ?thesis
    using demo_layout
    by (simp add: arm_can_def runs_on_def demo_threads_def demo_thread_def swap_frame_def)
qed

theorem new_thread_starts_witness:
  "s_pc (going_on (arm_switch 1 2 (demo_thread 0) (demo_thread 1) demo_started)) = 0x600"
proof -
  let ?t = "demo_thread 1"
  have "entry_stack_ok (at_context ?t) (at_stack ?t) (at_stack_size ?t) 0"
    by (simp add: entry_stack_ok_def demo_thread_def separate_def offsets NREG_ARGS_def)
  moreover have "away arm_saved_of (arm_can demo_threads) (arm_switch 1 2) ?t
      (arm_thread_initialize 1 0x500 0x600 (at_context ?t) (at_stack ?t) (at_stack_size ?t) demo_cpu) demo_started"
    by (simp add: demo_started_def demo_thread_def away_start)
  ultimately show ?thesis
    using new_thread_starts [OF _ _ demo_start refl] by blast
qed

end
