(* ===== verification/Efi_Types.thy ===== *)
theory Efi_Types imports Prelude "HOL-Library.Signed_Division" begin

text \<open>
  The UEFI status codes and the translation of Linux error numbers into them
  (\<open>LKLErrorStatus\<close> and \<open>LKLError2EfiError\<close> of \<open>Misc.c\<close>).

  The driver is built for ARM only (\<open>VALID_ARCHITECTURES = ARM\<close> in \<open>LKL.inf\<close>), so \<open>UINTN\<close> and
  \<open>INTN\<close> are 32-bit words. The numeric values of the \<open>EFI_*\<close> codes belong to the UEFI headers; the
  sources only compare codes and ask \<open>EFI_ERROR\<close>, so a status is a datatype. \<open>EFI_MAX_UINTN\<close> is the
  value \<open>MAX_UINTN\<close> that the translation returns for an unknown error number: its top bit is set,
  hence it is an error.
\<close>

type_synonym UINTN = u32
type_synonym INTN = u32

datatype EFI_STATUS =
    EFI_SUCCESS
  | EFI_LOAD_ERROR | EFI_INVALID_PARAMETER | EFI_UNSUPPORTED | EFI_BAD_BUFFER_SIZE
  | EFI_BUFFER_TOO_SMALL | EFI_NOT_READY | EFI_DEVICE_ERROR | EFI_WRITE_PROTECTED
  | EFI_OUT_OF_RESOURCES | EFI_VOLUME_FULL | EFI_NO_MEDIA | EFI_NOT_FOUND | EFI_ACCESS_DENIED
  | EFI_TIMEOUT | EFI_ABORTED | EFI_PROTOCOL_ERROR | EFI_ALREADY_STARTED
  | EFI_MAX_UINTN
  | EFI_WARN_DELETE_FAILURE

text \<open>\<open>EFI_ERROR\<close>: neither success nor a warning.\<close>

fun EFI_ERROR :: "EFI_STATUS \<Rightarrow> bool" where
  "EFI_ERROR EFI_SUCCESS = False"
| "EFI_ERROR EFI_WARN_DELETE_FAILURE = False"
| "EFI_ERROR _ = True"

section \<open>Error numbers\<close>

definition LKLErrorStatus :: "EFI_STATUS list" where
  "LKLErrorStatus = [
   EFI_SUCCESS, EFI_ACCESS_DENIED, EFI_NOT_FOUND, EFI_NOT_FOUND,
   EFI_ABORTED, EFI_DEVICE_ERROR, EFI_NOT_FOUND, EFI_INVALID_PARAMETER,
   EFI_INVALID_PARAMETER, EFI_INVALID_PARAMETER, EFI_NOT_FOUND, EFI_NOT_READY,
   EFI_OUT_OF_RESOURCES, EFI_ACCESS_DENIED, EFI_INVALID_PARAMETER, EFI_INVALID_PARAMETER,
   EFI_DEVICE_ERROR, EFI_DEVICE_ERROR, EFI_DEVICE_ERROR, EFI_NOT_FOUND,
   EFI_INVALID_PARAMETER, EFI_INVALID_PARAMETER, EFI_INVALID_PARAMETER, EFI_OUT_OF_RESOURCES,
   EFI_OUT_OF_RESOURCES, EFI_INVALID_PARAMETER, EFI_NOT_READY, EFI_OUT_OF_RESOURCES,
   EFI_VOLUME_FULL, EFI_INVALID_PARAMETER, EFI_WRITE_PROTECTED, EFI_OUT_OF_RESOURCES,
   EFI_DEVICE_ERROR, EFI_INVALID_PARAMETER, EFI_UNSUPPORTED, EFI_UNSUPPORTED,
   EFI_INVALID_PARAMETER, EFI_OUT_OF_RESOURCES, EFI_INVALID_PARAMETER, EFI_UNSUPPORTED,
   EFI_DEVICE_ERROR, EFI_UNSUPPORTED, EFI_UNSUPPORTED, EFI_INVALID_PARAMETER,
   EFI_INVALID_PARAMETER, EFI_DEVICE_ERROR, EFI_DEVICE_ERROR, EFI_DEVICE_ERROR,
   EFI_INVALID_PARAMETER, EFI_DEVICE_ERROR, EFI_NOT_READY, EFI_DEVICE_ERROR,
   EFI_DEVICE_ERROR, EFI_INVALID_PARAMETER, EFI_OUT_OF_RESOURCES, EFI_NOT_FOUND,
   EFI_INVALID_PARAMETER, EFI_INVALID_PARAMETER, EFI_UNSUPPORTED, EFI_UNSUPPORTED,
   EFI_INVALID_PARAMETER, EFI_NOT_READY, EFI_TIMEOUT, EFI_OUT_OF_RESOURCES,
   EFI_NOT_FOUND, EFI_NOT_FOUND, EFI_NOT_FOUND, EFI_DEVICE_ERROR,
   EFI_DEVICE_ERROR, EFI_DEVICE_ERROR, EFI_DEVICE_ERROR, EFI_PROTOCOL_ERROR,
   EFI_UNSUPPORTED, EFI_DEVICE_ERROR, EFI_DEVICE_ERROR, EFI_OUT_OF_RESOURCES,
   EFI_DEVICE_ERROR, EFI_DEVICE_ERROR, EFI_DEVICE_ERROR, EFI_NOT_FOUND,
   EFI_LOAD_ERROR, EFI_LOAD_ERROR, EFI_LOAD_ERROR, EFI_LOAD_ERROR,
   EFI_LOAD_ERROR, EFI_DEVICE_ERROR, EFI_DEVICE_ERROR, EFI_OUT_OF_RESOURCES,
   EFI_INVALID_PARAMETER, EFI_INVALID_PARAMETER, EFI_OUT_OF_RESOURCES, EFI_INVALID_PARAMETER,
   EFI_NOT_FOUND, EFI_UNSUPPORTED, EFI_UNSUPPORTED, EFI_UNSUPPORTED,
   EFI_UNSUPPORTED, EFI_UNSUPPORTED, EFI_NOT_READY, EFI_DEVICE_ERROR,
   EFI_DEVICE_ERROR, EFI_DEVICE_ERROR, EFI_DEVICE_ERROR, EFI_ABORTED,
   EFI_DEVICE_ERROR, EFI_OUT_OF_RESOURCES, EFI_DEVICE_ERROR, EFI_DEVICE_ERROR,
   EFI_DEVICE_ERROR, EFI_DEVICE_ERROR, EFI_TIMEOUT, EFI_ACCESS_DENIED,
   EFI_DEVICE_ERROR, EFI_DEVICE_ERROR, EFI_NOT_READY, EFI_NOT_READY,
   EFI_INVALID_PARAMETER, EFI_DEVICE_ERROR, EFI_UNSUPPORTED, EFI_OUT_OF_RESOURCES,
   EFI_INVALID_PARAMETER, EFI_DEVICE_ERROR, EFI_VOLUME_FULL, EFI_NO_MEDIA,
   EFI_INVALID_PARAMETER, EFI_ABORTED, EFI_NOT_FOUND, EFI_DEVICE_ERROR,
   EFI_DEVICE_ERROR, EFI_DEVICE_ERROR, EFI_INVALID_PARAMETER, EFI_DEVICE_ERROR,
   EFI_INVALID_PARAMETER, EFI_DEVICE_ERROR]"

text \<open>The negation is the word's: \<open>- INT_MIN\<close> is \<open>INT_MIN\<close>, which the unsigned bound check refuses.\<close>

definition LKLError2EfiError :: "INTN \<Rightarrow> EFI_STATUS" where
  "LKLError2EfiError Error =
    (let Error' = (if sint Error < 0 then - Error else Error)
     in if unat Error' \<ge> length LKLErrorStatus then EFI_MAX_UINTN
        else LKLErrorStatus ! unat Error')"

definition ENOENT :: INTN where "ENOENT = 2"
definition EEXIST :: INTN where "EEXIST = 17"

lemma length_LKLErrorStatus [simp]: "length LKLErrorStatus = 134"
  by (simp add: LKLErrorStatus_def)

lemma LKLErrorStatus_hd: "LKLErrorStatus ! 0 = EFI_SUCCESS"
  by (simp add: LKLErrorStatus_def)

lemma LKLErrorStatus_tl_error: "\<forall>s \<in> set (tl LKLErrorStatus). EFI_ERROR s"
  by (simp add: LKLErrorStatus_def)

lemma LKLErrorStatus_error:
  assumes "0 < i" "i < 134"
  shows "EFI_ERROR (LKLErrorStatus ! i)"
proof -
  from assms have "LKLErrorStatus ! i = tl LKLErrorStatus ! (i - 1)" by (simp add: nth_tl)
  moreover from assms have "i - 1 < length (tl LKLErrorStatus)" by simp
  ultimately show ?thesis using LKLErrorStatus_tl_error nth_mem by metis
qed

lemma LKLError2EfiError_0 [simp]: "LKLError2EfiError 0 = EFI_SUCCESS"
  by (simp add: LKLError2EfiError_def LKLErrorStatus_hd)

lemma LKLError2EfiError_error:
  assumes "e \<noteq> 0"
  shows "EFI_ERROR (LKLError2EfiError e)"
proof -
  let ?e = "if sint e < 0 then - e else e"
  have "?e \<noteq> 0" using assms by simp
  then have "0 < unat ?e" by (simp add: unat_gt_0)
  then show ?thesis
    by (auto simp: LKLError2EfiError_def Let_def intro: LKLErrorStatus_error split: if_splits)
qed

lemma sint_minus_word:
  fixes e :: INTN
  assumes "sint e \<noteq> - (2 ^ 31)"
  shows "sint (- e) = - sint e"
proof -
  have "- (2 ^ 31) \<le> sint e" "sint e < 2 ^ 31"
    using sint_greater_eq [of e] sint_less [of e] by simp_all
  then have "signed_take_bit 31 (- sint e) = - sint e"
    using assms by (intro signed_take_bit_int_eq_self) simp_all
  moreover have "sint (word_of_int (- sint e) :: INTN) = signed_take_bit 31 (- sint e)"
    by (subst signed_of_int) simp
  moreover have "(word_of_int (- sint e) :: INTN) = - e" by simp
  ultimately show ?thesis by metis
qed

lemma LKLError2EfiError_minus: "LKLError2EfiError (- e) = LKLError2EfiError e"
proof (cases "sint e = - (2 ^ 31)")
  case True
  have "e = word_of_int (sint e)" by simp
  then have "e = word_of_int (- (2 ^ 31))" by (simp only: True)
  then have eq: "- e = e" by simp
  show ?thesis by (simp only: eq)
next
  case False
  have "word_of_int (sint e) = e" by simp
  then have "sint e = 0 \<longleftrightarrow> e = 0" by (metis of_int_0 signed_0)
  with False show ?thesis
    by (cases "e = 0") (auto simp: LKLError2EfiError_def Let_def sint_minus_word)
qed

end
