(* ===== verification/Efi_Time.thy ===== *)
theory Efi_Time imports Efi_Types begin

text \<open>
  Dates (\<open>Misc.c\<close>): the conversions between Unix time and \<open>EFI_TIME\<close> and the validity check that
  \<open>LKLSetFileInfo\<close> runs before it converts. The arithmetic is that of the source: \<open>UINTN\<close> words
  that wrap, divisions of unsigned words, and the one signed division \<open>(14 - Month) / 12\<close>, which C
  rounds towards zero.
\<close>

record EFI_TIME =
  Year :: u16
  Month :: u8
  Day :: u8
  Hour :: u8
  Minute :: u8
  Second :: u8
  Nanosecond :: u32
  TimeZone :: u16
  Daylight :: u8

section \<open>The conversions\<close>

definition EpochToEfiTime :: "UINTN \<Rightarrow> EFI_TIME \<Rightarrow> EFI_TIME" where
  "EpochToEfiTime EpochSeconds Time =
    (let J = EpochSeconds div 86400 + 2440588;
         j = J + 32044;
         g = j div 146097;
         dg = j mod 146097;
         c = ((dg div 36524 + 1) * 3) div 4;
         dc = dg - c * 36524;
         b = dc div 1461;
         db = dc mod 1461;
         a = ((db div 365 + 1) * 3) div 4;
         da = db - a * 365;
         y = g * 400 + c * 100 + b * 4 + a;
         m = (da * 5 + 308) div 153 - 2;
         d = da - ((m + 4) * 153) div 5 + 122;
         ss = EpochSeconds mod 60;
         a' = (EpochSeconds - ss) div 60;
         mm = a' mod 60;
         b' = (a' - mm) div 60;
         hh = b' mod 24
     in Time\<lparr>Year := ucast (y - 4800 + (m + 2) div 12),
             Month := ucast ((m + 2) mod 12 + 1),
             Day := ucast (d + 1),
             Hour := ucast hh, Minute := ucast mm, Second := ucast ss,
             Nanosecond := 0\<rparr>)"

definition EPOCH_JULIAN_DATE :: UINTN where "EPOCH_JULIAN_DATE = 2440588"
definition SEC_PER_MIN :: UINTN where "SEC_PER_MIN = 60"
definition SEC_PER_HOUR :: UINTN where "SEC_PER_HOUR = 3600"
definition SEC_PER_DAY :: UINTN where "SEC_PER_DAY = 86400"

definition JulianDate :: "EFI_TIME \<Rightarrow> UINTN" where
  "JulianDate Time =
    (let a = word_of_int ((14 - uint (Month Time)) sdiv 12);
         y = ucast (Year Time) + 4800 - a;
         m = ucast (Month Time) + 12 * a - 3
     in ucast (Day Time) + (153 * m + 2) div 5 + 365 * y + y div 4 - y div 100 + y div 400 - 32045)"

text \<open>\<open>None\<close> is the failed \<open>ASSERT\<close>.\<close>

definition EfiTimeToEpoch :: "EFI_TIME \<Rightarrow> UINTN option" where
  "EfiTimeToEpoch Time =
    (if \<not> (JulianDate Time \<ge> EPOCH_JULIAN_DATE) then None
     else let EpochDays = JulianDate Time - EPOCH_JULIAN_DATE
          in Some (EpochDays * SEC_PER_DAY + ucast (Hour Time) * SEC_PER_HOUR
                   + ucast (Minute Time) * SEC_PER_MIN + ucast (Second Time)))"

section \<open>Validity\<close>

definition IsLeapYear :: "EFI_TIME \<Rightarrow> bool" where
  "IsLeapYear Time =
    (if Year Time mod 4 = 0 then
       if Year Time mod 100 = 0 then
         if Year Time mod 400 = 0 then True else False
       else True
     else False)"

definition DayOfMonth :: "int list" where
  "DayOfMonth = [31, 29, 31, 30, 31, 30, 31, 31, 30, 31, 30, 31]"

text \<open>
  The table is only read for a month between 1 and 12: \<open>EfiTimeIsValid\<close> tests the month first.
\<close>

definition DayValid :: "EFI_TIME \<Rightarrow> bool" where
  "DayValid Time \<longleftrightarrow>
    \<not> (Day Time < 1
       \<or> uint (Day Time) > DayOfMonth ! (unat (Month Time) - 1)
       \<or> (Month Time = 2 \<and> (\<not> IsLeapYear Time \<and> Day Time > 28)))"

definition EFI_UNSPECIFIED_TIMEZONE :: u16 where "EFI_UNSPECIFIED_TIMEZONE = 0x07FF"
definition EFI_TIME_ADJUST_DAYLIGHT :: u8 where "EFI_TIME_ADJUST_DAYLIGHT = 1"
definition EFI_TIME_IN_DAYLIGHT :: u8 where "EFI_TIME_IN_DAYLIGHT = 2"

definition EfiTimeIsValid :: "EFI_TIME \<Rightarrow> bool" where
  "EfiTimeIsValid Time =
    (if Year Time < 1900 \<or> Year Time > 9999 \<or> Month Time < 1 \<or> Month Time > 12
        \<or> \<not> DayValid Time
        \<or> Hour Time > 23 \<or> Minute Time > 59 \<or> Second Time > 59
        \<or> Nanosecond Time > 999999999
        \<or> \<not> (TimeZone Time = EFI_UNSPECIFIED_TIMEZONE
              \<or> (sint (TimeZone Time) \<ge> - 1440 \<and> sint (TimeZone Time) \<le> 1440))
        \<or> Daylight Time AND NOT (EFI_TIME_ADJUST_DAYLIGHT OR EFI_TIME_IN_DAYLIGHT) \<noteq> 0
     then False else True)"

section \<open>The calendar\<close>

definition leap_year :: "nat \<Rightarrow> bool" where
  "leap_year y \<longleftrightarrow> y mod 4 = 0 \<and> (y mod 100 \<noteq> 0 \<or> y mod 400 = 0)"

definition month_days :: "nat \<Rightarrow> nat \<Rightarrow> nat" where
  "month_days y m =
    [31, if leap_year y then 29 else 28, 31, 30, 31, 30, 31, 31, 30, 31, 30, 31] ! (m - 1)"

definition year_days :: "nat \<Rightarrow> nat" where
  "year_days y = sum_list (map (month_days y) [1..<13])"

definition civil_days :: "nat \<Rightarrow> nat \<Rightarrow> nat \<Rightarrow> nat" where
  "civil_days y m d =
    sum_list (map year_days [1970..<y]) + sum_list (map (month_days y) [1..<m]) + (d - 1)"

definition civil_seconds :: "EFI_TIME \<Rightarrow> nat" where
  "civil_seconds t =
    civil_days (unat (Year t)) (unat (Month t)) (unat (Day t)) * 86400
    + unat (Hour t) * 3600 + unat (Minute t) * 60 + unat (Second t)"

section \<open>The Julian day number counts the days\<close>

definition jd :: "nat \<Rightarrow> nat \<Rightarrow> nat \<Rightarrow> nat" where
  "jd y m d =
    (let a = (14 - m) div 12; y' = y + 4800 - a; m' = m + 12 * a - 3
     in d + (153 * m' + 2) div 5 + 365 * y' + y' div 4 - y' div 100 + y' div 400 - 32045)"

lemma month_cases:
  assumes "1 \<le> (m :: nat)" "m \<le> 12"
  obtains "m = 1" | "m = 2" | "m = 3" | "m = 4" | "m = 5" | "m = 6"
        | "m = 7" | "m = 8" | "m = 9" | "m = 10" | "m = 11" | "m = 12"
proof -
  from assms have "m \<in> {1..12}" by simp
  then show thesis using that by (auto simp: numeral_eq_Suc atLeastAtMostSuc_conv)
qed

lemma year_days_eq: "year_days y = (if leap_year y then 366 else 365)"
  by (simp add: year_days_def month_days_def upt_rec)

lemma div_next: "0 < k \<Longrightarrow> Suc n div k = n div k + (if Suc n mod k = 0 then 1 else 0)" for n k :: nat
  by (simp add: div_Suc)

lemma year_div:
  "(y + 4800) div 4 = (y + 4799) div 4 + (if y mod 4 = 0 then 1 else 0)"
  "(y + 4800) div 100 = (y + 4799) div 100 + (if y mod 100 = 0 then 1 else 0)"
  "(y + 4800) div 400 = (y + 4799) div 400 + (if y mod 400 = 0 then 1 else 0)" for y :: nat
  using div_next [of 4 "y + 4799"] div_next [of 100 "y + 4799"] div_next [of 400 "y + 4799"]
    mod_mult_self1 [of y 1200 4] mod_mult_self1 [of y 48 100] mod_mult_self1 [of y 12 400]
  by (simp_all add: add.commute [of y])

lemma mod_century: "y mod 400 = 0 \<Longrightarrow> y mod 100 = 0" "y mod 100 = 0 \<Longrightarrow> y mod 4 = 0" for y :: nat
  using dvd_trans [of 100 400 y] dvd_trans [of 4 100 y] by (simp_all add: mod_eq_0_iff_dvd)

definition leaps :: "nat \<Rightarrow> nat" where
  "leaps n = n div 4 - n div 100 + n div 400"

lemma leaps_add: "x + n div 4 - n div 100 + n div 400 = x + leaps n"
proof -
  have "n div 100 \<le> n div 4" by (rule div_le_mono2) simp_all
  then show ?thesis by (simp add: leaps_def add.assoc)
qed

lemma leaps_step: "leaps (y + 4800) = leaps (y + 4799) + (if leap_year y then 1 else 0)"
proof -
  have "(y + 4799) div 100 \<le> (y + 4799) div 4" by (rule div_le_mono2) simp_all
  then show ?thesis
    using mod_century [of y] by (auto simp: leaps_def leap_year_def year_div)
qed

lemma jd_early: "m \<le> 2 \<Longrightarrow> 1 \<le> m \<Longrightarrow>
    jd y m d = d + (153 * (m + 9) + 2) div 5 + 365 * (y + 4799) + leaps (y + 4799) - 32045"
proof -
  assume m: "m \<le> 2" "1 \<le> m"
  then have "(14 - m) div 12 = 1" "m + 12 * 1 - 3 = m + 9" "y + 4800 - 1 = y + 4799" by auto
  then show ?thesis unfolding jd_def Let_def by (simp only: leaps_add)
qed

lemma jd_late: "3 \<le> m \<Longrightarrow> m \<le> 12 \<Longrightarrow>
    jd y m d = d + (153 * (m - 3) + 2) div 5 + 365 * (y + 4800) + leaps (y + 4800) - 32045"
proof -
  assume m: "3 \<le> m" "m \<le> 12"
  then have "(14 - m) div 12 = 0" "m + 12 * 0 - 3 = m - 3" "y + 4800 - 0 = y + 4800" by auto
  then show ?thesis unfolding jd_def Let_def by (simp only: leaps_add)
qed

lemma jd_next_year: "jd (Suc y) 1 1 = jd y 1 1 + year_days y"
  using leaps_step [of y] by (simp add: jd_early year_days_eq add.commute [of 4800])

lemma jd_new_year:
  assumes "1970 \<le> y"
  shows "jd y 1 1 = 2440588 + sum_list (map year_days [1970..<y])"
  using assms
proof (induction y rule: dec_induct)
  case base
  show ?case by (simp add: jd_def)
next
  case (step n)
  then show ?case using jd_next_year [of n] by simp
qed

lemma jd_within_year:
  assumes "1 \<le> m" "m \<le> 12" "1 \<le> d"
  shows "jd y m d = jd y 1 1 + sum_list (map (month_days y) [1..<m]) + (d - 1)"
  by (rule month_cases [OF assms(1,2)])
    (use leaps_step [of y] assms(3) in \<open>simp_all add: jd_early jd_late month_days_def upt_rec\<close>)

lemma jd_civil:
  assumes "1970 \<le> y" "1 \<le> m" "m \<le> 12" "1 \<le> d"
  shows "jd y m d = 2440588 + civil_days y m d"
  using jd_within_year [OF assms(2-4)] jd_new_year [OF assms(1)] by (simp add: civil_days_def)
section \<open>The word arithmetic does not wrap\<close>

lemma month_term:
  assumes "1 \<le> unat (Month t)" "unat (Month t) \<le> 12"
  shows "word_of_int ((14 - uint (Month t)) sdiv 12) = (word_of_nat ((14 - unat (Month t)) div 12) :: UINTN)"
    and "(ucast (Month t) :: UINTN) = word_of_nat (unat (Month t))"
proof -
  have u: "uint (Month t) = int (unat (Month t))" by simp
  show "word_of_int ((14 - uint (Month t)) sdiv 12) = (word_of_nat ((14 - unat (Month t)) div 12) :: UINTN)"
    by (rule month_cases [OF assms]) (simp_all add: u signed_divide_int_def)
  show "(ucast (Month t) :: UINTN) = word_of_nat (unat (Month t))" by simp
qed

lemma unat_mult_small: "unat x * unat y < 2 ^ 32 \<Longrightarrow> unat (x * y) = unat x * unat y" for x y :: UINTN
  using unat_mult_lem [of x y] by simp

lemma unat_plus_small: "unat x + unat y < 2 ^ 32 \<Longrightarrow> unat (x + y) = unat x + unat y" for x y :: UINTN
  using unat_add_lem [of x y] by simp

lemma unat_minus_small: "unat y \<le> unat x \<Longrightarrow> unat (x - y) = unat x - unat y" for x y :: UINTN
  by (simp add: unat_sub word_le_nat_alt)

lemma unat_u8_less: "unat x < 256" for x :: u8
  using unsigned_less [where 'a = nat, of x] by simp

lemma unat_u16_less: "unat x < 65536" for x :: u16
  using unsigned_less [where 'a = nat, of x] by simp

lemma unat_ucast_u8: "unat (ucast x :: UINTN) = unat x" for x :: u8
  using unat_u8_less [of x] by (simp add: unsigned_ucast_eq take_bit_nat_eq_self)

lemma unat_ucast_u16: "unat (ucast x :: UINTN) = unat x" for x :: u16
  using unat_u16_less [of x] by (simp add: unsigned_ucast_eq take_bit_nat_eq_self)

lemma JulianDate_jd:
  assumes "1 \<le> unat (Month t)" "unat (Month t) \<le> 12" "1 \<le> unat (Day t)"
  shows "unat (JulianDate t) = jd (unat (Year t)) (unat (Month t)) (unat (Day t))"
proof -
  define a where "a = (14 - unat (Month t)) div 12"
  define y where "y = unat (Year t) + 4800 - a"
  define m where "m = unat (Month t) + 12 * a - 3"
  have a: "a \<le> 1" unfolding a_def by (rule month_cases [OF assms(1,2)]) simp_all
  have am: "3 \<le> unat (Month t) + 12 * a" "m \<le> 11"
    unfolding m_def a_def by (rule month_cases [OF assms(1,2)]; simp)+
  have yr: "unat (Year t) < 65536" and d: "unat (Day t) < 256"
    by (rule unat_u16_less, rule unat_u8_less)
  define yw where "yw = (ucast (Year t) + 4800 - word_of_nat a :: UINTN)"
  define mw where "mw = (ucast (Month t) + 12 * word_of_nat a - 3 :: UINTN)"
  have ua: "unat (word_of_nat a :: UINTN) = a" using a by (simp add: unat_of_nat)
  have uy: "unat (ucast (Year t) :: UINTN) = unat (Year t)"
    and um: "unat (ucast (Month t) :: UINTN) = unat (Month t)"
    and ud: "unat (ucast (Day t) :: UINTN) = unat (Day t)"
    by (simp_all add: unat_ucast_u16 unat_ucast_u8)
  have yw: "unat yw = y"
    using a yr unfolding yw_def y_def by (simp add: unat_minus_small unat_plus_small ua uy)
  have mw: "unat mw = m"
    using am a unfolding mw_def m_def
    by (simp add: unat_minus_small unat_plus_small unat_mult_small ua um)
  have y_less: "y < 70336" using yr by (simp add: y_def)
  have div_le: "y div 4 \<le> y" "y div 100 \<le> y div 4" "y div 400 \<le> y" "32045 \<le> 365 * y"
    using yr a by (auto simp: y_def intro: div_le_mono2)
  define t1 where "t1 = ucast (Day t) + (153 * mw + 2) div 5 + 365 * yw + yw div 4"
  have t1: "unat t1 = unat (Day t) + (153 * m + 2) div 5 + 365 * y + y div 4"
    using y_less am d div_le unfolding t1_def
    by (simp add: unat_plus_small unat_mult_small unat_div mw yw ud)
  have "unat (t1 - yw div 100 + yw div 400 - 32045)
    = unat (Day t) + (153 * m + 2) div 5 + 365 * y + y div 4 - y div 100 + y div 400 - 32045"
    using y_less am d div_le
    by (simp add: unat_plus_small unat_minus_small unat_div yw t1)
  then show ?thesis
    unfolding JulianDate_def jd_def Let_def month_term(1) [OF assms(1,2)]
      a_def [symmetric] yw_def [symmetric] mw_def [symmetric] t1_def [symmetric]
      y_def [symmetric] m_def [symmetric] .
qed

lemma jd_in_year:
  assumes "1 \<le> m" "m \<le> 12" "1 \<le> d" "d \<le> month_days y m"
  shows "jd y m d < jd (Suc y) 1 1"
proof -
  have "sum_list (map (month_days y) [1..<m]) + (d - 1) < year_days y"
    by (rule month_cases [OF assms(1,2)])
      (use assms(3,4) in \<open>auto simp: month_days_def year_days_eq upt_rec\<close>)
  then show ?thesis using jd_within_year [OF assms(1-3)] jd_next_year [of y] by simp
qed

lemma jd_year_mono: "y \<le> y' \<Longrightarrow> jd y 1 1 \<le> jd y' 1 1"
proof (induction y' rule: dec_induct)
  case (step n)
  then show ?case using jd_next_year [of n] by simp
qed simp

lemma jd_before_1970:
  assumes "y < 1970" "1 \<le> m" "m \<le> 12" "1 \<le> d" "d \<le> month_days y m"
  shows "jd y m d < 2440588"
proof -
  have "jd y m d < jd (Suc y) 1 1" using assms(2-5) by (rule jd_in_year)
  also have "\<dots> \<le> jd 1970 1 1" using assms(1) by (intro jd_year_mono) simp
  also have "\<dots> = 2440588" using jd_new_year [of 1970] by simp
  finally show ?thesis .
qed

section \<open>What validity means\<close>

lemma IsLeapYear_leap_year: "IsLeapYear t \<longleftrightarrow> leap_year (unat (Year t))"
  by (auto simp: IsLeapYear_def leap_year_def word_unat_eq_iff unat_mod)

lemma month_day_word: "Month t = 2 \<longleftrightarrow> unat (Month t) = 2"
  by (simp add: word_unat_eq_iff)

lemma DayValid_month_days:
  assumes "1 \<le> unat (Month t)" "unat (Month t) \<le> 12"
  shows "DayValid t \<longleftrightarrow> 1 \<le> unat (Day t) \<and> unat (Day t) \<le> month_days (unat (Year t)) (unat (Month t))"
proof -
  define n where "n = unat (Day t)"
  then have n: "uint (Day t) = int n" "unat (Day t) = n" by simp_all
  show ?thesis
    unfolding n DayValid_def month_day_word IsLeapYear_leap_year word_less_nat_alt
    using assms by (elim month_cases) (auto simp: DayOfMonth_def month_days_def n)
qed

lemma EfiTimeIsValid_date:
  assumes "EfiTimeIsValid t"
  shows "1900 \<le> unat (Year t)" "unat (Year t) \<le> 9999"
    and "1 \<le> unat (Month t)" "unat (Month t) \<le> 12"
    and "1 \<le> unat (Day t)" "unat (Day t) \<le> month_days (unat (Year t)) (unat (Month t))"
proof -
  show "1900 \<le> unat (Year t)" "unat (Year t) \<le> 9999" and m: "1 \<le> unat (Month t)" "unat (Month t) \<le> 12"
    using assms by (auto simp: EfiTimeIsValid_def word_less_nat_alt split: if_splits)
  have "DayValid t" using assms by (auto simp: EfiTimeIsValid_def split: if_splits)
  then show "1 \<le> unat (Day t)" "unat (Day t) \<le> month_days (unat (Year t)) (unat (Month t))"
    using DayValid_month_days [OF m] by auto
qed

lemma EfiTimeToEpoch_civil:
  assumes "1 \<le> unat (Month t)" "unat (Month t) \<le> 12" "1 \<le> unat (Day t)"
    and "1970 \<le> unat (Year t)"
  shows "EfiTimeToEpoch t = Some (word_of_nat (civil_seconds t))"
proof -
  let ?D = "civil_days (unat (Year t)) (unat (Month t)) (unat (Day t))"
  have jd: "unat (JulianDate t) = 2440588 + ?D"
    using JulianDate_jd [OF assms(1-3)] jd_civil [OF assms(4,1-3)] by simp
  then have ge: "JulianDate t \<ge> EPOCH_JULIAN_DATE"
    by (simp add: word_le_nat_alt EPOCH_JULIAN_DATE_def)
  have "JulianDate t = word_of_nat (2440588 + ?D)" by (simp only: jd [symmetric]) simp
  then have days: "JulianDate t - EPOCH_JULIAN_DATE = word_of_nat ?D"
    by (simp add: EPOCH_JULIAN_DATE_def)
  have parts: "ucast (Hour t) = (word_of_nat (unat (Hour t)) :: UINTN)"
    "ucast (Minute t) = (word_of_nat (unat (Minute t)) :: UINTN)"
    "ucast (Second t) = (word_of_nat (unat (Second t)) :: UINTN)" by simp_all
  show ?thesis
    using ge unfolding EfiTimeToEpoch_def Let_def days parts
    by (simp add: civil_seconds_def SEC_PER_DAY_def SEC_PER_HOUR_def SEC_PER_MIN_def)
qed
section \<open>The inverse\<close>

text \<open>
  The civil date of the day number \<open>j\<close> (counted from 1 March 4801 BC), as \<open>EpochToEfiTime\<close>
  computes it: year of the March-based calendar, month after March, day of the month.
\<close>

definition year_split :: "nat \<Rightarrow> nat \<times> nat" where
  "year_split j =
    (let g = j div 146097; dg = j mod 146097;
         c = ((dg div 36524 + 1) * 3) div 4; dc = dg - c * 36524;
         b = dc div 1461; db = dc mod 1461;
         a = ((db div 365 + 1) * 3) div 4; da = db - a * 365
     in (g * 400 + c * 100 + b * 4 + a, da))"

lemma quarter: "q \<le> 4 \<Longrightarrow> ((q + 1) * 3) div 4 = min q 3" for q :: nat
proof -
  assume "q \<le> 4"
  then consider "q = 0" | "q = 1" | "q = 2" | "q = 3" | "q = 4" by linarith
  then show ?thesis by cases simp_all
qed

lemma min_split: "q \<le> 4 \<Longrightarrow> n < 4 * s + s' \<Longrightarrow> q = n div s \<Longrightarrow> 0 < s \<Longrightarrow> s' \<le> s \<Longrightarrow>
    min q 3 * s \<le> n \<and> n - min q 3 * s < s + s' \<and>
    (n - min q 3 * s < s \<or> min q 3 = 3 \<and> n = 4 * s + (n - 4 * s))" for q n s :: nat
proof -
  assume q: "q \<le> 4" "n < 4 * s + s'" "q = n div s" "0 < s" "s' \<le> s"
  have n: "n = q * s + n mod s" "n mod s < s" using q by simp_all
  show ?thesis
  proof (cases "q = 4")
    case True
    then show ?thesis using n q by simp
  next
    case False
    then have "min q 3 = q" using q(1) by simp
    moreover have "n - q * s = n mod s" using n by linarith
    ultimately show ?thesis using n by simp
  qed
qed

lemma year_split_parts:
  assumes "year_split j = (y, da)"
  obtains g c b a where "y = g * 400 + c * 100 + b * 4 + a" "c \<le> 3" "b \<le> 24" "a \<le> 3"
    and "j = g * 146097 + c * 36524 + b * 1461 + a * 365 + da" "da \<le> 365"
    and "da = 365 \<Longrightarrow> a = 3 \<and> (b = 24 \<longrightarrow> c = 3)"
proof -
  define g dg where "g = j div 146097" and "dg = j mod 146097"
  define c dc where "c = ((dg div 36524 + 1) * 3) div 4" and "dc = dg - c * 36524"
  define b db where "b = dc div 1461" and "db = dc mod 1461"
  define a where "a = ((db div 365 + 1) * 3) div 4"
  have dg: "dg < 146097" and j: "j = g * 146097 + dg" by (simp_all add: dg_def g_def)
  have "dg div 36524 \<le> 4" using dg by linarith
  then have c: "c = min (dg div 36524) 3" "c * 36524 \<le> dg" "dc \<le> 36524" "dc = 36524 \<longrightarrow> c = 3"
    using dg min_split [of "dg div 36524" dg 36524 1] quarter [of "dg div 36524"]
    unfolding c_def dc_def by auto
  have db: "db < 1461" and dc: "dc = b * 1461 + db" by (simp_all add: b_def db_def)
  have b: "b \<le> 24" using c dc by linarith
  have "db div 365 \<le> 4" using db by linarith
  then have a: "a = min (db div 365) 3" "a * 365 \<le> db" "db - a * 365 \<le> 365" "db - a * 365 = 365 \<longrightarrow> a = 3"
    using db min_split [of "db div 365" db 365 1] quarter [of "db div 365"]
    unfolding a_def by auto
  have "year_split j = (g * 400 + c * 100 + b * 4 + a, db - a * 365)"
    by (simp only: year_split_def Let_def a_def db_def b_def dc_def c_def dg_def g_def)
  then have y: "y = g * 400 + c * 100 + b * 4 + a" "da = db - a * 365"
    using assms by (simp_all only: prod.inject)
  show thesis
  proof (rule that [OF y(1)])
    show "c \<le> 3" "a \<le> 3" unfolding c(1) a(1) by (rule min.cobounded2)+
    show "b \<le> 24" by (rule b)
    show "da \<le> 365" unfolding y(2) by (rule a(3))
    show "j = g * 146097 + c * 36524 + b * 1461 + a * 365 + da"
    proof -
      from c(2) have "dg = c * 36524 + dc" unfolding dc_def by linarith
      moreover from a(2) have "db = a * 365 + da" unfolding y(2) by linarith
      ultimately show ?thesis using j dc by linarith
    qed
    assume "da = 365"
    with y(2) have eq: "db - a * 365 = 365" by simp
    with a(4) have "a = 3" by blast
    with eq have "db = 1460" by linarith
    with dc have "b = 24 \<longrightarrow> dc = 36524" by simp
    with c(4) \<open>a = 3\<close> show "a = 3 \<and> (b = 24 \<longrightarrow> c = 3)" by blast
  qed
qed

lemma year_split_days:
  assumes "year_split j = (y, da)"
  shows "365 * y + leaps y + da = j"
proof -
  from assms obtain g c b a where *: "y = g * 400 + c * 100 + b * 4 + a" "c \<le> 3" "b \<le> 24" "a \<le> 3"
    "j = g * 146097 + c * 36524 + b * 1461 + a * 365 + da"
    by (rule year_split_parts) blast
  have "y div 4 = g * 100 + c * 25 + b" "y div 100 = g * 4 + c" "y div 400 = g"
    using * by linarith+
  then have "leaps y = 97 * g + 24 * c + b" by (simp add: leaps_def)
  then show ?thesis using * by simp
qed

lemma year_split_leap:
  assumes "year_split j = (y, 365)"
  shows "leap_year (y + 1)"
proof -
  from assms obtain g c b a where *: "y = g * 400 + c * 100 + b * 4 + a" "c \<le> 3" "b \<le> 24"
    "a = 3 \<and> (b = 24 \<longrightarrow> c = 3)"
    by (rule year_split_parts) blast
  show ?thesis
  proof (cases "b = 24")
    case True
    with * have "y + 1 = (g + 1) * 400" by simp
    then have "(y + 1) mod 400 = 0" by (simp only: mod_mult_self2_is_0)
    then show ?thesis using mod_century [of "y + 1"] by (simp add: leap_year_def)
  next
    case False
    with * have eq: "y + 1 = (b + 1) * 4 + (g * 4 + c) * 100" "y + 1 = ((g * 4 + c) * 25 + (b + 1)) * 4"
      and less: "(b + 1) * 4 < 100" by simp_all
    have "(y + 1) mod 100 = (b + 1) * 4" using less by (simp only: eq(1) mod_mult_self1 mod_less)
    moreover have "(y + 1) mod 4 = 0" by (simp only: eq(2) mod_mult_self2_is_0)
    moreover have "(b + 1) * 4 \<noteq> 0" by simp
    ultimately have "(y + 1) mod 100 \<noteq> 0" "(y + 1) mod 4 = 0" by metis+
    then show ?thesis by (simp add: leap_year_def)
  qed
qed
definition month_split :: "nat \<Rightarrow> nat \<times> nat" where
  "month_split da =
    (let m = (da * 5 + 308) div 153 - 2 in (m, da + 122 - ((m + 4) * 153) div 5))"

lemma month_split_days:
  assumes "month_split da = (m, d)" "da \<le> 365"
  shows "m \<le> 11 \<and> d + (153 * m + 2) div 5 = da
    \<and> d + 1 \<le> [31, 30, 31, 30, 31, 31, 30, 31, 30, 31, 31, if da = 365 then 29 else 28] ! m"
proof -
  define q where "q = (da * 5 + 308) div 153"
  have q: "q * 153 \<le> da * 5 + 308" "da * 5 + 308 < (q + 1) * 153"
    unfolding q_def by (rule div_times_less_eq_dividend, metis dividend_less_div_times add.commute
      Suc_eq_plus1 mult_Suc zero_less_numeral)
  have "2 \<le> q" using q by simp
  moreover have "q \<le> 13" using q assms(2) by linarith
  moreover have "m = q - 2" and d: "d = da + 122 - ((m + 4) * 153) div 5"
    using assms(1) by (auto simp: month_split_def Let_def q_def)
  ultimately have "q = m + 2" and m: "1 \<le> m + 1" "m + 1 \<le> 12" by linarith+
  with q have b: "(m + 2) * 153 \<le> da * 5 + 308" "da * 5 + 308 < (m + 3) * 153" by simp_all
  show ?thesis
    by (rule month_cases [OF m]; use b assms(2) in \<open>simp add: d; linarith\<close>)
qed

text \<open>The civil date of a day number, and that its Julian day number is that number again.\<close>

definition civil :: "nat \<Rightarrow> nat \<times> nat \<times> nat" where
  "civil j =
    (let (y, da) = year_split j; (m, d) = month_split da
     in (y - 4800 + (m + 2) div 12, (m + 2) mod 12 + 1, d + 1))"

lemma march_month:
  assumes "(m :: nat) \<le> 11"
  obtains "m \<le> 9" "(m + 2) div 12 = 0" "(m + 2) mod 12 + 1 = m + 3"
  | "m = 10" | "m = 11"
proof -
  from assms consider "m \<le> 9" | "m = 10" | "m = 11" by linarith
  then show thesis using that by cases simp_all
qed

lemma civil_jd:
  assumes "civil j = (Y, M, D)" "1772256 \<le> j"
  shows "1 \<le> M \<and> M \<le> 12 \<and> 1 \<le> D" "jd Y M D = j - 32044" "D \<le> month_days Y M"
proof -
  obtain y da where yd: "year_split j = (y, da)" by fastforce
  obtain m d where md: "month_split da = (m, d)" by fastforce
  have da: "da \<le> 365" using yd by (rule year_split_parts) blast
  from month_split_days [OF md da] have m: "m \<le> 11" "d + (153 * m + 2) div 5 = da"
    "d + 1 \<le> [31, 30, 31, 30, 31, 31, 30, 31, 30, 31, 31, if da = 365 then 29 else 28] ! m" by blast+
  have j: "365 * y + leaps y + da = j" by (rule year_split_days [OF yd])
  have "leaps y \<le> y" unfolding leaps_def by linarith
  with j da assms(2) have y: "4800 \<le> y" by linarith
  have leap: "da = 365 \<Longrightarrow> leap_year (y + 1)" using yd year_split_leap by blast
  have date: "Y = y - 4800 + (m + 2) div 12" "M = (m + 2) mod 12 + 1" "D = d + 1"
    using assms(1) by (simp_all add: civil_def yd md)
  have "(1 \<le> M \<and> M \<le> 12 \<and> 1 \<le> D) \<and> jd Y M D = j - 32044 \<and> D \<le> month_days Y M"
    using m(1)
  proof (cases m rule: march_month)
    case 1
    have M: "M = m + 3" and Y: "Y + 4800 = y" using 1 y by (simp_all add: date)
    have "jd Y M D = d + 1 + (153 * m + 2) div 5 + 365 * y + leaps y - 32045"
      using 1 by (simp add: jd_late M date(3) flip: Y)
    moreover have "D \<le> month_days Y M"
    proof -
      have "1 \<le> m + 1" "m + 1 \<le> 12" using 1(1) by simp_all
      then show ?thesis
        by (rule month_cases) (use m(3) 1(1) in \<open>simp_all add: M date(3) month_days_def\<close>)
    qed
    ultimately show ?thesis using j m(2) 1 by (simp add: M date(3))
  next
    case 2
    have M: "M = 1" and Y: "Y + 4799 = y" using 2 y by (simp_all add: date)
    have "jd Y M D = d + 1 + (153 * m + 2) div 5 + 365 * y + leaps y - 32045"
      using 2 by (simp add: jd_early M date(3) flip: Y)
    moreover have "D \<le> month_days Y M" using m(3) by (simp add: 2 M date(3) month_days_def)
    ultimately show ?thesis using j m(2) 2 by (simp add: M date(3))
  next
    case 3
    have M: "M = 2" and Y: "Y + 4799 = y" using 3 y by (simp_all add: date)
    have Y1: "Y = y + 1 - 4800" using Y by simp
    have "jd Y M D = d + 1 + (153 * m + 2) div 5 + 365 * y + leaps y - 32045"
      using 3 by (simp add: jd_early M date(3) flip: Y)
    moreover have "leap_year Y \<longleftrightarrow> leap_year (y + 1)"
    proof -
      have "y + 1 = Y + 400 * 12" "y + 1 = Y + 100 * 48" "y + 1 = Y + 4 * 1200" using Y by simp_all
      then show ?thesis unfolding leap_year_def by (metis mod_mult_self2)
    qed
    then have "D \<le> month_days Y M" 
      using m(3) leap by (auto simp: 3 M date(3) month_days_def split: if_splits)
    ultimately show ?thesis using j m(2) 3 by (simp add: M date(3))
  qed
  then show "1 \<le> M \<and> M \<le> 12 \<and> 1 \<le> D" "jd Y M D = j - 32044" "D \<le> month_days Y M" by blast+
qed
lemma month_days_31: "1 \<le> m \<Longrightarrow> m \<le> 12 \<Longrightarrow> month_days y m \<le> 31"
  by (erule (1) month_cases) (simp_all add: month_days_def)

lemma quarter_split:
  fixes n s :: nat
  assumes "n < 4 * s + 1" "0 < s"
  shows "((n div s + 1) * 3) div 4 \<le> 3" "((n div s + 1) * 3) div 4 * s \<le> n"
    and "n - ((n div s + 1) * 3) div 4 * s \<le> s"
proof -
  have "n div s \<le> 4" using assms by (simp add: less_mult_imp_div_less less_Suc_eq_le [symmetric] div_less_iff_less_mult)
  then show "((n div s + 1) * 3) div 4 \<le> 3" "((n div s + 1) * 3) div 4 * s \<le> n"
    "n - ((n div s + 1) * 3) div 4 * s \<le> s"
    using min_split [of "n div s" n s 1] quarter [of "n div s"] assms by auto
qed

lemma unat_quarter: "unat x \<le> 1000 \<Longrightarrow> unat (((x + 1) * 3) div 4) = ((unat x + 1) * 3) div 4" for x :: UINTN
  by (simp add: unat_div unat_plus_small unat_mult_small)

lemma epoch_days_bound: "unat s div 86400 \<le> 49710" for s :: UINTN
proof -
  have "unat s \<le> 4294967295" using unsigned_less [where 'a = nat, of s] by simp
  then have "unat s div 86400 \<le> 4294967295 div 86400" by (rule div_le_mono)
  then show ?thesis by simp
qed

text \<open>The calendar part of \<open>EpochToEfiTime\<close>: the words are the numbers of \<open>civil\<close>.\<close>

lemma EpochToEfiTime_date:
  assumes "civil (unat s div 86400 + 2472632) = (Y, M, D)"
  shows "unat (Year (EpochToEfiTime s t)) = Y" "unat (Month (EpochToEfiTime s t)) = M"
    and "unat (Day (EpochToEfiTime s t)) = D"
proof -
  define n where "n = unat s div 86400 + 2472632"
  have n: "n \<le> 2522342" using epoch_days_bound [of s] by (simp add: n_def)
  define j where "j = s div 86400 + 2440588 + 32044"
  have j: "unat j = n"
    using epoch_days_bound [of s] by (simp add: j_def n_def unat_plus_small unat_div)
  define g dg where "g = j div 146097" and "dg = j mod 146097"
  have g: "unat g = n div 146097" and dg: "unat dg = n mod 146097"
    by (simp_all add: g_def dg_def unat_div unat_mod j)
  have g17: "unat g \<le> 17" unfolding g using div_le_mono [OF n, of 146097] by simp
  have dg_less: "unat dg < 4 * 36524 + 1" unfolding dg by simp
  define c where "c = ((dg div 36524 + 1) * 3) div 4"
  have "unat (dg div 36524) \<le> 1000" using dg_less by (simp add: unat_div div_le_mono)
  then have c: "unat c = ((unat dg div 36524 + 1) * 3) div 4"
    unfolding c_def by (subst unat_quarter) (simp_all add: unat_div)
  note cb = quarter_split [OF dg_less, folded c, simplified]
  define dc where "dc = dg - c * 36524"
  have dc: "unat dc = unat dg - unat c * 36524"
    using cb by (simp add: dc_def unat_minus_small unat_mult_small)
  define b db where "b = dc div 1461" and "db = dc mod 1461"
  have b: "unat b = unat dc div 1461" and db: "unat db = unat dc mod 1461"
    by (simp_all add: b_def db_def unat_div unat_mod)
  have db_less: "unat db < 4 * 365 + 1" unfolding db by simp
  define a where "a = ((db div 365 + 1) * 3) div 4"
  have "unat (db div 365) \<le> 1000" using db_less by (simp add: unat_div div_le_mono)
  then have a: "unat a = ((unat db div 365 + 1) * 3) div 4"
    unfolding a_def by (subst unat_quarter) (simp_all add: unat_div)
  note ab = quarter_split [OF db_less, folded a, simplified]
  define da where "da = db - a * 365"
  have da: "unat da = unat db - unat a * 365"
    using ab by (simp add: da_def unat_minus_small unat_mult_small)
  have b24: "unat b \<le> 24" unfolding b using cb(3) div_le_mono [of "unat dc" 36524 1461] by (simp add: dc)
  define y where "y = g * 400 + c * 100 + b * 4 + a"
  have y: "unat y = unat g * 400 + unat c * 100 + unat b * 4 + unat a"
    using g17 cb(1) b24 ab(1) by (simp add: y_def unat_plus_small unat_mult_small)
  have ys: "year_split n = (unat y, unat da)"
    unfolding year_split_def Let_def y da a db b dc c dg g by (rule refl)
  obtain m' d' where md: "month_split (unat da) = (m', d')" by fastforce
  have da365: "unat da \<le> 365" using ab(3) by (simp add: da)
  from month_split_days [OF md da365] have m': "m' \<le> 11" "d' + (153 * m' + 2) div 5 = unat da" by blast+
  have m'_def: "m' = (unat da * 5 + 308) div 153 - 2" and d'_def: "d' = unat da + 122 - ((m' + 4) * 153) div 5"
    using md by (auto simp: month_split_def Let_def)
  define m where "m = (da * 5 + 308) div 153 - 2"
  have "2 \<le> (unat da * 5 + 308) div 153" using div_le_mono [of 308 "unat da * 5 + 308" 153] by simp
  then have m: "unat m = m'"
    using da365 unfolding m_def m'_def
    by (simp add: unat_minus_small unat_div unat_plus_small unat_mult_small)
  define d where "d = da - ((m + 4) * 153) div 5 + 122"
  have "unat (((m + 4) * 153) div 5) = ((m' + 4) * 153) div 5"
    using m'(1) by (simp add: unat_div unat_plus_small unat_mult_small m)
  moreover have "((m' + 4) * 153) div 5 \<le> unat da + 122"
  proof -
    have "(m' + 4) * 153 = 153 * m' + 2 + 122 * 5" by simp
    then have "((m' + 4) * 153) div 5 = 122 + (153 * m' + 2) div 5"
      by (simp only: div_mult_self1 zero_neq_numeral)
    then show ?thesis using m'(2) by simp
  qed
  moreover have "d = da + 122 - ((m + 4) * 153) div 5" by (simp add: d_def)
  ultimately have d: "unat d = d'"
    using da365 unfolding d'_def by (simp add: unat_minus_small unat_plus_small)
  have d30: "d' \<le> 365" using m'(2) da365 by simp
  have YMD: "Y = unat y - 4800 + (m' + 2) div 12" "M = (m' + 2) mod 12 + 1" "D = d' + 1"
    using assms by (simp_all add: n_def [symmetric] civil_def ys md)
  have "leaps (unat y) \<le> unat y" unfolding leaps_def by linarith
  with year_split_days [OF ys] da365 have y4800: "4800 \<le> unat y" by (simp add: n_def)
  have Y: "unat (y - 4800 + (m + 2) div 12) = Y"
    using y4800 b24 cb(1) ab(1) g17 m'(1) y
    by (simp add: YMD(1) unat_plus_small unat_minus_small unat_div m)
  have M: "unat ((m + 2) mod 12 + 1) = M"
    using m'(1) by (simp add: YMD(2) unat_plus_small unat_mod m)
  have D: "unat (d + 1) = D" using d30 by (simp add: YMD(3) unat_plus_small d)
  have bounds: "Y < 65536" "M < 256" "D < 256"
  proof -
    show "Y < 65536" using y b24 cb(1) ab(1) g17 m'(1) by (simp add: YMD(1))
    have "M \<le> 12" "D \<le> month_days Y M"
      using civil_jd [of n Y M D] assms by (simp_all add: n_def)
    then show "M < 256" "D < 256" using civil_jd(1) [of n Y M D] assms month_days_31 [of M Y]
      by (simp_all add: n_def)
  qed
  have "Year (EpochToEfiTime s t) = ucast (y - 4800 + (m + 2) div 12)"
    "Month (EpochToEfiTime s t) = ucast ((m + 2) mod 12 + 1)"
    "Day (EpochToEfiTime s t) = ucast (d + 1)"
    unfolding EpochToEfiTime_def Let_def j_def [symmetric] g_def [symmetric] dg_def [symmetric]
      c_def [symmetric] dc_def [symmetric] b_def [symmetric] db_def [symmetric]
      a_def [symmetric] da_def [symmetric] y_def [symmetric] m_def [symmetric] d_def [symmetric]
    by simp_all
  then show "unat (Year (EpochToEfiTime s t)) = Y" "unat (Month (EpochToEfiTime s t)) = M"
    "unat (Day (EpochToEfiTime s t)) = D"
    using Y M D bounds by (simp_all add: unsigned_ucast_eq take_bit_nat_eq_self)
qed

lemma div_60_steps: "(n - n mod 60) div 60 = n div 60" "(n div 60 - n div 60 mod 60) div 60 = n div 3600" for n :: nat
  by (simp_all add: minus_mod_eq_mult_div div_mult2_eq [symmetric])

lemma EpochToEfiTime_clock:
  shows "unat (Hour (EpochToEfiTime s t)) = unat s div 3600 mod 24"
    and "unat (Minute (EpochToEfiTime s t)) = unat s div 60 mod 60"
    and "unat (Second (EpochToEfiTime s t)) = unat s mod 60"
    and "Nanosecond (EpochToEfiTime s t) = 0"
    and "TimeZone (EpochToEfiTime s t) = TimeZone t" "Daylight (EpochToEfiTime s t) = Daylight t"
proof -
  define ss where "ss = s mod 60"
  have ss: "unat ss = unat s mod 60" by (simp add: ss_def unat_mod)
  define a where "a = (s - ss) div 60"
  have a: "unat a = unat s div 60"
    by (simp add: a_def unat_div unat_minus_small ss div_60_steps)
  define b where "b = (a - a mod 60) div 60"
  have b: "unat b = unat s div 3600"
    by (simp add: b_def unat_div unat_minus_small unat_mod a div_60_steps)
  have clock: "Hour (EpochToEfiTime s t) = ucast (b mod 24)"
    "Minute (EpochToEfiTime s t) = ucast (a mod 60)" "Second (EpochToEfiTime s t) = ucast ss"
    unfolding EpochToEfiTime_def Let_def b_def a_def ss_def by simp_all
  have "unat s div 3600 mod 24 < 256" "unat s div 60 mod 60 < 256" "unat s mod 60 < 256"
    by (rule less_trans [OF mod_less_divisor]; simp)+
  then show "unat (Hour (EpochToEfiTime s t)) = unat s div 3600 mod 24"
    "unat (Minute (EpochToEfiTime s t)) = unat s div 60 mod 60"
    "unat (Second (EpochToEfiTime s t)) = unat s mod 60"
    unfolding clock by (simp_all add: unsigned_ucast_eq take_bit_nat_eq_self unat_mod a b ss)
  show "Nanosecond (EpochToEfiTime s t) = 0"
    "TimeZone (EpochToEfiTime s t) = TimeZone t" "Daylight (EpochToEfiTime s t) = Daylight t"
    unfolding EpochToEfiTime_def Let_def by simp_all
qed

lemma clock_sum: "n div 86400 * 86400 + n div 3600 mod 24 * 3600 + n div 60 mod 60 * 60 + n mod 60 = n" for n :: nat
proof -
  define a b c where "a = n div 60" and "b = a div 60" and "c = b div 24"
  have eq: "n div 86400 = c" "n div 3600 = b"
    by (simp_all add: a_def b_def c_def div_mult2_eq [symmetric])
  have "n = 60 * a + n mod 60" "a = 60 * b + a mod 60" "b = 24 * c + b mod 24"
    unfolding c_def b_def a_def by (simp_all only: mult_div_mod_eq)
  moreover define x y z where "x = n mod 60" and "y = a mod 60" and "z = b mod 24"
  ultimately have "n = 60 * a + x" "a = 60 * b + y" "b = 24 * c + z" by simp_all
  then have "c * 86400 + z * 3600 + y * 60 + x = n" by simp
  then show ?thesis unfolding eq a_def [symmetric] x_def y_def z_def .
qed

lemma EpochToEfiTime_civil:
  shows "1 \<le> unat (Month (EpochToEfiTime s t))" "unat (Month (EpochToEfiTime s t)) \<le> 12"
    and "1 \<le> unat (Day (EpochToEfiTime s t))"
    and "unat (Day (EpochToEfiTime s t))
      \<le> month_days (unat (Year (EpochToEfiTime s t))) (unat (Month (EpochToEfiTime s t)))"
    and "1970 \<le> unat (Year (EpochToEfiTime s t))" "unat (Year (EpochToEfiTime s t)) \<le> 2106"
    and "civil_seconds (EpochToEfiTime s t) = unat s"
proof -
  let ?n = "unat s div 86400 + 2472632"
  obtain Y M D where YMD: "civil ?n = (Y, M, D)" by (cases "civil ?n") auto
  have j: "1772256 \<le> ?n" by simp
  have d: "unat (Year (EpochToEfiTime s t)) = Y" "unat (Month (EpochToEfiTime s t)) = M"
    "unat (Day (EpochToEfiTime s t)) = D"
    by (rule EpochToEfiTime_date [OF YMD])+
  have M: "1 \<le> M" "M \<le> 12" "1 \<le> D" "D \<le> month_days Y M" and jd: "jd Y M D = ?n - 32044"
    using civil_jd [OF YMD j] by blast+
  have Y: "1970 \<le> Y"
  proof (rule ccontr)
    assume "\<not> 1970 \<le> Y"
    then have "jd Y M D < 2440588" using M by (intro jd_before_1970) simp_all
    with jd show False by simp
  qed
  have days: "civil_days Y M D = unat s div 86400"
    using jd_civil [OF Y M(1-3)] jd by simp
  have "Y \<le> 2106"
  proof (rule ccontr)
    assume "\<not> Y \<le> 2106"
    then have "jd 2107 1 1 \<le> jd Y 1 1" by (intro jd_year_mono) simp
    also have "\<dots> \<le> jd Y M D" using jd_within_year [OF M(1-3)] by simp
    also have "\<dots> \<le> 2490298" using epoch_days_bound [of s] by (simp add: jd)
    finally show False by (simp add: jd_def)
  qed
  have "unat s div 86400 * 86400 + unat s div 3600 mod 24 * 3600 + unat s div 60 mod 60 * 60 + unat s mod 60 = unat s"
    by (rule clock_sum)
  then show "civil_seconds (EpochToEfiTime s t) = unat s"
    by (simp add: civil_seconds_def d days EpochToEfiTime_clock)
  show "1 \<le> unat (Month (EpochToEfiTime s t))" "unat (Month (EpochToEfiTime s t)) \<le> 12"
    "1 \<le> unat (Day (EpochToEfiTime s t))"
    "unat (Day (EpochToEfiTime s t))
      \<le> month_days (unat (Year (EpochToEfiTime s t))) (unat (Month (EpochToEfiTime s t)))"
    "1970 \<le> unat (Year (EpochToEfiTime s t))" "unat (Year (EpochToEfiTime s t)) \<le> 2106"
    unfolding d by fact+
qed

text \<open>
  The fields that \<open>EpochToEfiTime\<close> does not write keep what was in the structure; the result is valid when
  they are.
\<close>

definition zone_valid :: "EFI_TIME \<Rightarrow> bool" where
  "zone_valid t \<longleftrightarrow>
    (TimeZone t = EFI_UNSPECIFIED_TIMEZONE \<or> - 1440 \<le> sint (TimeZone t) \<and> sint (TimeZone t) \<le> 1440) \<and>
    Daylight t AND NOT (EFI_TIME_ADJUST_DAYLIGHT OR EFI_TIME_IN_DAYLIGHT) = 0"

lemma EpochToEfiTime_valid: "EfiTimeIsValid (EpochToEfiTime s t) \<longleftrightarrow> zone_valid t"
proof -
  let ?t = "EpochToEfiTime s t"
  have "DayValid ?t"
    using EpochToEfiTime_civil(1-4) [of s t] by (subst DayValid_month_days) simp_all
  moreover have "unat s div 3600 mod 24 \<le> 23" "unat s div 60 mod 60 \<le> 59" "unat s mod 60 \<le> 59"
    by (simp_all add: less_Suc_eq_le [symmetric])
  moreover have "TimeZone ?t = TimeZone t" "Daylight ?t = Daylight t"
    by (simp_all add: EpochToEfiTime_def Let_def)
  ultimately show ?thesis
    using EpochToEfiTime_civil(1-6) [of s t]
    by (auto simp: EfiTimeIsValid_def zone_valid_def word_less_nat_alt EpochToEfiTime_clock split: if_splits)
qed

end
