(* ===== verification/Linux_Calls.thy ===== *)
theory Linux_Calls imports Efi_Types begin

text \<open>
  What the driver sees of the Linux kernel library and of the UEFI pool.

  The Linux side is not part of the sources: its system calls are the fields of a record
  \<open>'s lkl\<close> of functions on an abstract kernel state \<open>'s\<close>, a parameter of every definition that makes
  a call. The wrappers below apply such a field to the state of a \<open>'s world\<close> and note the
  call and its return code in its log, so that the theorems can speak about the calls a routine
  makes and about their order. The calls that only look up a path (\<open>lstat\<close>, \<open>readlink\<close>, \<open>statfs\<close>) and
  \<open>lkl_get_virtio_blkdev\<close> are not noted; every call on a descriptor or an open directory is.

  Pool allocations may fail; the outcomes to come are the list \<open>allocs\<close> (an exhausted list means
  success). \<open>live\<close> counts the buffers that are allocated and not yet freed. The library's directory
  objects come from the same pool, through the host's \<open>lkl_mem_alloc\<close>: an \<open>lkl_fdopendir\<close> that succeeds
  counts one buffer, which only \<open>lkl_closedir\<close> would free.

  A return code is an \<open>INTN\<close>: negative codes are Linux error numbers. Strings are lists of
  characters without the terminating NUL.
\<close>

section \<open>Constants of the Linux headers\<close>

definition LKL_O_RDONLY :: u32 where "LKL_O_RDONLY = 0"
definition LKL_O_WRONLY :: u32 where "LKL_O_WRONLY = 1"
definition LKL_O_RDWR :: u32 where "LKL_O_RDWR = 2"
definition LKL_O_CREAT :: u32 where "LKL_O_CREAT = 0x40"
definition LKL_O_CLOEXEC :: u32 where "LKL_O_CLOEXEC = 0x80000"
definition LKL_S_IRUSR :: u32 where "LKL_S_IRUSR = 0x100"
definition LKL_S_IWUSR :: u32 where "LKL_S_IWUSR = 0x80"
definition LKL_S_IFMT :: u32 where "LKL_S_IFMT = 0xF000"
definition LKL_S_IFDIR :: u32 where "LKL_S_IFDIR = 0x4000"
definition LKL_S_IFLNK :: u32 where "LKL_S_IFLNK = 0xA000"
definition LKL_S_IFBLK :: u32 where "LKL_S_IFBLK = 0x6000"
definition LKL_S_IFCHR :: u32 where "LKL_S_IFCHR = 0x2000"

definition LKL_S_ISDIR :: "u32 \<Rightarrow> bool" where
  "LKL_S_ISDIR m \<longleftrightarrow> m AND LKL_S_IFMT = LKL_S_IFDIR"

definition LKL_S_ISLNK :: "u32 \<Rightarrow> bool" where
  "LKL_S_ISLNK m \<longleftrightarrow> m AND LKL_S_IFMT = LKL_S_IFLNK"

section \<open>Data\<close>

text \<open>
  \<open>struct lkl_stat\<close> and \<open>struct lkl_statfs\<close>: the fields the driver reads. Their declarations belong to
  the Linux headers, which make them machine words: 32 bits on this machine.
\<close>

record lkl_stat =
  st_mode :: u32
  st_size :: u32
  st_blocks :: u32
  lkl_st_atime :: u32
  lkl_st_mtime :: u32

record lkl_statfs =
  f_bsize :: u32
  f_blocks :: u32
  f_bfree :: u32

datatype whence = LKL_SEEK_SET | LKL_SEEK_CUR | LKL_SEEK_END

text \<open>
  The requests of the device mapper (\<open>struct lkl_dm_ioctl\<close> and \<open>struct lkl_dm_target_spec\<close> of
  \<open>dm-ioctl.h\<close>, without the padding; \<open>dm_name\<close> is the string in the 128-byte field) and the size
  request of a block device.
\<close>

record dm_ioctl =
  dm_version :: "u32 list"
  data_size :: u32
  data_start :: u32
  target_count :: u32
  open_count :: u32
  dm_flags :: u32
  event_nr :: u32
  dm_dev :: u64
  dm_name :: string
  dm_uuid :: string

record dm_target_spec =
  sector_start :: u64
  tgt_length :: u64
  tgt_status :: u32
  tgt_next :: u32
  target_type :: string

datatype ioctl =
    LKL_BLKGETSIZE
  | LKL_DM_DEV_CREATE dm_ioctl
  | LKL_DM_DEV_STATUS dm_ioctl
  | LKL_DM_TABLE_LOAD dm_ioctl dm_target_spec string
  | LKL_DM_DEV_SUSPEND dm_ioctl
  | LKL_DM_DEV_REMOVE dm_ioctl

text \<open>
  The calls that are noted in the log. \<open>Sys_fdopendir\<close> has the directory it gave, and \<open>Sys_readdir\<close> counts the
  entries it gave as its return code.
\<close>

datatype sys_call =
    Sys_open string u32 u32
  | Sys_openat INTN string u32 u32
  | Sys_close INTN
  | Sys_mkdir string u32
  | Sys_mknod string u32 u32
  | Sys_unlink string
  | Sys_chmod string u32
  | Sys_utime string u32 u32
  | Sys_ftruncate INTN u64
  | Sys_lseek INTN u64 whence
  | Sys_read INTN UINTN
  | Sys_write INTN "u8 list"
  | Sys_fsync INTN
  | Sys_fstat INTN
  | Sys_fdopendir INTN "nat option"
  | Sys_readdir nat
  | Sys_rewinddir nat
  | Sys_errdir nat
  | Sys_mount string string string
  | Sys_umount string
  | Sys_ioctl INTN ioctl
  | Disk_add
  | Disk_remove INTN
  | Mount_dev INTN string
  | Start_kernel string
  | Sys_halt

text \<open>
  The system calls, as functions of the kernel state. \<open>k_ioctl\<close> also gives the number that the
  request writes back: the sectors for the size request, \<open>io->dev\<close> for a status. \<open>k_virtio_blkdev\<close>
  and \<open>k_mount_dev\<close> are \<open>lkl_get_virtio_blkdev\<close> and \<open>lkl_mount_dev\<close> of the library, with the device
  number and the mount point they write.
\<close>

record 's lkl =
  k_lstat :: "string \<Rightarrow> 's \<Rightarrow> INTN \<times> lkl_stat"
  k_fstat :: "INTN \<Rightarrow> 's \<Rightarrow> INTN \<times> lkl_stat"
  k_statfs :: "string \<Rightarrow> 's \<Rightarrow> INTN \<times> lkl_statfs"
  k_readlink :: "string \<Rightarrow> nat \<Rightarrow> 's \<Rightarrow> INTN \<times> string"
  k_call :: "sys_call \<Rightarrow> 's \<Rightarrow> INTN \<times> 's"
  k_lseek :: "INTN \<Rightarrow> u64 \<Rightarrow> whence \<Rightarrow> 's \<Rightarrow> u64 \<times> 's"
  k_read :: "INTN \<Rightarrow> UINTN \<Rightarrow> 's \<Rightarrow> INTN \<times> u8 list \<times> 's"
  k_fdopendir :: "INTN \<Rightarrow> 's \<Rightarrow> nat option \<times> INTN \<times> 's"
  k_readdir :: "nat \<Rightarrow> 's \<Rightarrow> string option \<times> 's"
  k_rewinddir :: "nat \<Rightarrow> 's \<Rightarrow> 's"
  k_errdir :: "nat \<Rightarrow> 's \<Rightarrow> INTN"
  k_ioctl :: "INTN \<Rightarrow> ioctl \<Rightarrow> 's \<Rightarrow> INTN \<times> u64 \<times> 's"
  k_virtio_blkdev :: "INTN \<Rightarrow> 's \<Rightarrow> INTN \<times> u32"
  k_mount_dev :: "INTN \<Rightarrow> string \<Rightarrow> 's \<Rightarrow> INTN \<times> string \<times> 's"

record 's world =
  linux :: 's
  allocs :: "bool list"
  live :: int
  log :: "(sys_call \<times> INTN) list"

section \<open>Calls on the world\<close>

definition neg :: "INTN \<Rightarrow> bool" where "neg w \<longleftrightarrow> sint w < 0"

definition sys :: "'s lkl \<Rightarrow> sys_call \<Rightarrow> 's world \<Rightarrow> INTN \<times> 's world" where
  "sys K c w =
    (let (r, s) = k_call K c (linux w) in (r, w\<lparr>linux := s, log := log w @ [(c, r)]\<rparr>))"

definition sys_lseek :: "'s lkl \<Rightarrow> INTN \<Rightarrow> u64 \<Rightarrow> whence \<Rightarrow> 's world \<Rightarrow> u64 \<times> 's world" where
  "sys_lseek K fd off wh w =
    (let (r, s) = k_lseek K fd off wh (linux w)
     in (r, w\<lparr>linux := s, log := log w @ [(Sys_lseek fd off wh, ucast r)]\<rparr>))"

definition sys_read :: "'s lkl \<Rightarrow> INTN \<Rightarrow> UINTN \<Rightarrow> 's world \<Rightarrow> INTN \<times> u8 list \<times> 's world" where
  "sys_read K fd n w =
    (let (r, bs, s) = k_read K fd n (linux w)
     in (r, bs, w\<lparr>linux := s, log := log w @ [(Sys_read fd n, r)]\<rparr>))"

definition sys_fstat :: "'s lkl \<Rightarrow> INTN \<Rightarrow> 's world \<Rightarrow> INTN \<times> lkl_stat \<times> 's world" where
  "sys_fstat K fd w =
    (let (r, st) = k_fstat K fd (linux w) in (r, st, w\<lparr>log := log w @ [(Sys_fstat fd, r)]\<rparr>))"

definition fdopendir :: "'s lkl \<Rightarrow> INTN \<Rightarrow> 's world \<Rightarrow> nat option \<times> INTN \<times> 's world" where
  "fdopendir K fd w =
    (let (d, r, s) = k_fdopendir K fd (linux w)
     in (d, r, w\<lparr>linux := s, live := live w + (if d = None then 0 else 1),
                 log := log w @ [(Sys_fdopendir fd d, r)]\<rparr>))"

definition readdir :: "'s lkl \<Rightarrow> nat \<Rightarrow> 's world \<Rightarrow> string option \<times> 's world" where
  "readdir K d w =
    (let (e, s) = k_readdir K d (linux w)
     in (e, w\<lparr>linux := s, log := log w @ [(Sys_readdir d, if e = None then 0 else 1)]\<rparr>))"

definition rewinddir :: "'s lkl \<Rightarrow> nat \<Rightarrow> 's world \<Rightarrow> 's world" where
  "rewinddir K d w = w\<lparr>linux := k_rewinddir K d (linux w), log := log w @ [(Sys_rewinddir d, 0)]\<rparr>"

definition errdir :: "'s lkl \<Rightarrow> nat \<Rightarrow> 's world \<Rightarrow> INTN \<times> 's world" where
  "errdir K d w = (let r = k_errdir K d (linux w) in (r, w\<lparr>log := log w @ [(Sys_errdir d, r)]\<rparr>))"

definition sys_ioctl :: "'s lkl \<Rightarrow> INTN \<Rightarrow> ioctl \<Rightarrow> 's world \<Rightarrow> INTN \<times> u64 \<times> 's world" where
  "sys_ioctl K fd req w =
    (let (r, out, s) = k_ioctl K fd req (linux w)
     in (r, out, w\<lparr>linux := s, log := log w @ [(Sys_ioctl fd req, r)]\<rparr>))"

definition mount_dev :: "'s lkl \<Rightarrow> INTN \<Rightarrow> string \<Rightarrow> 's world \<Rightarrow> INTN \<times> string \<times> 's world" where
  "mount_dev K disk ty w =
    (let (r, mp, s) = k_mount_dev K disk ty (linux w)
     in (r, mp, w\<lparr>linux := s, log := log w @ [(Mount_dev disk ty, r)]\<rparr>))"

definition AllocatePool :: "'s world \<Rightarrow> bool \<times> 's world" where
  "AllocatePool w =
    (case allocs w of
       [] \<Rightarrow> (True, w\<lparr>live := live w + 1\<rparr>)
     | ok # oks \<Rightarrow> (ok, w\<lparr>allocs := oks, live := live w + (if ok then 1 else 0)\<rparr>))"

definition FreePool :: "'s world \<Rightarrow> 's world" where
  "FreePool w = w\<lparr>live := live w - 1\<rparr>"

text \<open>The log is only ever extended; the pool is not touched by a call, except by \<open>fdopendir\<close>.\<close>

lemma sys_log [simp]: "log (snd (sys K c w)) = log w @ [(c, fst (sys K c w))]"
  by (simp add: sys_def split_beta)

lemma sys_frame [simp]:
  "allocs (snd (sys K c w)) = allocs w" "live (snd (sys K c w)) = live w"
  by (simp_all add: sys_def split_beta)

lemma sys_pair:
  "sys K c w = (r, w') \<Longrightarrow> log w' = log w @ [(c, r)] \<and> live w' = live w \<and> allocs w' = allocs w"
  by (metis sys_log sys_frame fst_conv snd_conv)

lemma sys_lseek_pair: "sys_lseek K fd off wh w = (r, w') \<Longrightarrow>
    log w' = log w @ [(Sys_lseek fd off wh, ucast r)] \<and> live w' = live w \<and> allocs w' = allocs w"
  by (auto simp: sys_lseek_def split: prod.splits)

lemma sys_read_pair: "sys_read K fd n w = (r, bs, w') \<Longrightarrow>
    log w' = log w @ [(Sys_read fd n, r)] \<and> live w' = live w \<and> allocs w' = allocs w"
  by (auto simp: sys_read_def split: prod.splits)

lemma sys_fstat_pair: "sys_fstat K fd w = (r, st, w') \<Longrightarrow>
    log w' = log w @ [(Sys_fstat fd, r)] \<and> linux w' = linux w \<and> live w' = live w \<and> allocs w' = allocs w"
  by (auto simp: sys_fstat_def split: prod.splits)

lemma fdopendir_pair: "fdopendir K fd w = (d, r, w') \<Longrightarrow>
    log w' = log w @ [(Sys_fdopendir fd d, r)] \<and> live w' = live w + (if d = None then 0 else 1) \<and> allocs w' = allocs w"
  by (auto simp: fdopendir_def split: prod.splits)

lemma readdir_pair: "readdir K d w = (e, w') \<Longrightarrow>
    log w' = log w @ [(Sys_readdir d, if e = None then 0 else 1)] \<and> live w' = live w \<and> allocs w' = allocs w"
  by (auto simp: readdir_def split: prod.splits)

lemma rewinddir_frame [simp]:
  "log (rewinddir K d w) = log w @ [(Sys_rewinddir d, 0)]" "live (rewinddir K d w) = live w"
  "allocs (rewinddir K d w) = allocs w"
  by (simp_all add: rewinddir_def)

lemma errdir_pair: "errdir K d w = (r, w') \<Longrightarrow>
    log w' = log w @ [(Sys_errdir d, r)] \<and> linux w' = linux w \<and> live w' = live w \<and> allocs w' = allocs w"
  by (auto simp: errdir_def Let_def)

lemma sys_ioctl_pair: "sys_ioctl K fd req w = (r, out, w') \<Longrightarrow>
    log w' = log w @ [(Sys_ioctl fd req, r)] \<and> live w' = live w \<and> allocs w' = allocs w"
  by (auto simp: sys_ioctl_def split: prod.splits)

lemma mount_dev_pair: "mount_dev K disk ty w = (r, mp, w') \<Longrightarrow>
    log w' = log w @ [(Mount_dev disk ty, r)] \<and> live w' = live w \<and> allocs w' = allocs w"
  by (auto simp: mount_dev_def split: prod.splits)

lemma AllocatePool_pair:
  "AllocatePool w = (ok, w') \<Longrightarrow>
    log w' = log w \<and> linux w' = linux w \<and> live w' = live w + (if ok then 1 else 0)"
  by (auto simp: AllocatePool_def split: list.splits)

lemma FreePool_frame [simp]:
  "log (FreePool w) = log w" "linux (FreePool w) = linux w" "live (FreePool w) = live w - 1"
  "allocs (FreePool w) = allocs w"
  by (simp_all add: FreePool_def)

lemma neg_simps [simp]: "neg (-1)" "\<not> neg 0"
  by (simp_all add: neg_def)

lemma LKLError2EfiError_neg: "neg e \<Longrightarrow> EFI_ERROR (LKLError2EfiError e)"
  by (rule LKLError2EfiError_error) auto

end
