(* ===== verification/Paths.thy ===== *)
theory Paths imports Linux_Calls begin

text \<open>
  The string helpers of \<open>Misc.c\<close>: path separators, base names, prefixes. A routine that rewrites its
  argument in place returns the new string; a routine that returns a pointer into its argument
  returns the index. The two conversions between \<open>CHAR16\<close> and \<open>CHAR8\<close> strings are library calls
  and parameters here; what the routines add is the allocation.
\<close>

definition slash :: char where "slash = CHR 0x2F"
definition backslash :: char where "backslash = CHR 0x5C"

section \<open>Conversions\<close>

definition Unicode2Ascii :: "(u16 list \<Rightarrow> string) \<Rightarrow> u16 list \<Rightarrow> 's world \<Rightarrow> string option \<times> 's world" where
  "Unicode2Ascii to_ascii UnicodeStr w =
    (let (ok, w) = AllocatePool w
     in if \<not> ok then (None, w) else (Some (to_ascii UnicodeStr), w))"

definition Ascii2Unicode :: "(string \<Rightarrow> u16 list) \<Rightarrow> string \<Rightarrow> 's world \<Rightarrow> u16 list option \<times> 's world" where
  "Ascii2Unicode to_unicode AsciiStr w =
    (let (ok, w) = AllocatePool w
     in if \<not> ok then (None, w) else (Some (to_unicode AsciiStr), w))"

definition AsciiStrDup :: "string \<Rightarrow> 's world \<Rightarrow> string option \<times> 's world" where
  "AsciiStrDup Str w = (let (ok, w) = AllocatePool w in (if ok then Some Str else None, w))"

definition UnicodeStrDup :: "u16 list \<Rightarrow> 's world \<Rightarrow> u16 list option \<times> 's world" where
  "UnicodeStrDup Str w = (let (ok, w) = AllocatePool w in (if ok then Some Str else None, w))"

section \<open>Separators\<close>

definition PathToUnix :: "u16 list \<Rightarrow> u16 list" where
  "PathToUnix fname = map (\<lambda>c. if c = 0x5C then 0x2F else c) fname"

definition PathToUefi :: "u16 list \<Rightarrow> u16 list" where
  "PathToUefi fname = map (\<lambda>c. if c = 0x2F then 0x5C else c) fname"

definition PathToUnixAscii :: "string \<Rightarrow> string" where
  "PathToUnixAscii fname = map (\<lambda>c. if c = backslash then slash else c) fname"

definition PathToUefiAscii :: "string \<Rightarrow> string" where
  "PathToUefiAscii fname = map (\<lambda>c. if c = slash then backslash else c) fname"

text \<open>Only \<open>A\<close> to \<open>F\<close> are lowered: the routine is meant for hexadecimal digits.\<close>

definition UnicodeToLower :: "u16 list \<Rightarrow> u16 list" where
  "UnicodeToLower s = map (\<lambda>c. if c \<ge> 0x41 \<and> c \<le> 0x46 then c - 0x41 + 0x61 else c) s"

section \<open>Base names and prefixes\<close>

fun basename_loop :: "string \<Rightarrow> nat \<Rightarrow> nat" where
  "basename_loop s i = (if i \<noteq> 0 \<and> s ! (i - 1) \<noteq> slash then basename_loop s (i - 1) else i)"

declare basename_loop.simps [simp del]

definition GetBasenamePtr :: "string \<Rightarrow> nat" where
  "GetBasenamePtr s = (if s = [] then 0 else basename_loop s (length s - 1))"

text \<open>Writing the NUL at \<open>s[i]\<close> with \<open>i\<close> the last index shortens the string by one character.\<close>

fun slashes_loop :: "string \<Rightarrow> string" where
  "slashes_loop s =
    (let i = length s - 1 in if i \<noteq> 0 \<and> s ! i = slash then slashes_loop (take i s) else s)"

declare slashes_loop.simps [simp del]

definition RemoveTrailingSlashes :: "string \<Rightarrow> string" where
  "RemoveTrailingSlashes s = (if s = [] then s else slashes_loop s)"

definition StartsWith :: "string \<Rightarrow> string \<Rightarrow> bool" where
  "StartsWith str pre \<longleftrightarrow> take (length pre) str = pre"

section \<open>Directories\<close>

definition LKLMakeDir :: "'s lkl \<Rightarrow> string \<Rightarrow> 's world \<Rightarrow> EFI_STATUS \<times> 's world" where
  "LKLMakeDir K Path w =
    (let (Ret, w) = sys K (Sys_mkdir Path 0x1C0) w
     in if Ret \<noteq> 0 \<and> Ret \<noteq> - EEXIST then (LKLError2EfiError Ret, w) else (EFI_SUCCESS, w))"

section \<open>Facts\<close>

lemma PathToUnixAscii_no_backslash: "backslash \<notin> set (PathToUnixAscii s)"
  by (auto simp: PathToUnixAscii_def slash_def backslash_def)

lemma PathToUefiAscii_unix: "backslash \<notin> set s \<Longrightarrow> PathToUnixAscii (PathToUefiAscii s) = s"
  by (induction s) (auto simp: PathToUnixAscii_def PathToUefiAscii_def)

lemma StartsWith_iff: "StartsWith str pre \<longleftrightarrow> (\<exists>rest. str = pre @ rest)"
  unfolding StartsWith_def by (metis append_eq_conv_conj append_take_drop_id)

text \<open>The base name: the characters after the last slash that is not the final character.\<close>

lemma basename_loop_spec:
  "i \<le> length s \<Longrightarrow>
    basename_loop s i \<le> i
    \<and> (basename_loop s i = 0 \<or> s ! (basename_loop s i - 1) = slash)
    \<and> (\<forall>j. basename_loop s i \<le> j \<and> j < i \<longrightarrow> s ! j \<noteq> slash)"
proof (induction s i rule: basename_loop.induct)
  case (1 s i)
  show ?case
  proof (cases "i \<noteq> 0 \<and> s ! (i - 1) \<noteq> slash")
    case True
    then have eq: "basename_loop s i = basename_loop s (i - 1)" by (subst basename_loop.simps) simp
    have IH: "basename_loop s (i - 1) \<le> i - 1"
      "basename_loop s (i - 1) = 0 \<or> s ! (basename_loop s (i - 1) - 1) = slash"
      "\<forall>j. basename_loop s (i - 1) \<le> j \<and> j < i - 1 \<longrightarrow> s ! j \<noteq> slash"
      using 1 True by auto
    have "s ! j \<noteq> slash" if "basename_loop s (i - 1) \<le> j" "j < i" for j
      using that IH(3) True by (cases "j = i - 1") auto
    then show ?thesis using IH unfolding eq by auto
  next
    case False
    then have "basename_loop s i = i" by (subst basename_loop.simps) auto
    then show ?thesis using False by auto
  qed
qed

lemma GetBasenamePtr_spec:
  assumes "s \<noteq> []"
  shows "GetBasenamePtr s < length s"
    and "GetBasenamePtr s = 0 \<or> s ! (GetBasenamePtr s - 1) = slash"
    and "slash \<notin> set (butlast (drop (GetBasenamePtr s) s))"
proof -
  let ?n = "GetBasenamePtr s"
  have *: "?n \<le> length s - 1" "?n = 0 \<or> s ! (?n - 1) = slash"
    "\<forall>j. ?n \<le> j \<and> j < length s - 1 \<longrightarrow> s ! j \<noteq> slash"
    using basename_loop_spec [of "length s - 1" s] assms by (simp_all add: GetBasenamePtr_def)
  then show "?n < length s" "?n = 0 \<or> s ! (?n - 1) = slash" 
    using assms by (cases s; force)+
  show "slash \<notin> set (butlast (drop ?n s))"
    using *(3) by (auto simp: in_set_conv_nth nth_butlast)
qed

lemma slashes_loop_spec:
  "\<exists>n. s = slashes_loop s @ replicate n slash
    \<and> (length (slashes_loop s) \<le> 1 \<or> last (slashes_loop s) \<noteq> slash)
    \<and> (s \<noteq> [] \<longrightarrow> slashes_loop s \<noteq> [])"
proof (induction s rule: slashes_loop.induct)
  case (1 s)
  let ?i = "length s - 1"
  show ?case
  proof (cases "?i \<noteq> 0 \<and> s ! ?i = slash")
    case True
    then have eq: "slashes_loop s = slashes_loop (take ?i s)" by (subst slashes_loop.simps) simp
    obtain n where n: "take ?i s = slashes_loop (take ?i s) @ replicate n slash"
      "length (slashes_loop (take ?i s)) \<le> 1 \<or> last (slashes_loop (take ?i s)) \<noteq> slash"
      "take ?i s \<noteq> [] \<longrightarrow> slashes_loop (take ?i s) \<noteq> []"
      using 1 True by fastforce
    have "s = take ?i s @ [slash]"
      using True by (metis One_nat_def Suc_pred diff_less length_greater_0_conv less_numeral_extra(1)
          list.size(3) take_Suc_conv_app_nth take_all_iff order_refl diff_0_eq_0)
    then have "s = slashes_loop s @ replicate (Suc n) slash"
      using n(1) eq by (metis append.assoc replicate_append_same replicate_Suc)
    then show ?thesis using n eq True by (metis One_nat_def diff_is_0_eq' length_take list.size(3)
      min.absorb2 nat_le_linear take_eq_Nil2 diff_0_eq_0)
  next
    case False
    then have eq: "slashes_loop s = s" by (subst slashes_loop.simps) (auto simp: Let_def)
    then show ?thesis using False
      by (cases "s = []") (auto simp: last_conv_nth intro: exI [of _ 0])
  qed
qed

lemma RemoveTrailingSlashes_spec:
  obtains n where "s = RemoveTrailingSlashes s @ replicate n slash"
    and "length (RemoveTrailingSlashes s) \<le> 1 \<or> last (RemoveTrailingSlashes s) \<noteq> slash"
    and "s \<noteq> [] \<Longrightarrow> RemoveTrailingSlashes s \<noteq> []"
  using slashes_loop_spec [of s] by (cases "s = []") (auto simp: RemoveTrailingSlashes_def)

end
