(* ===== verification/Real_Path.thy ===== *)
theory Real_Path imports Paths begin

text \<open>
  \<open>RealPath\<close> (\<open>Misc.c\<close>, after glibc's \<open>realpath\<close>): resolves an absolute path to one without
  symbolic links, \<open>.\<close>, \<open>..\<close> and repeated separators. The state of the loop is the record \<open>rp\<close>: the
  characters of the result written so far (the source's \<open>dest\<close> is its end), the size of the
  result's buffer, the part of the name still to read and the number of links followed.
  \<open>owned\<close> says that the caller passed \<open>resolved == NULL\<close>, so that the buffer is the routine's own
  and may grow.

  The loop terminates because each round follows a link, of which there are at most 40, or shortens
  the name; \<open>realpath_loop\<close> is total with that measure.
\<close>

section \<open>The loop\<close>

record rp =
  rpath :: string
  capacity :: nat
  rest :: string
  num_links :: nat

datatype rp_next = Continue rp | Break rp | Fail

definition path_max :: nat where "path_max = 4096"

text \<open>\<open>while ((--dest)[-1] != '/');\<close>\<close>

fun drop_to_slash :: "string \<Rightarrow> string" where
  "drop_to_slash p = (if p = [] \<or> last p = slash then p else drop_to_slash (butlast p))"

declare drop_to_slash.simps [simp del]

definition back_up :: "string \<Rightarrow> string" where
  "back_up p = (if length p > 1 then drop_to_slash (butlast p) else p)"

text \<open>\<open>if (dest[-1] != '/') *dest++ = '/';\<close>\<close>

definition with_slash :: "string \<Rightarrow> string" where
  "with_slash p = (if last p \<noteq> slash then p @ [slash] else p)"

text \<open>The check of the buffer before a component is copied: the capacity, or \<open>None\<close> for the error.\<close>

definition grow :: "bool \<Rightarrow> nat \<Rightarrow> nat \<Rightarrow> nat \<Rightarrow> 's world \<Rightarrow> nat option \<times> 's world" where
  "grow owned cap dest len w =
    (if dest + len \<ge> cap then
       if \<not> owned then (None, w)
       else let new_size = cap + (if len + 1 > path_max then len + 1 else path_max);
                (ok, w) = (let (ok, w) = AllocatePool w in (ok, if ok then FreePool w else w))
            in (if ok then Some new_size else None, w)
     else (Some cap, w))"

text \<open>The component has been copied to the end of \<open>rpath\<close>; \<open>rest\<close> is what follows it.\<close>

definition follow :: "'s lkl \<Rightarrow> rp \<Rightarrow> 's world \<Rightarrow> rp_next" where
  "follow K st w =
    (let (rc, stat) = k_lstat K (rpath st) (linux w)
     in if neg rc then Fail
        else if LKL_S_ISLNK (st_mode stat) then
          if num_links st + 1 > 40 then Fail
          else let (n, buf) = k_readlink K (rpath st) (path_max - 1) (linux w)
               in if neg n then Fail
                  else let buf = take (unat n) buf; len = length (rest st)
                       in if unat n + len \<ge> path_max then Fail
                          else Continue (st\<lparr>rest := buf @ rest st, num_links := num_links st + 1,
                                            rpath := (if buf \<noteq> [] \<and> hd buf = slash then [slash]
                                                      else back_up (rpath st))\<rparr>)
        else Continue st)"

definition realpath_body :: "'s lkl \<Rightarrow> bool \<Rightarrow> rp \<Rightarrow> 's world \<Rightarrow> rp_next \<times> 's world" where
  "realpath_body K owned st w =
    (let start = dropWhile (\<lambda>c. c = slash) (rest st);
         comp = takeWhile (\<lambda>c. c \<noteq> slash) start;
         tail = dropWhile (\<lambda>c. c \<noteq> slash) start;
         st = st\<lparr>rest := tail\<rparr>
     in if comp = [] then (Break st, w)
        else if comp = ''.'' then (Continue st, w)
        else if comp = ''..'' then (Continue (st\<lparr>rpath := back_up (rpath st)\<rparr>), w)
        else let dest = with_slash (rpath st);
                 (cap, w) = grow owned (capacity st) (length dest) (length comp) w
             in case cap of
                  None \<Rightarrow> (Fail, w)
                | Some c \<Rightarrow> (follow K (st\<lparr>rpath := dest @ comp, capacity := c\<rparr>) w, w))"

lemma follow_links:
  assumes "follow K st w = Continue st'"
  shows "num_links st' = num_links st \<and> st' = st
    \<or> num_links st' = num_links st + 1 \<and> num_links st' \<le> 40"
  using assms by (auto simp: follow_def Let_def split: prod.splits if_splits)

lemma dropWhile_shorter: "takeWhile P xs \<noteq> [] \<Longrightarrow> length (dropWhile P xs) < length xs"
  by (cases xs) (auto simp: length_dropWhile_le le_imp_less_Suc split: if_splits)

lemma realpath_body_measure:
  assumes "realpath_body K owned st w = (Continue st', w')"
  shows "(st', st) \<in> measures [\<lambda>st. 41 - num_links st, \<lambda>st. length (rest st)]"
proof -
  let ?start = "dropWhile (\<lambda>c. c = slash) (rest st)"
  let ?tail = "dropWhile (\<lambda>c. c \<noteq> slash) ?start"
  have comp: "takeWhile (\<lambda>c. c \<noteq> slash) ?start \<noteq> []"
    using assms by (auto simp: realpath_body_def Let_def split: if_splits)
  then have "length ?tail < length ?start" by (rule dropWhile_shorter)
  also have "\<dots> \<le> length (rest st)" by (rule length_dropWhile_le)
  finally have less: "length ?tail < length (rest st)" .
  from assms comp have "num_links st' = num_links st \<and> rest st' = ?tail
    \<or> num_links st' = num_links st + 1 \<and> num_links st' \<le> 40"
    by (fastforce simp: realpath_body_def Let_def split: if_splits prod.splits option.splits
      dest: follow_links)
  then show ?thesis using less by auto
qed

function realpath_loop :: "'s lkl \<Rightarrow> bool \<Rightarrow> rp \<Rightarrow> 's world \<Rightarrow> rp option \<times> 's world" where
  "realpath_loop K owned st w =
    (if rest st = [] then (Some st, w)
     else case realpath_body K owned st w of
            (Continue st', w') \<Rightarrow> realpath_loop K owned st' w'
          | (Break st', w') \<Rightarrow> (Some st', w')
          | (Fail, w') \<Rightarrow> (None, w'))"
  by pat_completeness auto
termination
  by (relation "inv_image (measures [\<lambda>st. 41 - num_links st, \<lambda>st. length (rest st)]) (\<lambda>(K, ow, st, w). st)")
    (auto dest: realpath_body_measure [OF sym] simp del: in_measures)

declare realpath_loop.simps [simp del]

section \<open>The routine\<close>

definition RealPath :: "'s lkl \<Rightarrow> string option \<Rightarrow> bool \<Rightarrow> 's world \<Rightarrow> string option \<times> 's world" where
  "RealPath K name owned w =
    (case name of
       None \<Rightarrow> (None, w)
     | Some name \<Rightarrow>
         if name = [] then (None, w)
         else
           let (ok, w) = (if owned then AllocatePool w else (True, w))
           in if \<not> ok then (None, w)
              else if hd name \<noteq> slash then (None, if owned then FreePool w else w)
              else case realpath_loop K owned
                          \<lparr>rpath = [slash], capacity = path_max, rest = name, num_links = 0\<rparr> w of
                     (Some st, w) \<Rightarrow>
                       (Some (if length (rpath st) > 1 \<and> last (rpath st) = slash
                              then butlast (rpath st) else rpath st), w)
                   | (None, w) \<Rightarrow> (None, if owned then FreePool w else w))"

section \<open>Resolved paths\<close>

text \<open>
  \<open>path_body cs\<close> is \<open>/c1/.../cn\<close>, so the root is the empty string there and \<open>path_of\<close> puts the
  slash. A component is proper when it is a name: not empty, without separator, not a dot entry.
\<close>

definition path_body :: "string list \<Rightarrow> string" where
  "path_body cs = concat (map (\<lambda>c. slash # c) cs)"

definition path_of :: "string list \<Rightarrow> string" where
  "path_of cs = (if cs = [] then [slash] else path_body cs)"

definition proper :: "string \<Rightarrow> bool" where
  "proper c \<longleftrightarrow> c \<noteq> [] \<and> slash \<notin> set c \<and> c \<noteq> ''.'' \<and> c \<noteq> ''..''"

text \<open>Every prefix of the path exists and is not a symbolic link.\<close>

definition plain_node :: "'s lkl \<Rightarrow> 's \<Rightarrow> string \<Rightarrow> bool" where
  "plain_node K s p = (let (rc, stat) = k_lstat K p s in \<not> neg rc \<and> \<not> LKL_S_ISLNK (st_mode stat))"

definition link_free :: "'s lkl \<Rightarrow> 's \<Rightarrow> string list \<Rightarrow> bool" where
  "link_free K s cs = list_all (\<lambda>i. plain_node K s (path_body (take i cs))) [1..<Suc (length cs)]"

definition resolved_rpath :: "'s lkl \<Rightarrow> 's \<Rightarrow> string \<Rightarrow> string list \<Rightarrow> bool" where
  "resolved_rpath K s p cs \<longleftrightarrow>
    (cs \<noteq> [] \<and> p = path_body cs \<or> p = path_body cs @ [slash])
    \<and> list_all proper cs \<and> link_free K s cs"

lemma path_body_simps [simp]:
  "path_body [] = []" "path_body (cs @ [c]) = path_body cs @ slash # c"
  by (simp_all add: path_body_def)

lemma link_free_Nil [simp]: "link_free K s []"
  by (simp add: link_free_def)

lemma link_free_snoc [simp]:
  "link_free K s (cs @ [c]) \<longleftrightarrow> link_free K s cs \<and> plain_node K s (path_body cs @ slash # c)"
  by (auto simp: link_free_def list_all_iff)

lemma drop_to_slash_component: "slash \<notin> set c \<Longrightarrow> drop_to_slash (p @ slash # c) = p @ [slash]"
proof (induction c rule: rev_induct)
  case Nil
  show ?case by (subst drop_to_slash.simps) simp
next
  case (snoc x c)
  then show ?case by (subst drop_to_slash.simps) (auto simp: butlast_append)
qed

lemma back_up_component:
  "proper c \<Longrightarrow> back_up (p @ slash # c) = p @ [slash]"
  "proper c \<Longrightarrow> back_up (p @ slash # c @ [slash]) = p @ [slash]"
proof -
  assume c: "proper c"
  then have "slash \<notin> set (butlast c)" by (auto simp: proper_def dest: in_set_butlastD)
  then show "back_up (p @ slash # c) = p @ [slash]" "back_up (p @ slash # c @ [slash]) = p @ [slash]"
    using c by (auto simp: back_up_def proper_def butlast_append drop_to_slash_component)
qed

lemma back_up_resolved:
  assumes "resolved_rpath K s p cs"
  shows "back_up p = path_body (butlast cs) @ [slash]" "resolved_rpath K s (back_up p) (butlast cs)"
proof -
  show eq: "back_up p = path_body (butlast cs) @ [slash]"
  proof (cases cs rule: rev_cases)
    case Nil
    then show ?thesis using assms by (simp add: resolved_rpath_def back_up_def)
  next
    case (snoc ds c)
    then show ?thesis using assms by (auto simp: resolved_rpath_def back_up_component)
  qed
  have "link_free K s (butlast cs)" "list_all proper (butlast cs)"
    using assms by (cases cs rule: rev_cases; simp add: resolved_rpath_def)+
  then show "resolved_rpath K s (back_up p) (butlast cs)"
    unfolding resolved_rpath_def eq by simp
qed

lemma resolved_root: "resolved_rpath K s [slash] []"
  by (simp add: resolved_rpath_def)

lemma resolved_dest:
  assumes "resolved_rpath K s p cs"
  shows "with_slash p = path_body cs @ [slash]"
proof -
  have "last p \<noteq> slash" if "cs \<noteq> []" "p = path_body cs"
  proof (cases cs rule: rev_cases)
    case (snoc ds c)
    then have "last c \<in> set c" "slash \<notin> set c" "c \<noteq> []"
      using assms by (auto simp: resolved_rpath_def proper_def)
    then have "last c \<noteq> slash" by metis
    then show ?thesis using that snoc \<open>c \<noteq> []\<close> by simp
  qed (use that in simp)
  then show ?thesis using assms by (auto simp: resolved_rpath_def with_slash_def)
qed

section \<open>One round keeps the result resolved and inside its buffer\<close>

lemma grow_world: "grow owned cap d n w = (r, w') \<Longrightarrow>
    linux w' = linux w \<and> log w' = log w \<and> live w' = live w"
  by (auto simp: grow_def Let_def split: prod.splits if_splits dest: AllocatePool_pair)

lemma grow_fits: "grow owned cap d n w = (Some c, w') \<Longrightarrow> d \<le> cap \<Longrightarrow> d + n < c \<and> (\<not> owned \<longrightarrow> c = cap)"
  by (auto simp: grow_def Let_def path_max_def split: prod.splits if_splits)

lemma body_world: "realpath_body K owned st w = (n, w') \<Longrightarrow>
    linux w' = linux w \<and> log w' = log w \<and> live w' = live w"
  by (auto simp: realpath_body_def Let_def split: if_splits prod.splits option.splits dest: grow_world)

lemma component_proper:
  assumes "takeWhile (\<lambda>c. c \<noteq> slash) s \<noteq> []" "takeWhile (\<lambda>c. c \<noteq> slash) s \<noteq> ''.''"
    "takeWhile (\<lambda>c. c \<noteq> slash) s \<noteq> ''..''"
  shows "proper (takeWhile (\<lambda>c. c \<noteq> slash) s)"
  using assms by (auto simp: proper_def dest: set_takeWhileD)

text \<open>After the copy of a component \<open>rpath\<close> is \<open>path_body (cs @ [c])\<close>, not yet checked.\<close>

lemma follow_cases:
  assumes "follow K st w = Continue st'"
  obtains "st' = st" "plain_node K (linux w) (rpath st)"
  | "rpath st' = [slash] \<or> rpath st' = back_up (rpath st)" "capacity st' = capacity st"
  using assms by (auto simp: follow_def plain_node_def Let_def split: prod.splits if_splits)

lemma follow_resolved:
  assumes "follow K st w = Continue st'" "resolved_rpath K (linux w) (path_body cs @ [slash]) cs"
    and p: "rpath st = path_body cs @ slash # c" and c: "proper c"
  shows "(\<exists>ds. resolved_rpath K (linux w) (rpath st') ds)
    \<and> length (rpath st') \<le> length (rpath st) \<and> capacity st' = capacity st"
  using assms(1)
proof (cases rule: follow_cases)
  case 1
  then have "resolved_rpath K (linux w) (rpath st') (cs @ [c])"
    using assms(2) p c by (simp add: resolved_rpath_def)
  with 1 show ?thesis by auto
next
  case 2
  then have "rpath st' = [slash] \<or> rpath st' = path_body cs @ [slash]"
    using p c by (simp add: back_up_component)
  moreover have "length (rpath st') \<le> length (rpath st)" using calculation p by auto
  ultimately show ?thesis using 2(2) assms(2) resolved_root [of K "linux w"] by auto
qed

lemma follow_no_break: "follow K st w \<noteq> Break st'"
  by (auto simp: follow_def Let_def split: prod.splits if_splits)

lemma realpath_body_component:
  fixes st :: rp
  defines "start \<equiv> dropWhile (\<lambda>c. c = slash) (rest st)"
  defines "nm \<equiv> takeWhile (\<lambda>c. c \<noteq> slash) start"
  assumes "nm \<noteq> []" "nm \<noteq> ''.''" "nm \<noteq> ''..''"
  shows "realpath_body K owned st w =
    (case grow owned (capacity st) (length (with_slash (rpath st))) (length nm) w of
       (None, w') \<Rightarrow> (Fail, w')
     | (Some c, w') \<Rightarrow> (follow K (st\<lparr>rest := dropWhile (\<lambda>c. c \<noteq> slash) start,
                                     rpath := with_slash (rpath st) @ nm, capacity := c\<rparr>) w', w'))"
  using assms(3-5) unfolding assms(1,2)
  by (simp add: realpath_body_def Let_def split: prod.split option.split)

definition rp_inv :: "'s lkl \<Rightarrow> 's \<Rightarrow> rp \<Rightarrow> bool" where
  "rp_inv K s st \<longleftrightarrow> (\<exists>cs. resolved_rpath K s (rpath st) cs) \<and> length (rpath st) < capacity st"

lemma realpath_body_inv:
  assumes "realpath_body K owned st w = (n, w')" "n = Continue st' \<or> n = Break st'"
    and inv: "rp_inv K (linux w) st"
  shows "rp_inv K (linux w) st' \<and> (\<not> owned \<longrightarrow> capacity st' = capacity st)"
proof -
  let ?start = "dropWhile (\<lambda>c. c = slash) (rest st)"
  let ?comp = "takeWhile (\<lambda>c. c \<noteq> slash) ?start"
  obtain cs where cs: "resolved_rpath K (linux w) (rpath st) cs" and len: "length (rpath st) < capacity st"
    using inv by (auto simp: rp_inv_def)
  show ?thesis
  proof (cases "?comp = [] \<or> ?comp = ''.'' \<or> ?comp = ''..''")
    case True
    have "length (back_up (rpath st)) \<le> length (rpath st)"
      using cs back_up_resolved(1) [OF cs]
      by (cases cs rule: rev_cases) (auto simp: resolved_rpath_def)
    then show ?thesis
      using True assms(1,2) inv back_up_resolved(2) [OF cs]
      by (auto simp: realpath_body_def Let_def rp_inv_def split: if_splits)
  next
    case False
    let ?dest = "path_body cs @ [slash]"
    have dest: "with_slash (rpath st) = ?dest" by (rule resolved_dest [OF cs])
    have dlen: "length ?dest \<le> capacity st"
      using len unfolding dest [symmetric] by (simp add: with_slash_def)
    obtain c w1 where g: "grow owned (capacity st) (length ?dest) (length ?comp) w = (Some c, w1)"
      and f: "follow K (st\<lparr>rest := dropWhile (\<lambda>c. c \<noteq> slash) ?start, rpath := ?dest @ ?comp, capacity := c\<rparr>) w1
        = Continue st'"
      using assms(1,2) False follow_no_break
      by (auto simp: realpath_body_component dest split: prod.splits option.splits)
    have lin: "linux w1 = linux w" using grow_world [OF g] by simp
    have "resolved_rpath K (linux w1) ?dest cs" using cs lin by (auto simp: resolved_rpath_def)
    from follow_resolved [OF f this] component_proper False grow_fits [OF g dlen]
    show ?thesis by (auto simp: rp_inv_def lin)
  qed
qed
lemma realpath_loop_inv:
  assumes "realpath_loop K owned st w = (Some st', w')" "rp_inv K (linux w) st"
  shows "rp_inv K (linux w) st' \<and> (\<not> owned \<longrightarrow> capacity st' = capacity st)"
  using assms
proof (induction K owned st w rule: realpath_loop.induct)
  case (1 K owned st w)
  show ?case
  proof (cases "rest st = []")
    case True
    then show ?thesis using "1.prems" by (subst (asm) realpath_loop.simps) simp
  next
    case False
    obtain n w1 where b: "realpath_body K owned st w = (n, w1)" by fastforce
    note inv = realpath_body_inv [OF b _ "1.prems"(2)]
    have lin: "linux w1 = linux w" using body_world [OF b] by simp
    show ?thesis
    proof (cases n)
      case (Continue st1)
      then have "realpath_loop K owned st1 w1 = (Some st', w')"
        using "1.prems"(1) False b by (subst (asm) realpath_loop.simps) simp
      then show ?thesis
        using "1.IH" [OF False b [symmetric] Continue] inv [of st1] Continue lin by simp
    next
      case (Break st1)
      then show ?thesis
        using "1.prems"(1) False b inv [of st1] by (subst (asm) realpath_loop.simps) simp
    next
      case Fail
      then show ?thesis using "1.prems"(1) False b by (subst (asm) realpath_loop.simps) simp
    qed
  qed
qed

lemma realpath_loop_step:
  "rest st \<noteq> [] \<Longrightarrow> realpath_loop K owned st w =
    (case realpath_body K owned st w of
       (Continue st', w') \<Rightarrow> realpath_loop K owned st' w'
     | (Break st', w') \<Rightarrow> (Some st', w')
     | (Fail, w') \<Rightarrow> (None, w'))"
  by (subst realpath_loop.simps) simp

lemma realpath_loop_done: "rest st = [] \<Longrightarrow> realpath_loop K owned st w = (Some st, w)"
  by (subst realpath_loop.simps) simp

lemma realpath_loop_world:
  assumes "realpath_loop K owned st w = (r, w')"
  shows "linux w' = linux w \<and> log w' = log w \<and> live w' = live w"
  using assms
proof (induction K owned st w rule: realpath_loop.induct)
  case (1 K owned st w)
  obtain n w1 where b: "realpath_body K owned st w = (n, w1)" by fastforce
  note bw = body_world [OF b]
  show ?case
  proof (cases "rest st = []")
    case True
    then show ?thesis using "1.prems" by (simp add: realpath_loop_done)
  next
    case False
    note eq = realpath_loop_step [OF False, of K owned w, unfolded b]
    show ?thesis
    proof (cases n)
      case (Continue st1)
      then have "realpath_loop K owned st1 w1 = (r, w')" using "1.prems" eq by simp
      from "1.IH" [OF False b [symmetric] Continue this] bw show ?thesis by simp
    qed (use "1.prems" eq bw in auto)
  qed
qed

lemma path_body_last: "cs \<noteq> [] \<Longrightarrow> list_all proper cs \<Longrightarrow> last (path_body cs) \<noteq> slash"
proof (cases cs rule: rev_cases)
  case (snoc ds c)
  assume "list_all proper cs"
  with snoc have "last c \<in> set c" "slash \<notin> set c" "c \<noteq> []" by (auto simp: proper_def)
  then show ?thesis using snoc by (metis last_ConsR last_appendR list.distinct(1) path_body_simps(2))
qed simp

lemma path_body_length: "cs \<noteq> [] \<Longrightarrow> list_all proper cs \<Longrightarrow> length (path_body cs) > 1"
  by (cases cs rule: rev_cases) (auto simp: proper_def)

lemma resolved_strip:
  assumes "resolved_rpath K s p cs"
  shows "(if length p > 1 \<and> last p = slash then butlast p else p) = path_of cs"
proof (cases "cs = []")
  case True
  then show ?thesis using assms by (simp add: resolved_rpath_def path_of_def)
next
  case False
  have p: "list_all proper cs" using assms by (simp add: resolved_rpath_def)
  then show ?thesis
    using assms False path_body_last [OF False p] path_body_length [OF False p]
    by (auto simp: resolved_rpath_def path_of_def)
qed

lemma RealPath_Some:
  assumes "RealPath K name owned w = (Some r, w')"
  obtains cs where "r = path_of cs" "list_all proper cs" "link_free K (linux w) cs"
    and "\<not> owned \<Longrightarrow> length r < path_max"
    and "live w' = live w + (if owned then 1 else 0)" "linux w' = linux w" "log w' = log w"
proof -
  obtain nm where nm: "name = Some nm" "nm \<noteq> []" "hd nm = slash"
    using assms by (auto simp: RealPath_def Let_def split: option.splits if_splits prod.splits)
  obtain ok w1 where a: "(if owned then AllocatePool w else (True, w)) = (ok, w1)" by fastforce
  have w1: "linux w1 = linux w" "log w1 = log w" "live w1 = live w + (if owned \<and> ok then 1 else 0)"
    using a AllocatePool_pair [of w ok w1] by (auto split: if_splits)
  let ?st = "\<lparr>rpath = [slash], capacity = path_max, rest = nm, num_links = 0\<rparr>"
  obtain st where l: "realpath_loop K owned ?st w1 = (Some st, w')" and ok
    and r: "r = (if length (rpath st) > 1 \<and> last (rpath st) = slash then butlast (rpath st) else rpath st)"
    using assms nm a by (auto simp: RealPath_def Let_def split: option.splits if_splits prod.splits)
  have "rp_inv K (linux w1) ?st"
    by (auto simp: rp_inv_def path_max_def intro: resolved_root)
  from realpath_loop_inv [OF l this] obtain cs where cs: "resolved_rpath K (linux w) (rpath st) cs"
    and len: "length (rpath st) < capacity st" "\<not> owned \<Longrightarrow> capacity st = path_max"
    by (auto simp: rp_inv_def w1)
  have "r = path_of cs"
    using resolved_strip [OF cs] by (simp only: r)
  moreover have "length r < path_max" if "\<not> owned" using len that by (auto simp: r)
  ultimately show thesis
    using that cs realpath_loop_world [OF l] w1 \<open>ok\<close> by (auto simp: resolved_rpath_def)
qed

lemma RealPath_None:
  assumes "RealPath K name owned w = (None, w')"
  shows "live w' = live w \<and> linux w' = linux w \<and> log w' = log w"
  using assms
  by (auto simp: RealPath_def Let_def split: option.splits if_splits prod.splits
      dest!: realpath_loop_world AllocatePool_pair)

end
