(* ===== verification/Path_Resolution.thy ===== *)
theory Path_Resolution imports Real_Path begin

text \<open>
  A reference resolver on lists of components, and the proof that the buffer and pointer code of
  \<open>RealPath\<close> computes it: \<open>realpath_loop_resolves\<close> for a result, \<open>realpath_loop_fails\<close> for a failure
  on a tree without symbolic links.
\<close>

section \<open>The reference resolver\<close>

text \<open>
  Resolution on lists of components: \<open>.\<close> is skipped, \<open>..\<close> goes up (and stays at the root), a plain
  node is entered, a link is replaced by the components of its target, at most 40 times.
\<close>

function components :: "string \<Rightarrow> string list" where
  "components s =
    (let start = dropWhile (\<lambda>c. c = slash) s; c = takeWhile (\<lambda>c. c \<noteq> slash) start
     in if c = [] then [] else c # components (dropWhile (\<lambda>c. c \<noteq> slash) start))"
  by pat_completeness auto
termination
proof (relation "measure length")
  fix s :: string and start c
  assume "start = dropWhile (\<lambda>c. c = slash) s" "c = takeWhile (\<lambda>c. c \<noteq> slash) start" "c \<noteq> []"
  then show "(dropWhile (\<lambda>c. c \<noteq> slash) start, s) \<in> measure length"
    using dropWhile_shorter [of "\<lambda>c. c \<noteq> slash" start] length_dropWhile_le [of "\<lambda>c. c = slash" s]
    by (simp add: order.strict_trans2)
qed simp

declare components.simps [simp del]

datatype node = Missing | Plain | Link string

definition node_at :: "'s lkl \<Rightarrow> 's \<Rightarrow> string \<Rightarrow> node" where
  "node_at K s p =
    (let (rc, stat) = k_lstat K p s
     in if neg rc then Missing
        else if LKL_S_ISLNK (st_mode stat) then
          (let (n, buf) = k_readlink K p (path_max - 1) s
           in if neg n then Missing else Link (take (unat n) buf))
        else Plain)"

function resolve :: "(string \<Rightarrow> node) \<Rightarrow> nat \<Rightarrow> string list \<Rightarrow> string list \<Rightarrow> string list option" where
  "resolve look n [] cs = Some cs"
| "resolve look n (c # todo) cs =
    (if c = ''.'' then resolve look n todo cs
     else if c = ''..'' then resolve look n todo (butlast cs)
     else case look (path_body (cs @ [c])) of
            Missing \<Rightarrow> None
          | Plain \<Rightarrow> resolve look n todo (cs @ [c])
          | Link t \<Rightarrow>
              if n + 1 > 40 then None
              else resolve look (n + 1) (components t @ todo)
                     (if t \<noteq> [] \<and> hd t = slash then [] else cs))"
  by pat_completeness auto
termination
  by (relation "measures [\<lambda>(look, n, todo, cs). 41 - n, \<lambda>(look, n, todo, cs). length todo]") auto

lemma components_step:
  "takeWhile (\<lambda>c. c \<noteq> slash) (dropWhile (\<lambda>c. c = slash) s) \<noteq> [] \<Longrightarrow>
    components s = takeWhile (\<lambda>c. c \<noteq> slash) (dropWhile (\<lambda>c. c = slash) s)
      # components (dropWhile (\<lambda>c. c \<noteq> slash) (dropWhile (\<lambda>c. c = slash) s))"
  by (subst components.simps) (simp add: Let_def)

lemma components_none:
  "takeWhile (\<lambda>c. c \<noteq> slash) (dropWhile (\<lambda>c. c = slash) s) = [] \<Longrightarrow> components s = []"
  by (subst components.simps) (simp add: Let_def)

lemma takeWhile_append_sep:
  "end_ok = (e = [] \<or> hd e = slash) \<Longrightarrow> end_ok \<Longrightarrow> slash \<notin> set t \<Longrightarrow>
     takeWhile (\<lambda>c. c \<noteq> slash) (t @ e) = t \<and> dropWhile (\<lambda>c. c \<noteq> slash) (t @ e) = e"
  by (cases e) (auto simp: takeWhile_append dropWhile_append)

text \<open>The source puts the link's target in front of the unread rest, which starts with a slash.\<close>

lemma components_append:
  assumes "e = [] \<or> hd e = slash"
  shows "components (t @ e) = components t @ components e"
proof (induction t rule: components.induct)
  case (1 t)
  let ?start = "dropWhile (\<lambda>c. c = slash) t"
  let ?c = "takeWhile (\<lambda>c. c \<noteq> slash) ?start"
  let ?rest = "dropWhile (\<lambda>c. c \<noteq> slash) ?start"
  show ?case
  proof (cases "?start = []")
    case True
    then have "dropWhile (\<lambda>c. c = slash) (t @ e) = dropWhile (\<lambda>c. c = slash) e"
      by (simp add: dropWhile_append)
    then have "components (t @ e) = components e"
      by (cases "takeWhile (\<lambda>c. c \<noteq> slash) (dropWhile (\<lambda>c. c = slash) e) = []")
        (simp_all only: components_step components_none not_False_eq_True)
    moreover have "components t = []" by (rule components_none) (simp only: True takeWhile.simps)
    ultimately show ?thesis by simp
  next
    case False
    then have c: "?c \<noteq> []"
      using hd_dropWhile [of "\<lambda>c. c = slash" t] by (cases ?start) auto
    have start: "dropWhile (\<lambda>c. c = slash) (t @ e) = ?start @ e"
      using False by (auto simp: dropWhile_append dropWhile_eq_Nil_conv)
    have split: "takeWhile (\<lambda>c. c \<noteq> slash) (?start @ e) = ?c \<and>
      dropWhile (\<lambda>c. c \<noteq> slash) (?start @ e) = ?rest @ e"
    proof (cases "slash \<in> set ?start")
      case True
      then show ?thesis by (simp add: takeWhile_append1 dropWhile_append1)
    next
      case False
      have "?c = ?start" using False by (subst takeWhile_eq_all_conv) auto
      moreover have "?rest = []" using False by (subst dropWhile_eq_Nil_conv) auto
      ultimately show ?thesis using takeWhile_append_sep [OF refl assms False] by (metis append_Nil)
    qed
    then have tw: "takeWhile (\<lambda>c. c \<noteq> slash) (dropWhile (\<lambda>c. c = slash) (t @ e)) = ?c"
      "dropWhile (\<lambda>c. c \<noteq> slash) (dropWhile (\<lambda>c. c = slash) (t @ e)) = ?rest @ e"
      unfolding start by blast+
    have "components (t @ e) = ?c # components (?rest @ e)"
      using components_step [of "t @ e", unfolded tw, OF c] .
    also have "components (?rest @ e) = components ?rest @ components e"
      using "1.IH" [OF refl refl c] .
    finally show ?thesis unfolding components_step [OF c] by simp
  qed
qed

section \<open>The loop computes the reference resolution\<close>

lemma tail_slash: "dropWhile (\<lambda>c. c \<noteq> slash) s = [] \<or> hd (dropWhile (\<lambda>c. c \<noteq> slash) s) = slash"
  using hd_dropWhile [of "\<lambda>c. c \<noteq> slash" s] by blast

lemma follow_node:
  assumes "node_at K (linux w) (rpath st) = nd"
  shows "follow K st w =
    (case nd of
       Missing \<Rightarrow> Fail
     | Plain \<Rightarrow> Continue st
     | Link t \<Rightarrow> if num_links st + 1 > 40 then Fail
         else if unat (fst (k_readlink K (rpath st) (path_max - 1) (linux w))) + length (rest st) \<ge> path_max then Fail
         else Continue (st\<lparr>rest := t @ rest st, num_links := num_links st + 1,
                           rpath := (if t \<noteq> [] \<and> hd t = slash then [slash] else back_up (rpath st))\<rparr>))
    \<or> follow K st w = Fail \<and> num_links st + 1 > 40 \<and> nd = Missing"
  using assms by (auto simp: follow_def node_at_def Let_def split: prod.splits if_splits)

lemma plain_node_at: "node_at K s p = Plain \<longleftrightarrow> plain_node K s p"
  by (auto simp: node_at_def plain_node_def Let_def split: prod.splits)

lemma realpath_body_resolves:
  assumes "realpath_body K owned st w = (Continue st1, w1)"
    and cs: "resolved_rpath K (linux w) (rpath st) cs"
  shows "\<exists>cs1. resolved_rpath K (linux w) (rpath st1) cs1 \<and>
    resolve (node_at K (linux w)) (num_links st) (components (rest st)) cs =
    resolve (node_at K (linux w)) (num_links st1) (components (rest st1)) cs1"
proof -
  let ?start = "dropWhile (\<lambda>c. c = slash) (rest st)"
  let ?c = "takeWhile (\<lambda>c. c \<noteq> slash) ?start" and ?tail = "dropWhile (\<lambda>c. c \<noteq> slash) ?start"
  have ne: "?c \<noteq> []" using assms(1) by (auto simp: realpath_body_def Let_def split: if_splits)
  note cstep = components_step [OF ne]
  consider "?c = ''.''" | "?c = ''..''" | "?c \<noteq> ''.''" "?c \<noteq> ''..''" by blast
  then show ?thesis
  proof cases
    case 1
    then have "st1 = st\<lparr>rest := ?tail\<rparr>" using assms(1) by (simp add: realpath_body_def Let_def)
    then show ?thesis using cs cstep 1 by auto
  next
    case 2
    then have "st1 = st\<lparr>rest := ?tail, rpath := back_up (rpath st)\<rparr>"
      using assms(1) by (simp add: realpath_body_def Let_def)
    then show ?thesis using back_up_resolved(2) [OF cs] cstep 2 by auto
  next
    case 3
    have pc: "proper ?c" using ne 3 by (rule component_proper)
    have dest: "with_slash (rpath st) = path_body cs @ [slash]" by (rule resolved_dest [OF cs])
    define st' where "st' cap = st\<lparr>rest := ?tail, rpath := path_body cs @ slash # ?c, capacity := cap\<rparr>" for cap
    from assms(1) ne 3 dest obtain cap where f: "follow K (st' cap) w1 = Continue st1"
      and lin: "linux w1 = linux w"
      by (auto simp: realpath_body_component st'_def split: prod.splits option.splits dest: grow_world)
    have p: "rpath (st' cap) = path_body (cs @ [?c])" by (simp add: st'_def)
    define nd where "nd = node_at K (linux w) (path_body (cs @ [?c]))"
    have nd: "node_at K (linux w1) (rpath (st' cap)) = nd" by (simp only: nd_def p lin)
    have res: "resolve (node_at K (linux w)) (num_links st) (components (rest st)) cs =
      (case nd of Missing \<Rightarrow> None | Plain \<Rightarrow> resolve (node_at K (linux w)) (num_links st) (components ?tail) (cs @ [?c])
        | Link t \<Rightarrow> if num_links st + 1 > 40 then None
            else resolve (node_at K (linux w)) (num_links st + 1) (components t @ components ?tail)
                   (if t \<noteq> [] \<and> hd t = slash then [] else cs))"
      unfolding cstep resolve.simps using 3 by (simp add: nd_def)
    have root: "resolved_rpath K (linux w) (path_body cs @ [slash]) cs"
      using cs by (simp add: resolved_rpath_def)
    show ?thesis
    proof (cases nd)
      case Missing
      then show ?thesis using follow_node [OF nd] f by auto
    next
      case Plain
      then have st1: "st1 = st' cap" using follow_node [OF nd] f by auto
      have "plain_node K (linux w) (path_body cs @ slash # ?c)" using Plain nd p lin by (simp flip: plain_node_at)
      then have "resolved_rpath K (linux w) (path_body (cs @ [?c])) (cs @ [?c])"
        using cs pc by (simp add: resolved_rpath_def)
      then show ?thesis using res Plain p unfolding st1 by (auto simp: st'_def)
    next
      case (Link t)
      have up: "back_up (path_body cs @ slash # ?c) = path_body cs @ [slash]"
        using pc by (simp add: back_up_component)
      from Link f follow_node [OF nd] have st1: "num_links st + 1 \<le> 40" "rest st1 = t @ ?tail"
        "num_links st1 = num_links st + 1"
        "rpath st1 = (if t \<noteq> [] \<and> hd t = slash then [slash] else path_body cs @ [slash])"
        by (auto simp: up st'_def split: if_splits)
      then show ?thesis
        using res Link root resolved_root [of K "linux w"]
        by (auto simp: components_append [OF tail_slash])
    qed
  qed
qed

lemma realpath_body_break:
  assumes "realpath_body K owned st w = (Break st1, w1)"
  shows "rpath st1 = rpath st" "components (rest st) = []"
  using assms follow_no_break
  by (auto simp: realpath_body_def Let_def components_none split: if_splits prod.splits option.splits)

lemma realpath_loop_resolves:
  assumes "realpath_loop K owned st w = (Some st', w')" "resolved_rpath K (linux w) (rpath st) cs"
  shows "\<exists>ds. resolve (node_at K (linux w)) (num_links st) (components (rest st)) cs = Some ds
    \<and> resolved_rpath K (linux w) (rpath st') ds"
  using assms
proof (induction K owned st w arbitrary: cs rule: realpath_loop.induct)
  case (1 K owned st w)
  show ?case
  proof (cases "rest st = []")
    case True
    then show ?thesis using "1.prems" by (auto simp: realpath_loop_done components_none)
  next
    case False
    obtain n w1 where b: "realpath_body K owned st w = (n, w1)" by fastforce
    note eq = realpath_loop_step [OF False, of K owned w, unfolded b]
    have lin: "linux w1 = linux w" using body_world [OF b] by simp
    show ?thesis
    proof (cases n)
      case (Continue st1)
      with realpath_body_resolves [of K owned st w st1 w1 cs] b "1.prems"(2) obtain cs1
        where cs1: "resolved_rpath K (linux w) (rpath st1) cs1"
          "resolve (node_at K (linux w)) (num_links st) (components (rest st)) cs =
           resolve (node_at K (linux w)) (num_links st1) (components (rest st1)) cs1" by auto
      have "realpath_loop K owned st1 w1 = (Some st', w')" using "1.prems"(1) eq Continue by simp
      from "1.IH" [OF False b [symmetric] Continue this] cs1 lin show ?thesis by simp
    next
      case (Break st1)
      then show ?thesis using "1.prems" eq realpath_body_break [of K owned st w st1 w1] b by auto
    qed (use "1.prems" eq in auto)
  qed
qed

lemma realpath_body_fails:
  assumes "realpath_body K True st w = (Fail, w1)" "allocs w = []"
    and cs: "resolved_rpath K (linux w) (rpath st) cs"
    and links: "\<And>p t. node_at K (linux w) p \<noteq> Link t"
  shows "resolve (node_at K (linux w)) (num_links st) (components (rest st)) cs = None"
proof -
  let ?start = "dropWhile (\<lambda>c. c = slash) (rest st)"
  let ?c = "takeWhile (\<lambda>c. c \<noteq> slash) ?start" and ?tail = "dropWhile (\<lambda>c. c \<noteq> slash) ?start"
  have ne: "?c \<noteq> []" "?c \<noteq> ''.''" "?c \<noteq> ''..''"
    using assms(1) by (auto simp: realpath_body_def Let_def split: if_splits)
  have dest: "with_slash (rpath st) = path_body cs @ [slash]" by (rule resolved_dest [OF cs])
  have grow: "fst (grow True (capacity st) d n w) \<noteq> None" for d n
    using assms(2) by (simp add: grow_def AllocatePool_def Let_def)
  let ?g = "grow True (capacity st) (length (path_body cs @ [slash])) (length ?c) w"
  obtain cap w2 where g: "?g = (Some cap, w2)"
    using grow [of "length (path_body cs @ [slash])" "length ?c"] by (cases ?g) auto
  have lin: "linux w2 = linux w" using grow_world [OF g] by simp
  define st' where "st' = st\<lparr>rest := ?tail, rpath := (path_body cs @ [slash]) @ ?c, capacity := cap\<rparr>"
  have "follow K st' w2 = Fail"
    using assms(1) g unfolding realpath_body_component [OF ne] dest st'_def by auto
  then have "node_at K (linux w) (path_body (cs @ [?c])) = Missing"
    using follow_node [of K w2 st' "node_at K (linux w) (path_body (cs @ [?c]))"] links lin
    by (cases "node_at K (linux w) (path_body (cs @ [?c]))") (auto simp: st'_def)
  then show ?thesis unfolding components_step [OF ne(1)] resolve.simps using ne by simp
qed

lemma grow_allocs: "grow owned cap d n w = (r, w') \<Longrightarrow> allocs w = [] \<Longrightarrow> allocs w' = []"
  by (auto simp: grow_def AllocatePool_def FreePool_def Let_def split: if_splits)

lemma body_allocs: "realpath_body K owned st w = (n, w') \<Longrightarrow> allocs w = [] \<Longrightarrow> allocs w' = []"
  by (auto simp: realpath_body_def Let_def split: if_splits prod.splits option.splits dest: grow_allocs)

lemma realpath_loop_fails:
  assumes "realpath_loop K owned st w = (None, w')" "resolved_rpath K (linux w) (rpath st) cs"
    and "owned" "allocs w = []" "\<And>p t. node_at K (linux w) p \<noteq> Link t"
  shows "resolve (node_at K (linux w)) (num_links st) (components (rest st)) cs = None"
  using assms
proof (induction K owned st w arbitrary: cs rule: realpath_loop.induct)
  case (1 K owned st w)
  show ?case
  proof (cases "rest st = []")
    case True
    then show ?thesis using "1.prems" by (auto simp: realpath_loop_done)
  next
    case False
    obtain n w1 where b: "realpath_body K owned st w = (n, w1)" by fastforce
    note eq = realpath_loop_step [OF False, of K owned w, unfolded b]
    have lin: "linux w1 = linux w" using body_world [OF b] by simp
    show ?thesis
    proof (cases n)
      case (Continue st1)
      with realpath_body_resolves [of K owned st w st1 w1 cs] b "1.prems"(2) obtain cs1
        where cs1: "resolved_rpath K (linux w) (rpath st1) cs1"
          "resolve (node_at K (linux w)) (num_links st) (components (rest st)) cs =
           resolve (node_at K (linux w)) (num_links st1) (components (rest st1)) cs1" by auto
      have "realpath_loop K owned st1 w1 = (None, w')" using "1.prems"(1) eq Continue by simp
      from "1.IH" [OF False b [symmetric] Continue this] cs1 lin "1.prems"(3-5) body_allocs [OF b]
      show ?thesis by simp
    next
      case (Break st1)
      then show ?thesis using "1.prems" eq by auto
    next
      case Fail
      then show ?thesis using realpath_body_fails b "1.prems"(2-5) by (metis (full_types))
    qed
  qed
qed
end
