(* ===== verification/Files.thy ===== *)
theory Files imports Real_Path Efi_Time begin

text \<open>
  The file protocol of the driver: \<open>Open.c\<close>, \<open>OpenVolume.c\<close>, \<open>ReadWrite.c\<close>, \<open>Flush.c\<close>, \<open>Info.c\<close> and
  \<open>LKLFillFileInfo\<close> of \<open>Misc.c\<close>. An open file is the record \<open>ifile\<close>; a routine that changes it
  returns it updated. The Linux kernel \<open>K\<close> and the string conversions are parameters.

  The value \<open>None\<close> of a routine with an optional result is a run that stops in a failed \<open>ASSERT\<close>
  or in an access through an invalid pointer.
\<close>

section \<open>Volumes and open files\<close>

text \<open>
  \<open>LKL_VOLUME\<close> without the protocol pointers, of which only \<open>DiskIo2\<close> may be \<open>NULL\<close> (\<open>False\<close>);
  \<open>FsType = None\<close> is an uninitialised pointer.
\<close>

record volume =
  Handle :: nat
  Valid :: bool
  DiskIo2 :: bool
  MediaId :: u32
  ReadOnly :: bool
  LKLDiskId :: INTN
  LKLMountPoint :: string
  FsType :: "string option"
  IsEncrypted :: bool
  LKLBlkDevice :: string
  LKLBlkDeviceDecrypted :: string
  LKLCryptFSName :: string

record ifile =
  Volume :: volume
  FD :: INTN
  LinuxOpenFlags :: u32
  StatBuf :: lkl_stat
  FilePath :: string
  Dir :: "nat option"
  DirEnt :: "string option"

record EFI_FILE_INFO =
  Size :: u64
  FileSize :: u64
  PhysicalSize :: u64
  CreateTime :: EFI_TIME
  LastAccessTime :: EFI_TIME
  ModificationTime :: EFI_TIME
  Attribute :: u64
  FileName :: "u16 list"

record EFI_FILE_SYSTEM_INFO =
  fs_Size :: u64
  fs_ReadOnly :: bool
  VolumeSize :: u64
  FreeSpace :: u64
  BlockSize :: u32
  VolumeLabel :: "u16 list"

definition EFI_FILE_MODE_READ :: u64 where "EFI_FILE_MODE_READ = 1"
definition EFI_FILE_MODE_WRITE :: u64 where "EFI_FILE_MODE_WRITE = 2"
definition EFI_FILE_MODE_CREATE :: u64 where "EFI_FILE_MODE_CREATE = 0x8000000000000000"
definition EFI_FILE_READ_ONLY :: u64 where "EFI_FILE_READ_ONLY = 1"
definition EFI_FILE_DIRECTORY :: u64 where "EFI_FILE_DIRECTORY = 0x10"
definition EFI_FILE_VALID_ATTR :: u64 where "EFI_FILE_VALID_ATTR = 0x37"

text \<open>The byte offsets of the trailing names in the two UEFI structures.\<close>

definition SIZE_OF_EFI_FILE_INFO :: u32 where "SIZE_OF_EFI_FILE_INFO = 80"
definition SIZE_OF_EFI_FILE_SYSTEM_INFO :: u32 where "SIZE_OF_EFI_FILE_SYSTEM_INFO = 36"

definition AsciiStrSize :: "string \<Rightarrow> u32" where
  "AsciiStrSize s = word_of_nat (length s + 1)"

text \<open>The UEFI library leaves the destination alone when the string does not fit.\<close>

definition AsciiStrnCpyS :: "string \<Rightarrow> nat \<Rightarrow> string \<Rightarrow> string" where
  "AsciiStrnCpyS dest n src = (if length src < n then src else dest)"

definition zero_time :: EFI_TIME where
  "zero_time = \<lparr>Year = 0, Month = 0, Day = 0, Hour = 0, Minute = 0, Second = 0, Nanosecond = 0,
                TimeZone = 0, Daylight = 0\<rparr>"

definition zero_file_info :: EFI_FILE_INFO where
  "zero_file_info = \<lparr>Size = 0, FileSize = 0, PhysicalSize = 0, CreateTime = zero_time,
     LastAccessTime = zero_time, ModificationTime = zero_time, Attribute = 0, FileName = []\<rparr>"

section \<open>Opening\<close>

definition zero_stat :: lkl_stat where
  "zero_stat = \<lparr>st_mode = 0, st_size = 0, st_blocks = 0, lkl_st_atime = 0, lkl_st_mtime = 0\<rparr>"

definition LKLAllocateIFile ::
  "'s lkl \<Rightarrow> volume \<Rightarrow> INTN \<Rightarrow> 's world \<Rightarrow> EFI_STATUS \<times> ifile option \<times> 's world" where
  "LKLAllocateIFile K V fd w =
    (let (ok, w) = AllocatePool w
     in if \<not> ok then (EFI_OUT_OF_RESOURCES, None, w)
        else let (RC, stat, w) = sys_fstat K fd w
             in if RC \<noteq> 0 then
                  let Status = LKLError2EfiError RC
                  in (Status, None, if EFI_ERROR Status then FreePool w else w)
                else (EFI_SUCCESS,
                      Some \<lparr>Volume = V, FD = fd, LinuxOpenFlags = 0, StatBuf = stat, FilePath = [],
                            Dir = None, DirEnt = None\<rparr>, w))"

text \<open>The mode check and the flags: the status to return at once, or the Linux flags and mode.\<close>

definition open_flags :: "u64 \<Rightarrow> u64 \<Rightarrow> EFI_STATUS + (u32 \<times> u32)" where
  "open_flags OpenMode Attributes =
    (let ReadMode = (OpenMode AND EFI_FILE_MODE_READ \<noteq> 0);
         WriteMode = (OpenMode AND EFI_FILE_MODE_WRITE \<noteq> 0);
         CreateMode = (OpenMode AND EFI_FILE_MODE_CREATE \<noteq> 0)
     in if \<not> (OpenMode = EFI_FILE_MODE_READ \<or> OpenMode = EFI_FILE_MODE_READ OR EFI_FILE_MODE_WRITE
              \<or> OpenMode = EFI_FILE_MODE_READ OR EFI_FILE_MODE_WRITE OR EFI_FILE_MODE_CREATE)
        then Inl EFI_INVALID_PARAMETER
        else if CreateMode \<and> Attributes AND (EFI_FILE_READ_ONLY OR NOT EFI_FILE_VALID_ATTR) \<noteq> 0
        then Inl EFI_INVALID_PARAMETER
        else if \<not> ReadMode \<and> \<not> WriteMode then Inl EFI_ACCESS_DENIED
        else let LinuxFlags = (if ReadMode \<and> WriteMode then LKL_O_RDWR
                               else if ReadMode then LKL_O_RDONLY else LKL_O_WRONLY);
                 LinuxFlags = (if CreateMode then LinuxFlags OR LKL_O_CREAT else LinuxFlags);
                 LinuxMode = (if \<not> CreateMode then 0
                              else if Attributes AND EFI_FILE_READ_ONLY \<noteq> 0 then LKL_S_IRUSR
                              else LKL_S_IRUSR OR LKL_S_IWUSR)
             in Inr (LinuxFlags, LinuxMode))"

definition linux_name :: "volume \<Rightarrow> ifile \<Rightarrow> string \<Rightarrow> string" where
  "linux_name V Parent name =
    (if name \<noteq> [] \<and> hd name = slash then LKLMountPoint V @ name
     else LKLMountPoint V @ [slash] @ FilePath Parent @ [slash] @ name)"

text \<open>
  \<open>Done:\<close> close the file after an error and free the \<open>n\<close> buffers that are allocated.
\<close>

definition open_done :: "'s lkl \<Rightarrow> EFI_STATUS \<Rightarrow> INTN \<Rightarrow> nat \<Rightarrow> 's world \<Rightarrow> 's world" where
  "open_done K Status fd n w =
    (FreePool ^^ n) (if EFI_ERROR Status \<and> \<not> neg fd then snd (sys K (Sys_close fd) w) else w)"

text \<open>From the containment check on, with the three buffers allocated.\<close>

definition open_abs ::
  "'s lkl \<Rightarrow> volume \<Rightarrow> string \<Rightarrow> u32 \<Rightarrow> u32 \<Rightarrow> 's world \<Rightarrow> EFI_STATUS \<times> ifile option \<times> 's world" where
  "open_abs K V AbsFilePath LinuxFlags LinuxMode w =
    (if \<not> StartsWith AbsFilePath (LKLMountPoint V)
     then (EFI_NOT_FOUND, None, open_done K EFI_NOT_FOUND (-1) 3 w)
     else let (fd, w) = sys K (Sys_open AbsFilePath LinuxFlags LinuxMode) w
          in if neg fd then let Status = LKLError2EfiError fd in (Status, None, open_done K Status fd 3 w)
             else let (Status, f, w) = LKLAllocateIFile K V fd w;
                      f = (if EFI_ERROR Status then None
                           else map_option (\<lambda>f.
                             let CopySrc = drop (length (LKLMountPoint V)) AbsFilePath;
                                 CopySrc = (if CopySrc \<noteq> [] \<and> hd CopySrc = slash then tl CopySrc else CopySrc)
                             in f\<lparr>FilePath := AsciiStrnCpyS (FilePath f) 4096 CopySrc, LinuxOpenFlags := LinuxFlags\<rparr>) f)
                  in (Status, f, open_done K Status fd 3 w))"

text \<open>
  In create mode \<open>BaseName[-1] = 0\<close> cuts the name in front of the base name (for a base name at
  the start of the buffer the byte written lies outside the string).
\<close>

definition open_create ::
  "'s lkl \<Rightarrow> volume \<Rightarrow> string \<Rightarrow> string \<Rightarrow> u64 \<Rightarrow> u32 \<Rightarrow> u32 \<Rightarrow> 's world
    \<Rightarrow> EFI_STATUS \<times> ifile option \<times> 's world" where
  "open_create K V AbsFilePath BaseName Attributes LinuxFlags LinuxMode w =
    (let (ok, w) = AllocatePool w
     in if \<not> ok then (EFI_OUT_OF_RESOURCES, None, open_done K EFI_OUT_OF_RESOURCES (-1) 3 w)
        else let AbsFilePath = AbsFilePath @ [slash] @ BaseName;
                 w = FreePool w
             in if Attributes AND EFI_FILE_DIRECTORY \<noteq> 0 then
                  let (RC, w) = sys K (Sys_mkdir AbsFilePath LinuxMode) w
                  in if RC \<noteq> 0
                     then let Status = LKLError2EfiError RC in (Status, None, open_done K Status (-1) 3 w)
                     else open_abs K V AbsFilePath LKL_O_RDONLY 0 w
                else open_abs K V AbsFilePath LinuxFlags LinuxMode w)"

definition LKLOpen ::
  "'s lkl \<Rightarrow> (u16 list \<Rightarrow> string) \<Rightarrow> ifile \<Rightarrow> u16 list option \<Rightarrow> u64 \<Rightarrow> u64 \<Rightarrow> 's world
    \<Rightarrow> EFI_STATUS \<times> ifile option \<times> 's world" where
  "LKLOpen K to_ascii Parent FName OpenMode Attributes w =
    (let V = Volume Parent;
         WriteMode = (OpenMode AND EFI_FILE_MODE_WRITE \<noteq> 0);
         CreateMode = (OpenMode AND EFI_FILE_MODE_CREATE \<noteq> 0)
     in case FName of
          None \<Rightarrow> (EFI_INVALID_PARAMETER, None, w)
        | Some fname \<Rightarrow>
     case open_flags OpenMode Attributes of
       Inl Status \<Rightarrow> (Status, None, w)
     | Inr (LinuxFlags, LinuxMode) \<Rightarrow>
       if ReadOnly V \<and> WriteMode then (EFI_WRITE_PROTECTED, None, w)
       else case Unicode2Ascii to_ascii fname w of
         (None, w) \<Rightarrow> (EFI_OUT_OF_RESOURCES, None, open_done K EFI_OUT_OF_RESOURCES (-1) 0 w)
       | (Some name, w) \<Rightarrow>
         let name = PathToUnixAscii name;
             (ok, w) = AllocatePool w
         in if \<not> ok then (EFI_OUT_OF_RESOURCES, None, open_done K EFI_OUT_OF_RESOURCES (-1) 1 w)
            else
              let NewFileName = linux_name V Parent name;
                  NewFileName = (if CreateMode then RemoveTrailingSlashes NewFileName else NewFileName);
                  b = GetBasenamePtr NewFileName;
                  BaseName = drop b NewFileName
              in if CreateMode \<and> BaseName = []
                 then (EFI_NOT_FOUND, None, open_done K EFI_NOT_FOUND (-1) 2 w)
                 else
                   let NewFileName = (if CreateMode \<and> b \<noteq> 0 then take (b - 1) NewFileName else NewFileName)
                   in case RealPath K (Some NewFileName) True w of
                        (None, w) \<Rightarrow> (EFI_NOT_FOUND, None, open_done K EFI_NOT_FOUND (-1) 2 w)
                      | (Some AbsFilePath, w) \<Rightarrow>
                          if CreateMode
                          then open_create K V AbsFilePath BaseName Attributes LinuxFlags LinuxMode w
                          else open_abs K V AbsFilePath LinuxFlags LinuxMode w)"

definition LKLOpenEx :: EFI_STATUS where "LKLOpenEx = EFI_DEVICE_ERROR"

text \<open>
  \<open>LKLOpenVolume\<close> writes through \<open>IFile\<close> also when the allocation failed and left the pointer
  uninitialised.
\<close>

definition LKLOpenVolume ::
  "'s lkl \<Rightarrow> volume \<Rightarrow> 's world \<Rightarrow> (EFI_STATUS \<times> ifile option \<times> 's world) option" where
  "LKLOpenVolume K V w =
    (let (fd, w) = sys K (Sys_open (LKLMountPoint V) LKL_O_RDONLY 0x1A4) w
     in if neg fd then Some (LKLError2EfiError fd, None, w)
        else case LKLAllocateIFile K V fd w of
               (_, None, w) \<Rightarrow> None
             | (Status, Some f, w) \<Rightarrow>
                 Some (Status, Some (f\<lparr>LinuxOpenFlags := LKL_O_RDONLY\<rparr>),
                       if EFI_ERROR Status then snd (sys K (Sys_close fd) w) else w))"

section \<open>Closing, deleting, flushing\<close>

definition LKLIFileClose :: "'s lkl \<Rightarrow> ifile \<Rightarrow> 's world \<Rightarrow> EFI_STATUS \<times> 's world" where
  "LKLIFileClose K f w = (EFI_SUCCESS, FreePool (snd (sys K (Sys_close (FD f)) w)))"

definition LKLClose :: "'s lkl \<Rightarrow> ifile \<Rightarrow> 's world \<Rightarrow> EFI_STATUS \<times> 's world" where
  "LKLClose K f w = (let (_, w) = LKLIFileClose K f w in (EFI_SUCCESS, w))"

definition LKLDelete :: "'s lkl \<Rightarrow> ifile \<Rightarrow> 's world \<Rightarrow> EFI_STATUS \<times> 's world" where
  "LKLDelete K f w =
    (let Status = EFI_WARN_DELETE_FAILURE;
         (ok, w) = AllocatePool w;
         path = LKLMountPoint (Volume f) @ [slash] @ FilePath f;
         (_, w) = LKLIFileClose K f w
     in if ok then let (RC, w) = sys K (Sys_unlink path) w
                   in (if RC = 0 then EFI_SUCCESS else Status, FreePool w)
        else (Status, w))"

definition LKLFlush :: "'s lkl \<Rightarrow> ifile \<Rightarrow> 's world \<Rightarrow> EFI_STATUS \<times> 's world" where
  "LKLFlush K f w = (let (RC, w) = sys K (Sys_fsync (FD f)) w in (LKLError2EfiError RC, w))"

definition LKLFlushEx :: EFI_STATUS where "LKLFlushEx = EFI_DEVICE_ERROR"

end
