(* ===== verification/File_Io.thy ===== *)
theory File_Io imports Files begin

text \<open>
  Position, reading, writing and directory reading (\<open>ReadWrite.c\<close>) and the file and volume
  information (\<open>Info.c\<close>, \<open>LKLFillFileInfo\<close>). A caller's buffer is an output value: the bytes or
  the structure that was written, and the new value of \<open>*BufferSize\<close>.
\<close>

section \<open>Position\<close>

definition LKLGetPosition :: "'s lkl \<Rightarrow> ifile \<Rightarrow> 's world \<Rightarrow> EFI_STATUS \<times> u64 option \<times> 's world" where
  "LKLGetPosition K f w =
    (let (NewPosition, w) = sys_lseek K (FD f) 0 LKL_SEEK_CUR w
     in if sint NewPosition < 0 then (LKLError2EfiError (ucast NewPosition), None, w)
        else (EFI_SUCCESS, Some NewPosition, w))"

definition LKLSetPosition :: "'s lkl \<Rightarrow> ifile \<Rightarrow> u64 \<Rightarrow> 's world \<Rightarrow> EFI_STATUS \<times> ifile \<times> 's world" where
  "LKLSetPosition K f Position w =
    (if LKL_S_ISDIR (st_mode (StatBuf f)) then
       if Position = 0 then
         let w = (case Dir f of None \<Rightarrow> w | Some d \<Rightarrow> rewinddir K d w)
         in (EFI_SUCCESS, f\<lparr>DirEnt := None\<rparr>, w)
       else (EFI_UNSUPPORTED, f, w)
     else
       let (NewPosition, w) =
             (if Position = 0xffffffffffffffff then sys_lseek K (FD f) 0 LKL_SEEK_END w
              else sys_lseek K (FD f) Position LKL_SEEK_SET w)
       in (if sint NewPosition < 0 then LKLError2EfiError (ucast NewPosition) else EFI_SUCCESS, f, w))"

section \<open>What a file looks like\<close>

text \<open>\<open>st_size\<close> and \<open>st_blocks\<close> are \<open>long\<close>: they are sign-extended into the \<open>UINT64\<close> fields.\<close>

definition LKLFillFileInfo ::
  "'s lkl \<Rightarrow> INTN \<Rightarrow> EFI_FILE_INFO \<Rightarrow> 's world \<Rightarrow> EFI_STATUS \<times> EFI_FILE_INFO \<times> 's world" where
  "LKLFillFileInfo K fd info w =
    (let (RC, st, w) = sys_fstat K fd w
     in if RC \<noteq> 0 then (EFI_DEVICE_ERROR, info, w)
        else let info = info\<lparr>FileSize := scast (st_size st), PhysicalSize := scast (st_blocks st * 512),
                    LastAccessTime := EpochToEfiTime (lkl_st_atime st) (LastAccessTime info),
                    ModificationTime := EpochToEfiTime (lkl_st_mtime st) (ModificationTime info),
                    CreateTime := EpochToEfiTime (lkl_st_mtime st) (CreateTime info),
                    Attribute := 0\<rparr>;
                 info = (if st_mode st AND LKL_S_IWUSR = 0
                         then info\<lparr>Attribute := Attribute info OR EFI_FILE_READ_ONLY\<rparr> else info);
                 info = (if LKL_S_ISDIR (st_mode st)
                         then info\<lparr>Attribute := Attribute info OR EFI_FILE_DIRECTORY\<rparr> else info)
             in (EFI_SUCCESS, info, w))"

text \<open>\<open>ResultSize\<close> of a file information with the name \<open>name\<close>.\<close>

definition file_info_size :: "string \<Rightarrow> UINTN" where
  "file_info_size name = SIZE_OF_EFI_FILE_INFO + AsciiStrSize name * 2"

section \<open>Reading and writing\<close>

datatype io_mode = READ_DATA | WRITE_DATA

datatype buffer = Untouched | Bytes "u8 list" | Info EFI_FILE_INFO

definition LKLIFileReadDir ::
  "'s lkl \<Rightarrow> (string \<Rightarrow> u16 list) \<Rightarrow> ifile \<Rightarrow> UINTN \<Rightarrow> 's world
    \<Rightarrow> EFI_STATUS \<times> UINTN \<times> buffer \<times> ifile \<times> 's world" where
  "LKLIFileReadDir K to_unicode f BufferSize w =
    (let (d, RC, w) = (case Dir f of
            Some d \<Rightarrow> (Some d, 0, w)
          | None \<Rightarrow> fdopendir K (FD f) w)
     in case d of
          None \<Rightarrow> (LKLError2EfiError RC, BufferSize, Untouched, f, w)
        | Some d \<Rightarrow>
      let f = f\<lparr>Dir := Some d\<rparr>;
          (ent, w) = (case DirEnt f of
              None \<Rightarrow> readdir K d w
            | Some e \<Rightarrow> (Some e, w))
      in case ent of
           None \<Rightarrow>
             let (err, w) = errdir K d w
             in if err \<noteq> 0 then (EFI_DEVICE_ERROR, 0, Untouched, f, w)
             else (EFI_SUCCESS, 0, Untouched, f\<lparr>DirEnt := None\<rparr>, w)
         | Some name \<Rightarrow>
             let ResultSize = file_info_size name
             in if ResultSize > BufferSize
                then (EFI_BUFFER_TOO_SMALL, ResultSize, Untouched, f\<lparr>DirEnt := Some name\<rparr>, w)
                else
                  let info = zero_file_info\<lparr>Size := ucast ResultSize, FileName := to_unicode name\<rparr>;
                      (fd, w) = sys K (Sys_openat (FD f) name LKL_O_RDONLY 0x1A4) w;
                      (info, w) = (if \<not> neg fd
                         then let (_, info, w) = LKLFillFileInfo K fd info w
                              in (info, snd (sys K (Sys_close fd) w))
                         else (info, w))
                  in (EFI_SUCCESS, BufferSize, Info info, f\<lparr>DirEnt := None\<rparr>, w))"

definition LKLIFileAccess ::
  "'s lkl \<Rightarrow> (string \<Rightarrow> u16 list) \<Rightarrow> ifile \<Rightarrow> io_mode \<Rightarrow> UINTN \<Rightarrow> u8 list \<Rightarrow> 's world
    \<Rightarrow> EFI_STATUS \<times> UINTN \<times> buffer \<times> ifile \<times> 's world" where
  "LKLIFileAccess K to_unicode f IoMode BufferSize Buffer w =
    (if LKL_S_ISDIR (st_mode (StatBuf f)) \<and> IoMode = WRITE_DATA
     then (EFI_UNSUPPORTED, BufferSize, Untouched, f, w)
     else if IoMode = WRITE_DATA \<and> ReadOnly (Volume f)
     then (EFI_WRITE_PROTECTED, BufferSize, Untouched, f, w)
     else if LKL_S_ISDIR (st_mode (StatBuf f)) then LKLIFileReadDir K to_unicode f BufferSize w
     else let (RC, buf, w) =
            (if IoMode = WRITE_DATA
             then let (RC, w) = sys K (Sys_write (FD f) (take (unat BufferSize) Buffer)) w
                  in (RC, Untouched, w)
             else let (RC, bs, w) = sys_read K (FD f) BufferSize w in (RC, Bytes bs, w))
          in if neg RC then (LKLError2EfiError RC, BufferSize, Untouched, f, w)
             else (EFI_SUCCESS, RC, buf, f, w))"

definition LKLRead ::
  "'s lkl \<Rightarrow> (string \<Rightarrow> u16 list) \<Rightarrow> ifile \<Rightarrow> UINTN \<Rightarrow> 's world
    \<Rightarrow> EFI_STATUS \<times> UINTN \<times> buffer \<times> ifile \<times> 's world" where
  "LKLRead K to_unicode f BufferSize w = LKLIFileAccess K to_unicode f READ_DATA BufferSize [] w"

definition LKLWrite ::
  "'s lkl \<Rightarrow> (string \<Rightarrow> u16 list) \<Rightarrow> ifile \<Rightarrow> UINTN \<Rightarrow> u8 list \<Rightarrow> 's world
    \<Rightarrow> EFI_STATUS \<times> UINTN \<times> buffer \<times> ifile \<times> 's world" where
  "LKLWrite K to_unicode f BufferSize Buffer w =
    LKLIFileAccess K to_unicode f WRITE_DATA BufferSize Buffer w"

definition LKLReadEx :: EFI_STATUS where "LKLReadEx = EFI_UNSUPPORTED"
definition LKLWriteEx :: EFI_STATUS where "LKLWriteEx = EFI_UNSUPPORTED"

section \<open>Information\<close>

definition LKLGetFileInfo ::
  "'s lkl \<Rightarrow> (string \<Rightarrow> u16 list) \<Rightarrow> ifile \<Rightarrow> UINTN \<Rightarrow> 's world
    \<Rightarrow> EFI_STATUS \<times> UINTN \<times> EFI_FILE_INFO option \<times> 's world" where
  "LKLGetFileInfo K to_unicode f BufferSize w =
    (let name = drop (GetBasenamePtr (FilePath f)) (FilePath f);
         ResultSize = file_info_size name
     in if ResultSize > BufferSize then (EFI_BUFFER_TOO_SMALL, ResultSize, None, w)
        else let info = zero_file_info\<lparr>Size := ucast ResultSize, FileName := to_unicode name\<rparr>;
                 (_, info, w) = LKLFillFileInfo K (FD f) info w;
                 info = (if LinuxOpenFlags f AND LKL_O_RDONLY = 0
                         then info\<lparr>Attribute := Attribute info OR EFI_FILE_READ_ONLY\<rparr> else info);
                 info = (if LKL_S_ISDIR (st_mode (StatBuf f))
                         then info\<lparr>Attribute := Attribute info OR EFI_FILE_DIRECTORY\<rparr> else info)
             in (EFI_SUCCESS, BufferSize, Some info, w))"

text \<open>An uninitialised \<open>FsType\<close> is read: \<open>None\<close>.\<close>

definition LKLGetVolumeInfo ::
  "'s lkl \<Rightarrow> (string \<Rightarrow> u16 list) \<Rightarrow> volume \<Rightarrow> UINTN \<Rightarrow> 's world
    \<Rightarrow> (EFI_STATUS \<times> UINTN \<times> EFI_FILE_SYSTEM_INFO option) option" where
  "LKLGetVolumeInfo K to_unicode V BufferSize w =
    (let (RC, st) = k_statfs K (LKLMountPoint V) (linux w)
     in if RC \<noteq> 0 then Some (EFI_UNSUPPORTED, BufferSize, None)
        else case FsType V of None \<Rightarrow> None
          | Some ty \<Rightarrow>
              let ResultSize = SIZE_OF_EFI_FILE_SYSTEM_INFO + AsciiStrSize ty * 2
              in if BufferSize \<ge> ResultSize
                 then Some (EFI_SUCCESS, ResultSize,
                        Some \<lparr>fs_Size = ucast ResultSize, fs_ReadOnly = ReadOnly V,
                              VolumeSize = ucast (f_blocks st * f_bsize st),
                              FreeSpace = ucast (f_bfree st * f_bsize st),
                              BlockSize = f_bsize st, VolumeLabel = to_unicode ty\<rparr>)
                 else Some (EFI_BUFFER_TOO_SMALL, ResultSize, None))"

text \<open>
  One time of \<open>LKLSetFileInfo\<close>: a zero time leaves the modification time alone, an invalid one is
  refused, and a file opened read-only keeps its time. The result is the new modification time and
  whether it changed.
\<close>

definition set_time ::
  "EFI_TIME \<Rightarrow> bool \<Rightarrow> u32 \<times> bool \<Rightarrow> (EFI_STATUS + u32 \<times> bool) option" where
  "set_time t IsReadOnly mt =
    (if t = zero_time then Some (Inr mt)
     else if \<not> EfiTimeIsValid t then Some (Inl EFI_INVALID_PARAMETER)
     else if IsReadOnly then Some (Inr mt)
     else case EfiTimeToEpoch t of None \<Rightarrow> None
       | Some NewTime \<Rightarrow> Some (Inr (if fst mt \<noteq> NewTime then (NewTime, True) else mt)))"

text \<open>\<open>BOOLEAN\<close> is \<open>unsigned char\<close>: a cast keeps the low byte of the masked flags.\<close>

definition BOOLEAN :: "bool \<Rightarrow> u8" where "BOOLEAN b = of_bool b"

text \<open>The last step: the size, of a regular file that is not read-only.\<close>

definition set_size ::
  "'s lkl \<Rightarrow> ifile \<Rightarrow> lkl_stat \<Rightarrow> EFI_FILE_INFO \<Rightarrow> bool \<Rightarrow> bool \<Rightarrow> 's world \<Rightarrow> EFI_STATUS \<times> 's world" where
  "set_size K f st NewInfo IsDirectory IsReadOnly w =
    (if FileSize NewInfo \<noteq> scast (st_size st) then
       if IsDirectory \<or> IsReadOnly then (EFI_ACCESS_DENIED, w)
       else let (RC, w) = sys K (Sys_ftruncate (FD f) (FileSize NewInfo)) w
            in if RC \<noteq> 0 then (LKLError2EfiError RC, w) else (EFI_SUCCESS, w)
     else (EFI_SUCCESS, w))"

definition set_attributes ::
  "'s lkl \<Rightarrow> ifile \<Rightarrow> lkl_stat \<Rightarrow> EFI_FILE_INFO \<Rightarrow> 's world \<Rightarrow> EFI_STATUS \<times> 's world" where
  "set_attributes K f st NewInfo w =
    (let IsReadOnly = (ucast (LinuxOpenFlags f AND LKL_O_RDONLY) :: u8);
         IsDirectory = BOOLEAN (LKL_S_ISDIR (st_mode st))
     in if Attribute NewInfo AND NOT EFI_FILE_VALID_ATTR \<noteq> 0 then (EFI_INVALID_PARAMETER, w)
        else
          let NewAttribute = (ucast (Attribute NewInfo) :: u8)
          in if NewAttribute AND ucast EFI_FILE_DIRECTORY \<noteq> IsDirectory then (EFI_ACCESS_DENIED, w)
             else
               let (RC, w) =
                 (if NewAttribute AND ucast EFI_FILE_READ_ONLY \<noteq> IsReadOnly then
                    let NewMode = (if NewAttribute AND ucast EFI_FILE_READ_ONLY \<noteq> 0
                                   then st_mode st AND NOT LKL_S_IWUSR else st_mode st OR LKL_S_IWUSR)
                    in sys K (Sys_chmod (FilePath f) NewMode) w
                  else (0, w))
               in if RC \<noteq> 0 then (LKLError2EfiError RC, w)
                  else set_size K f st NewInfo (IsDirectory \<noteq> 0) (IsReadOnly \<noteq> 0) w)"

definition LKLSetFileInfo ::
  "'s lkl \<Rightarrow> volume \<Rightarrow> ifile \<Rightarrow> UINTN \<Rightarrow> EFI_FILE_INFO \<Rightarrow> 's world \<Rightarrow> (EFI_STATUS \<times> 's world) option" where
  "LKLSetFileInfo K V f BufferSize NewInfo w =
    (if FilePath f = [] then Some (EFI_ACCESS_DENIED, w)
     else if BufferSize < SIZE_OF_EFI_FILE_INFO + 2 \<or> Size NewInfo > ucast BufferSize
     then Some (EFI_BAD_BUFFER_SIZE, w)
     else
       let (RC, st, w) = sys_fstat K (FD f) w
       in if RC \<noteq> 0 then Some (LKLError2EfiError RC, w)
          else
            let IsReadOnly = (ucast (LinuxOpenFlags f AND LKL_O_RDONLY) :: u8) \<noteq> 0
            in case set_time (CreateTime NewInfo) IsReadOnly (lkl_st_mtime st, False) of
                 None \<Rightarrow> None | Some (Inl Status) \<Rightarrow> Some (Status, w) | Some (Inr mt) \<Rightarrow>
               case set_time (ModificationTime NewInfo) IsReadOnly mt of
                 None \<Rightarrow> None | Some (Inl Status) \<Rightarrow> Some (Status, w) | Some (Inr (modtime, TimeChanged)) \<Rightarrow>
               if \<not> IsReadOnly \<and> TimeChanged then
                 let (ok, w) = AllocatePool w
                 in if \<not> ok then None
                    else let (RC, w) = sys K (Sys_utime (LKLMountPoint V @ [slash] @ FilePath f)
                                               (lkl_st_atime st) modtime) w;
                             w = FreePool w
                         in if RC \<noteq> 0 then Some (LKLError2EfiError RC, w)
                            else Some (set_attributes K f st NewInfo w)
               else Some (set_attributes K f st NewInfo w))"

datatype guid = gEfiFileInfoGuid | gEfiFileSystemInfoGuid | Other_guid

datatype info = File_info EFI_FILE_INFO | Volume_info EFI_FILE_SYSTEM_INFO

definition LKLGetInfo ::
  "'s lkl \<Rightarrow> (string \<Rightarrow> u16 list) \<Rightarrow> ifile \<Rightarrow> guid \<Rightarrow> UINTN \<Rightarrow> 's world
    \<Rightarrow> (EFI_STATUS \<times> UINTN \<times> info option \<times> 's world) option" where
  "LKLGetInfo K to_unicode f Type BufferSize w =
    (case Type of
       gEfiFileInfoGuid \<Rightarrow>
         let (Status, n, i, w) = LKLGetFileInfo K to_unicode f BufferSize w
         in Some (Status, n, map_option File_info i, w)
     | gEfiFileSystemInfoGuid \<Rightarrow>
         map_option (\<lambda>(Status, n, i). (Status, n, map_option Volume_info i, w))
           (LKLGetVolumeInfo K to_unicode (Volume f) BufferSize w)
     | Other_guid \<Rightarrow> Some (EFI_UNSUPPORTED, BufferSize, None, w))"

definition LKLSetInfo ::
  "'s lkl \<Rightarrow> ifile \<Rightarrow> guid \<Rightarrow> UINTN \<Rightarrow> EFI_FILE_INFO \<Rightarrow> 's world \<Rightarrow> (EFI_STATUS \<times> 's world) option" where
  "LKLSetInfo K f Type BufferSize Buffer w =
    (if Type = gEfiFileInfoGuid then
       if ReadOnly (Volume f) then Some (EFI_WRITE_PROTECTED, w)
       else LKLSetFileInfo K (Volume f) f BufferSize Buffer w
     else Some (EFI_UNSUPPORTED, w))"

section \<open>Facts\<close>

text \<open>No Linux error is reported as a buffer that is too small, so callers can rely on that status.\<close>

lemma LKLErrorStatus_no_small: "EFI_BUFFER_TOO_SMALL \<notin> set LKLErrorStatus"
  by (simp add: LKLErrorStatus_def)

lemma LKLError2EfiError_no_small: "LKLError2EfiError e \<noteq> EFI_BUFFER_TOO_SMALL"
proof (cases "unat (if sint e < 0 then - e else e) < length LKLErrorStatus")
  case True
  then have "LKLErrorStatus ! unat (if sint e < 0 then - e else e) \<noteq> EFI_BUFFER_TOO_SMALL"
    using LKLErrorStatus_no_small nth_mem by metis
  then show ?thesis using True by (auto simp: LKLError2EfiError_def Let_def split: if_splits)
qed (auto simp: LKLError2EfiError_def Let_def)

text \<open>After a too small buffer the entry is kept, and the retry gives what the first call would have given.\<close>

lemma read_dir_retry:
  assumes "LKLIFileReadDir K cv f n w = (EFI_BUFFER_TOO_SMALL, need, b, f', w')"
  shows "n < need \<and> b = Untouched \<and> (\<exists>d r. log w' = log w @
      (if Dir f = None then [(Sys_fdopendir (FD f) (Some d), r)] else []) @
      (if DirEnt f = None then [(Sys_readdir (case Dir f of None \<Rightarrow> d | Some d' \<Rightarrow> d'), 1)] else []))
    \<and> (\<forall>m \<ge> need. LKLIFileReadDir K cv f' m w' = LKLIFileReadDir K cv f m w
        \<and> fst (LKLIFileReadDir K cv f m w) = EFI_SUCCESS)"
proof -
  obtain d RC w1 where open1: "(case Dir f of
            Some d \<Rightarrow> (Some d, 0, w)
          | None \<Rightarrow> fdopendir K (FD f) w) = (d, RC, w1)"
    by (metis prod_cases3)
  obtain dd where d: "d = Some dd"
    using assms open1 LKLError2EfiError_no_small [of RC] by (cases d) (auto simp: LKLIFileReadDir_def)
  have lw: "log w1 = log w @ (if Dir f = None then [(Sys_fdopendir (FD f) (Some dd), RC)] else [])"
    "\<forall>d'. Dir f = Some d' \<longrightarrow> d' = dd"
    using open1 d by (auto split: option.splits dest!: fdopendir_pair)
  obtain ent w2 where e: "(case DirEnt f of
              None \<Rightarrow> readdir K dd w1
            | Some e \<Rightarrow> (Some e, w1)) = (ent, w2)" by fastforce
  obtain name where name: "ent = Some name"
    using assms open1 d e by (cases ent) (auto simp: LKLIFileReadDir_def Let_def split: if_splits prod.splits)
  have lw2: "log w2 = log w @ (if Dir f = None then [(Sys_fdopendir (FD f) (Some dd), RC)] else []) @
      (if DirEnt f = None then [(Sys_readdir dd, 1)] else [])"
    using e lw(1) name by (auto split: option.splits dest!: readdir_pair)
  have small: "file_info_size name > n" "need = file_info_size name" "b = Untouched" "w' = w2"
    "f' = f\<lparr>Dir := Some dd, DirEnt := Some name\<rparr>"
    using assms open1 d e name by (auto simp: LKLIFileReadDir_def Let_def split: if_splits prod.splits)
  show ?thesis
  proof (intro conjI allI impI)
    fix m assume m: "need \<le> m"
    then have nm: "\<not> m < file_info_size name" using small by simp
    show "LKLIFileReadDir K cv f' m w' = LKLIFileReadDir K cv f m w"
      unfolding LKLIFileReadDir_def open1 by (simp add: d e name small nm Let_def)
    show "fst (LKLIFileReadDir K cv f m w) = EFI_SUCCESS"
      unfolding LKLIFileReadDir_def open1 by (simp add: d e name nm Let_def split_beta)
  next
    show "\<exists>d r. log w' = log w @ (if Dir f = None then [(Sys_fdopendir (FD f) (Some d), r)] else []) @
      (if DirEnt f = None then [(Sys_readdir (case Dir f of None \<Rightarrow> d | Some d' \<Rightarrow> d'), 1)] else [])"
      using small(4) lw(2) lw2 by (intro exI [of _ dd] exI [of _ RC]) (auto split: option.splits)
  qed (use small in auto)
qed

lemma read_dir_file:
  "LKLIFileReadDir K cv f n w = (S, m, b, f', w') \<Longrightarrow> StatBuf f' = StatBuf f"
  by (auto simp: LKLIFileReadDir_def Let_def split: option.splits prod.splits if_splits)

text \<open>
  \<open>LKL_O_RDONLY\<close> is 0, so the tests of the open flags never see a read-only file; and the directory
  bit 0x10 never equals the \<open>BOOLEAN\<close> 1, so a directory's attributes are always refused.
\<close>

lemma readonly_flag: "LinuxOpenFlags f AND LKL_O_RDONLY = 0"
  by (simp add: LKL_O_RDONLY_def)

lemma set_attributes_directory:
  assumes "LKL_S_ISDIR (st_mode st)"
  shows "set_attributes K f st i w =
    (if Attribute i AND NOT EFI_FILE_VALID_ATTR \<noteq> 0 then EFI_INVALID_PARAMETER else EFI_ACCESS_DENIED, w)"
proof -
  have "bit (x AND 0x10 :: u8) 0 = False" for x by (simp add: bit_simps)
  moreover have "bit (1 :: u8) 0" by simp
  ultimately have "(x AND 0x10 :: u8) \<noteq> 1" for x by metis
  then show ?thesis using assms
    by (simp add: set_attributes_def BOOLEAN_def EFI_FILE_DIRECTORY_def Let_def)
qed

lemma set_info_directory:
  assumes "LKLSetFileInfo K V f n i w = Some (S, w')"
    and "k_fstat K (FD f) (linux w) = (0, st)" "LKL_S_ISDIR (st_mode st)"
  shows "EFI_ERROR S"
  using assms LKLError2EfiError_error
  by (auto simp: LKLSetFileInfo_def sys_fstat_def set_attributes_directory set_time_def Let_def split: if_splits prod.splits
      option.splits sum.splits)

end
