(* ===== verification/Open_Trace.thy ===== *)
theory Open_Trace imports Files begin

text \<open>
  What \<open>LKLOpen\<close> leaves behind on every path through it: the calls it adds to the log, the pool
  buffers and the file. \<open>open_result\<close> is the summary and \<open>LKLOpen_result\<close> the theorem.
\<close>

lemma FreePool_n [simp]:
  "log ((FreePool ^^ n) w) = log w" "linux ((FreePool ^^ n) w) = linux w"
  "live ((FreePool ^^ n) w) = live w - int n"
  by (induction n) simp_all

lemma open_done_frame [simp]:
  "live (open_done K S fd n w) = live w - int n"
  "log (open_done K S fd n w) = log w @
     (if EFI_ERROR S \<and> \<not> neg fd then [(Sys_close fd, fst (sys K (Sys_close fd) w))] else [])"
  by (simp_all add: open_done_def)


lemma LKLAllocateIFile_cases:
  assumes "LKLAllocateIFile K V fd w = (S, f, w')"
  shows "linux w' = linux w
    \<and> (f = None \<and> EFI_ERROR S \<and> live w' = live w \<and> (\<exists>st. log w' = log w @ st \<and> (st = [] \<or> (\<exists>r. st = [(Sys_fstat fd, r)])))
       \<or> (\<exists>g. f = Some g \<and> S = EFI_SUCCESS \<and> Volume g = V \<and> FD g = fd \<and> FilePath g = [] \<and> Dir g = None
            \<and> live w' = live w + 1 \<and> log w' = log w @ [(Sys_fstat fd, 0)]))"
  using assms LKLError2EfiError_error
  by (auto simp: LKLAllocateIFile_def Let_def split: if_splits prod.splits dest!: AllocatePool_pair sys_fstat_pair)

text \<open>
  The end of the log after an open: nothing, a failed open, an open that is closed again, or (with a
  file as the result) the open of that file. An open that succeeds is followed by an \<open>fstat\<close>, unless the
  structure for the file could not be allocated.
\<close>

definition open_trace :: "string \<Rightarrow> u32 \<Rightarrow> u32 \<Rightarrow> (sys_call \<times> INTN) list \<Rightarrow> ifile option \<Rightarrow> bool" where
  "open_trace p fl m cs f \<longleftrightarrow>
    (case f of
       Some g \<Rightarrow> \<not> neg (FD g) \<and> Dir g = None \<and> cs = [(Sys_open p fl m, FD g), (Sys_fstat (FD g), 0)]
     | None \<Rightarrow> cs = [] \<or> (\<exists>fd. neg fd \<and> cs = [(Sys_open p fl m, fd)])
         \<or> (\<exists>fd st r. \<not> neg fd \<and> (st = [] \<or> (\<exists>e. st = [(Sys_fstat fd, e)]))
              \<and> cs = (Sys_open p fl m, fd) # st @ [(Sys_close fd, r)]))"

text \<open>The name that is kept in the file: the path behind the mount point, without a leading slash.\<close>

definition opened_name :: "volume \<Rightarrow> string \<Rightarrow> string" where
  "opened_name V p =
    (let s = drop (length (LKLMountPoint V)) p
     in AsciiStrnCpyS [] 4096 (if s \<noteq> [] \<and> hd s = slash then tl s else s))"

lemma open_abs_cases:
  assumes "open_abs K V p fl m w = (S, f, w')"
  obtains cs where "log w' = log w @ cs" "open_trace p fl m cs f"
    "cs \<noteq> [] \<Longrightarrow> StartsWith p (LKLMountPoint V)"
    "if f = None then EFI_ERROR S else S = EFI_SUCCESS"
    "live w' = live w - (if f = None then 3 else 2)"
    "\<And>g. f = Some g \<Longrightarrow> Volume g = V \<and> LinuxOpenFlags g = fl \<and> FilePath g = opened_name V p"
proof (cases "StartsWith p (LKLMountPoint V)")
  case False
  then show ?thesis using assms that [of "[]"] by (auto simp: open_abs_def open_trace_def)
next
  case True
  obtain fd w1 where o: "sys K (Sys_open p fl m) w = (fd, w1)" by fastforce
  note p = sys_pair [OF o]
  show ?thesis
  proof (cases "neg fd")
    case neg: True
    then have "EFI_ERROR S" "f = None" "w' = open_done K S fd 3 w1"
      using assms True o LKLError2EfiError_neg by (auto simp: open_abs_def Let_def)
    then show ?thesis using that [of "[(Sys_open p fl m, fd)]"] True neg p by (auto simp: open_trace_def)
  next
    case pos: False
    obtain S1 f1 w2 where a: "LKLAllocateIFile K V fd w1 = (S1, f1, w2)" by (metis prod_cases3)
    consider (failed) st where "f1 = None" "EFI_ERROR S1" "live w2 = live w1" "log w2 = log w1 @ st"
        "st = [] \<or> (\<exists>r. st = [(Sys_fstat fd, r)])"
      | (opened) g where "f1 = Some g" "S1 = EFI_SUCCESS" "Volume g = V" "FD g = fd" "FilePath g = []" "Dir g = None"
        "live w2 = live w1 + 1" "log w2 = log w1 @ [(Sys_fstat fd, 0)]"
      using LKLAllocateIFile_cases [OF a] by blast
    then show ?thesis
    proof cases
      case (failed st)
      note f1 = failed(1-4) and st = failed(5)
      have "S = S1" "f = None" "w' = open_done K S1 fd 3 w2"
        using assms True pos o a f1 by (auto simp: open_abs_def)
      then show ?thesis
        using that [of "(Sys_open p fl m, fd) # st @ [(Sys_close fd, fst (sys K (Sys_close fd) w2))]"] True pos f1 p st
        by (simp add: open_trace_def)
    next
      case (opened g)
      note f1 = opened
      have f: "S = EFI_SUCCESS" "w' = open_done K EFI_SUCCESS fd 3 w2"
        using assms True pos o a f1(1,2) by (simp_all add: open_abs_def)
      have "f = Some (g\<lparr>FilePath := opened_name V p, LinuxOpenFlags := fl\<rparr>)"
        using assms True pos o a f1(1,2,5) by (auto simp: open_abs_def opened_name_def Let_def)
      with f f1 have "S = EFI_SUCCESS" "w' = open_done K EFI_SUCCESS fd 3 w2"
        "\<exists>h. f = Some h \<and> FD h = fd \<and> Volume h = V \<and> LinuxOpenFlags h = fl \<and> FilePath h = opened_name V p \<and> Dir h = None"
        by simp_all
      then show ?thesis
        by (intro that [of "[(Sys_open p fl m, fd), (Sys_fstat fd, 0)]"]) (use True pos f1 p in \<open>auto simp: open_trace_def\<close>)
    qed
  qed
qed

lemma open_create_cases:
  assumes "open_create K V p b a fl m w = (S, f, w')"
  obtains mk cs fl' m' where "log w' = log w @ mk @ cs" "open_trace (p @ [slash] @ b) fl' m' cs f"
    "mk = [] \<or> (\<exists>m r. mk = [(Sys_mkdir (p @ [slash] @ b) m, r)] \<and> a AND EFI_FILE_DIRECTORY \<noteq> 0)"
    "cs \<noteq> [] \<Longrightarrow> StartsWith (p @ [slash] @ b) (LKLMountPoint V)"
    "if f = None then EFI_ERROR S else S = EFI_SUCCESS"
    "live w' = live w - (if f = None then 3 else 2)"
    "\<And>g. f = Some g \<Longrightarrow> Volume g = V \<and> FilePath g = opened_name V (p @ [slash] @ b)"
proof -
  obtain ok w1 where al: "AllocatePool w = (ok, w1)" by fastforce
  note alp = AllocatePool_pair [OF al]
  let ?p = "p @ [slash] @ b"
  show ?thesis
  proof (cases ok)
    case False
    then show ?thesis using assms al alp that [of "[]" "[]" fl m] 
      by (auto simp: open_create_def open_trace_def)
  next
    case ok: True
    show ?thesis
    proof (cases "a AND EFI_FILE_DIRECTORY \<noteq> 0")
      case False
      then have "open_abs K V ?p fl m (FreePool w1) = (S, f, w')"
        using assms al ok by (simp add: open_create_def Let_def)
      then show ?thesis
        by (rule open_abs_cases) (use that [of "[]"] alp ok in auto)
    next
      case dir: True
      obtain RC w2 where mk: "sys K (Sys_mkdir ?p m) (FreePool w1) = (RC, w2)" by fastforce
      note mkp = sys_pair [OF mk]
      show ?thesis
      proof (cases "RC = 0")
        case False
        then show ?thesis
          using that [of "[(Sys_mkdir ?p m, RC)]" "[]" fl m] assms al ok alp dir mk mkp LKLError2EfiError_error
          by (auto simp: open_create_def open_trace_def Let_def)
      next
        case True
        then have "open_abs K V ?p LKL_O_RDONLY 0 w2 = (S, f, w')"
          using assms al ok dir mk by (simp add: open_create_def Let_def)
        then show ?thesis
          by (rule open_abs_cases) (use that [of "[(Sys_mkdir ?p m, RC)]"] alp ok mkp dir in auto)
      qed
    qed
  qed
qed

lemma Unicode2Ascii_pair: "Unicode2Ascii cv n w = (r, w') \<Longrightarrow>
    log w' = log w \<and> linux w' = linux w \<and> live w' = live w + (if r = None then 0 else 1)"
  by (auto simp: Unicode2Ascii_def Let_def split: prod.splits if_splits dest!: AllocatePool_pair)

lemma open_flags_error: "open_flags mode attrs = Inl S \<Longrightarrow> EFI_ERROR S"
  by (auto simp: open_flags_def Let_def split: if_splits)

text \<open>From \<open>RealPath\<close> on, with the two buffers for the names allocated.\<close>

definition open_resolved where
  "open_resolved K V name base create attrs fl m w =
    (case RealPath K (Some name) True w of
       (None, w) \<Rightarrow> (EFI_NOT_FOUND, None, open_done K EFI_NOT_FOUND (-1) 2 w)
     | (Some AbsFilePath, w) \<Rightarrow>
         if create then open_create K V AbsFilePath base attrs fl m w
         else open_abs K V AbsFilePath fl m w)"

definition open_result :: "'s lkl \<Rightarrow> volume \<Rightarrow> bool \<Rightarrow> u64 \<Rightarrow> 's world \<Rightarrow> EFI_STATUS \<times> ifile option \<times> 's world \<Rightarrow> bool" where
  "open_result K V create attrs w r \<longleftrightarrow>
    (case r of (S, f, w') \<Rightarrow>
       (\<exists>mk cs p fl m ds b. log w' = log w @ mk @ cs \<and> open_trace p fl m cs f
          \<and> list_all proper ds \<and> link_free K (linux w) ds
          \<and> p = (if create then path_of ds @ [slash] @ b else path_of ds)
          \<and> (mk = [] \<or> create \<and> attrs AND EFI_FILE_DIRECTORY \<noteq> 0 \<and> (\<exists>m r. mk = [(Sys_mkdir p m, r)]))
          \<and> (cs \<noteq> [] \<longrightarrow> StartsWith p (LKLMountPoint V))
          \<and> (\<forall>g. f = Some g \<longrightarrow> Volume g = V \<and> FilePath g = opened_name V p))
       \<and> (if f = None then EFI_ERROR S else S = EFI_SUCCESS)
       \<and> live w' = live w + (if f = None then 0 else 1))"

lemma open_resultI:
  assumes "log w' = log w @ mk @ cs" "open_trace p fl m cs f" "list_all proper ds" "link_free K (linux w) ds"
    "p = (if create then path_of ds @ [slash] @ b else path_of ds)"
    "mk = [] \<or> create \<and> attrs AND EFI_FILE_DIRECTORY \<noteq> 0 \<and> (\<exists>m r. mk = [(Sys_mkdir p m, r)])"
    "cs \<noteq> [] \<Longrightarrow> StartsWith p (LKLMountPoint V)"
    "if f = None then EFI_ERROR S else S = EFI_SUCCESS"
    "live w' = live w + (if f = None then 0 else 1)"
    "\<And>g. f = Some g \<Longrightarrow> Volume g = V \<and> FilePath g = opened_name V p"
  shows "open_result K V create attrs w (S, f, w')"
  unfolding open_result_def split
  by (intro conjI exI [of _ mk] exI [of _ cs] exI [of _ p] exI [of _ fl] exI [of _ m] exI [of _ ds]
      exI [of _ b] impI allI) (use assms in simp_all)

lemma open_result_refused:
  assumes "EFI_ERROR S" "log w' = log w" "live w' = live w"
  shows "open_result K V create attrs w (S, None, w')"
  by (rule open_resultI [where mk = "[]" and cs = "[]" and ds = "[]" and b = "[]", OF _ _ _ _ refl])
    (use assms in \<open>simp_all add: open_trace_def\<close>)

lemma open_resolved_result:
  assumes w0: "log w = log w0" "linux w = linux w0" "live w = live w0 + 2"
  shows "open_result K V create attrs w0 (open_resolved K V name base create attrs fl m w)"
proof -
  obtain r w1 where rp: "RealPath K (Some name) True w = (r, w1)" by fastforce
  obtain S f w' where res: "open_resolved K V name base create attrs fl m w = (S, f, w')" by (metis prod_cases3)
  show ?thesis
  proof (cases r)
    case None
    then show ?thesis unfolding open_resolved_def rp using RealPath_None [of K _ True w w1] rp w0
      by (auto intro!: open_result_refused)
  next
    case (Some q)
    obtain ds where ds: "q = path_of ds" "list_all proper ds" "link_free K (linux w0) ds"
      and w1: "live w1 = live w0 + 3" "log w1 = log w0"
      by (rule RealPath_Some [OF rp [unfolded Some]]) (use that w0 in auto)
    show ?thesis
    proof (cases create)
      case True
      then have "open_create K V q base attrs fl m w1 = (S, f, w')"
        using res rp Some by (simp add: open_resolved_def)
      then show ?thesis
      proof (rule open_create_cases, goal_cases)
        case (1 mk cs fl' m')
        then show ?case unfolding res
          by (intro open_resultI [where mk = mk and cs = cs and ds = ds and b = base, OF _ 1(2)])
            (use ds w1 True in auto)
      qed
    next
      case False
      then have "open_abs K V q fl m w1 = (S, f, w')"
        using res rp Some by (simp add: open_resolved_def)
      then show ?thesis
      proof (rule open_abs_cases, goal_cases)
        case (1 cs)
        then show ?case unfolding res
          by (intro open_resultI [where mk = "[]" and cs = cs and ds = ds and b = base, OF _ 1(2)])
            (use ds w1 False in auto)
      qed
    qed
  qed
qed

lemma LKLOpen_result:
  "open_result K (Volume Parent) (mode AND EFI_FILE_MODE_CREATE \<noteq> 0) attrs w
     (LKLOpen K cv Parent FName mode attrs w)"
proof (cases "\<exists>n fl m. FName = Some n \<and> open_flags mode attrs = Inr (fl, m)
    \<and> \<not> (ReadOnly (Volume Parent) \<and> mode AND EFI_FILE_MODE_WRITE \<noteq> 0)")
  case False
  then show ?thesis
    by (auto simp: LKLOpen_def Let_def intro!: open_result_refused split: option.splits sum.splits
        dest: open_flags_error)
next
  case True
  then obtain n fl m where ok: "FName = Some n" "open_flags mode attrs = Inr (fl, m)"
    "\<not> (ReadOnly (Volume Parent) \<and> mode AND EFI_FILE_MODE_WRITE \<noteq> 0)" by auto
  obtain r w1 where u: "Unicode2Ascii cv n w = (r, w1)" by fastforce
  note up = Unicode2Ascii_pair [OF u]
  show ?thesis
  proof (cases r)
    case None
    then show ?thesis using ok u up
      by (auto simp: LKLOpen_def Let_def intro!: open_result_refused)
  next
    case (Some name)
    obtain good w2 where a: "AllocatePool w1 = (good, w2)" by fastforce
    note ap = AllocatePool_pair [OF a]
    show ?thesis
    proof (cases good)
      case False
      then show ?thesis using ok u up Some a ap
        by (auto simp: LKLOpen_def Let_def intro!: open_result_refused)
    next
      case good: True
      have w2: "log w2 = log w" "linux w2 = linux w" "live w2 = live w + 2"
        using up ap Some good by auto
      have *: "open_result K (Volume Parent) (mode AND EFI_FILE_MODE_CREATE \<noteq> 0) attrs w
        (open_resolved K (Volume Parent) nm base (mode AND EFI_FILE_MODE_CREATE \<noteq> 0) attrs fl m w2)" for nm base
        by (rule open_resolved_result [OF w2])
      show ?thesis using ok u Some a good w2 *
        by (auto simp: LKLOpen_def Let_def open_resolved_def [symmetric] intro!: open_result_refused
            cong: if_cong)
    qed
  qed
qed

end
