(* ===== verification/File_Session.thy ===== *)
theory File_Session imports File_Io Open_Trace "HOL-Library.Multiset" begin

text \<open>
  The file protocol as its clients use it: the table \<open>LKLFileInterface\<close> of \<open>Data.c\<close>, through which every
  call on a file goes, and sessions, in which files of a volume are opened from one another, used in
  any order and closed. The descriptors that are open after a log of system calls are a multiset, the
  directories opened on them a set, and a log is undefined when it uses a descriptor that is not open or
  a directory whose descriptor is not open.
\<close>

section \<open>The interface\<close>

datatype file_call =
    FP_Open "u16 list option" u64 u64
  | FP_Close
  | FP_Delete
  | FP_Read UINTN
  | FP_Write UINTN "u8 list"
  | FP_GetPosition
  | FP_SetPosition u64
  | FP_GetInfo guid UINTN
  | FP_SetInfo guid UINTN EFI_FILE_INFO
  | FP_Flush
  | FP_OpenEx
  | FP_ReadEx
  | FP_WriteEx
  | FP_FlushEx

text \<open>
  A call on the file \<open>f\<close>: the status, the file afterwards (\<open>None\<close> once it is closed), the file it opened
  and the world. \<open>None\<close> as a whole is undefined behaviour inside the call.
\<close>

primrec LKLFileInterface ::
  "'s lkl \<Rightarrow> (u16 list \<Rightarrow> string) \<Rightarrow> (string \<Rightarrow> u16 list) \<Rightarrow> file_call \<Rightarrow> ifile \<Rightarrow> 's world
    \<Rightarrow> (EFI_STATUS \<times> ifile option \<times> ifile option \<times> 's world) option" where
  "LKLFileInterface K to_ascii to_unicode (FP_Open name mode attrs) f w =
     (let (S, g, w) = LKLOpen K to_ascii f name mode attrs w in Some (S, Some f, g, w))"
| "LKLFileInterface K to_ascii to_unicode FP_Close f w =
     (let (S, w) = LKLClose K f w in Some (S, None, None, w))"
| "LKLFileInterface K to_ascii to_unicode FP_Delete f w =
     (let (S, w) = LKLDelete K f w in Some (S, None, None, w))"
| "LKLFileInterface K to_ascii to_unicode (FP_Read n) f w =
     (let (S, n, b, f, w) = LKLRead K to_unicode f n w in Some (S, Some f, None, w))"
| "LKLFileInterface K to_ascii to_unicode (FP_Write n bs) f w =
     (let (S, n, b, f, w) = LKLWrite K to_unicode f n bs w in Some (S, Some f, None, w))"
| "LKLFileInterface K to_ascii to_unicode FP_GetPosition f w =
     (let (S, p, w) = LKLGetPosition K f w in Some (S, Some f, None, w))"
| "LKLFileInterface K to_ascii to_unicode (FP_SetPosition p) f w =
     (let (S, f, w) = LKLSetPosition K f p w in Some (S, Some f, None, w))"
| "LKLFileInterface K to_ascii to_unicode (FP_GetInfo ty n) f w =
     map_option (\<lambda>(S, n, i, w). (S, Some f, None, w)) (LKLGetInfo K to_unicode f ty n w)"
| "LKLFileInterface K to_ascii to_unicode (FP_SetInfo ty n i) f w =
     map_option (\<lambda>(S, w). (S, Some f, None, w)) (LKLSetInfo K f ty n i w)"
| "LKLFileInterface K to_ascii to_unicode FP_Flush f w =
     (let (S, w) = LKLFlush K f w in Some (S, Some f, None, w))"
| "LKLFileInterface K to_ascii to_unicode FP_OpenEx f w = Some (LKLOpenEx, Some f, None, w)"
| "LKLFileInterface K to_ascii to_unicode FP_ReadEx f w = Some (LKLReadEx, Some f, None, w)"
| "LKLFileInterface K to_ascii to_unicode FP_WriteEx f w = Some (LKLWriteEx, Some f, None, w)"
| "LKLFileInterface K to_ascii to_unicode FP_FlushEx f w = Some (LKLFlushEx, Some f, None, w)"

section \<open>Descriptors and directories\<close>

text \<open>
  The handles: the open descriptors, and the directories with the descriptor each was opened on, as far as
  this is open. One system call gives the handles afterwards; a call on a descriptor needs it to be open, a
  call on a directory needs an open descriptor below it.
\<close>

type_synonym handles = "INTN multiset \<times> (nat \<times> INTN) set"

definition if_open :: "INTN \<Rightarrow> handles \<Rightarrow> handles \<Rightarrow> handles option" where
  "if_open fd H H' = (if fd \<in># fst H then Some H' else None)"

definition if_dir :: "nat \<Rightarrow> handles \<Rightarrow> handles option" where
  "if_dir d H = (if \<exists>fd. (d, fd) \<in> snd H \<and> fd \<in># fst H then Some H else None)"

definition opened :: "INTN \<Rightarrow> INTN multiset \<Rightarrow> INTN multiset" where
  "opened r M = (if neg r then M else add_mset r M)"

definition dirs_on :: "INTN multiset \<Rightarrow> (nat \<times> INTN) set \<Rightarrow> (nat \<times> INTN) set" where
  "dirs_on M D = {p \<in> D. snd p \<in># M}"

fun fds_step :: "handles \<Rightarrow> sys_call \<times> INTN \<Rightarrow> handles option" where
  "fds_step (M, D) (Sys_open p fl m, r) = Some (opened r M, D)"
| "fds_step (M, D) (Sys_openat fd p fl m, r) = if_open fd (M, D) (opened r M, D)"
| "fds_step (M, D) (Sys_close fd, r) = if_open fd (M, D) (M - {#fd#}, dirs_on (M - {#fd#}) D)"
| "fds_step (M, D) (Sys_ftruncate fd n, r) = if_open fd (M, D) (M, D)"
| "fds_step (M, D) (Sys_lseek fd off wh, r) = if_open fd (M, D) (M, D)"
| "fds_step (M, D) (Sys_read fd n, r) = if_open fd (M, D) (M, D)"
| "fds_step (M, D) (Sys_write fd bs, r) = if_open fd (M, D) (M, D)"
| "fds_step (M, D) (Sys_fsync fd, r) = if_open fd (M, D) (M, D)"
| "fds_step (M, D) (Sys_fstat fd, r) = if_open fd (M, D) (M, D)"
| "fds_step (M, D) (Sys_ioctl fd req, r) = if_open fd (M, D) (M, D)"
| "fds_step (M, D) (Sys_fdopendir fd d, r) =
    if_open fd (M, D) (M, case d of None \<Rightarrow> D | Some d \<Rightarrow> insert (d, fd) D)"
| "fds_step (M, D) (Sys_readdir d, r) = if_dir d (M, D)"
| "fds_step (M, D) (Sys_rewinddir d, r) = if_dir d (M, D)"
| "fds_step (M, D) (Sys_errdir d, r) = if_dir d (M, D)"
| "fds_step H _ = Some H"

primrec fds :: "(sys_call \<times> INTN) list \<Rightarrow> handles \<Rightarrow> handles option" where
  "fds [] H = Some H"
| "fds (c # cs) H = Option.bind (fds_step H c) (fds cs)"

lemma fds_append: "fds (xs @ ys) H = Option.bind (fds xs H) (fds ys)"
  by (induction xs arbitrary: H) (auto split: Option.bind_split)

text \<open>The directory objects that a log took from the pool.\<close>

fun opens_dir :: "sys_call \<Rightarrow> bool" where
  "opens_dir (Sys_fdopendir fd (Some d)) \<longleftrightarrow> True"
| "opens_dir c \<longleftrightarrow> False"

definition dirs_opened :: "(sys_call \<times> INTN) list \<Rightarrow> int" where
  "dirs_opened cs = int (length (filter (\<lambda>c. opens_dir (fst c)) cs))"

lemma dirs_opened_simps [simp]:
  "dirs_opened [] = 0" "dirs_opened (c # cs) = of_bool (opens_dir (fst c)) + dirs_opened cs"
  "dirs_opened (cs @ ds) = dirs_opened cs + dirs_opened ds"
  by (simp_all add: dirs_opened_def)

text \<open>The directory of a file, if it has one, was opened on the file's descriptor.\<close>

definition dir_open :: "(nat \<times> INTN) set \<Rightarrow> ifile \<Rightarrow> bool" where
  "dir_open D f \<longleftrightarrow> (\<forall>d. Dir f = Some d \<longrightarrow> (d, FD f) \<in> D)"

lemma dir_open_None [simp]: "Dir f = None \<Longrightarrow> dir_open D f"
  by (simp add: dir_open_def)

lemmas handle_defs = if_open_def if_dir_def opened_def dirs_on_def dir_open_def

section \<open>Sessions\<close>

text \<open>The files that are open and the world; a step opens the volume or makes a call on an open file.\<close>

record 's session =
  s_files :: "ifile list"
  s_world :: "'s world"

datatype session_call = Open_volume | Call_file nat file_call

abbreviation files_of :: "ifile option \<Rightarrow> ifile list" where
  "files_of f \<equiv> (case f of None \<Rightarrow> [] | Some g \<Rightarrow> [g])"

inductive session_step ::
  "'s lkl \<Rightarrow> (u16 list \<Rightarrow> string) \<Rightarrow> (string \<Rightarrow> u16 list) \<Rightarrow> volume
    \<Rightarrow> 's session \<Rightarrow> session_call \<Rightarrow> EFI_STATUS \<Rightarrow> 's session \<Rightarrow> bool"
  for K to_ascii to_unicode V where
  open_volume: "LKLOpenVolume K V (s_world s) = Some (S, f, w) \<Longrightarrow>
    session_step K to_ascii to_unicode V s Open_volume S
      \<lparr>s_files = s_files s @ files_of f, s_world = w\<rparr>"
| file_call: "i < length (s_files s) \<Longrightarrow>
    LKLFileInterface K to_ascii to_unicode c (s_files s ! i) (s_world s) = Some (S, self, new, w) \<Longrightarrow>
    session_step K to_ascii to_unicode V s (Call_file i c) S
      \<lparr>s_files = take i (s_files s) @ files_of self @ drop (Suc i) (s_files s) @ files_of new, s_world = w\<rparr>"

inductive_cases session_stepE: "session_step K ca cu V s c S s'"

text \<open>
  The calls that name a path below the mount point: opening, removing and setting the times. Making a
  directory and changing the mode are left out, they can name a path outside.
\<close>

fun in_volume :: "volume \<Rightarrow> sys_call \<times> INTN \<Rightarrow> bool" where
  "in_volume V (Sys_open p fl m, r) \<longleftrightarrow> StartsWith p (LKLMountPoint V)"
| "in_volume V (Sys_unlink p, r) \<longleftrightarrow> StartsWith p (LKLMountPoint V)"
| "in_volume V (Sys_utime p a m, r) \<longleftrightarrow> StartsWith p (LKLMountPoint V)"
| "in_volume V _ \<longleftrightarrow> True"

text \<open>
  The effect of one call on a file \<open>f\<close> with result files \<open>gs\<close>: the open descriptors change by their number
  less one, and the pool by this and by the directories that were opened. \<open>M\<close> are the descriptors of the
  other files: their directories stay as they are.
\<close>

definition handles_change :: "ifile \<Rightarrow> ifile list \<Rightarrow> (sys_call \<times> INTN) list \<Rightarrow> bool" where
  "handles_change f gs cs \<longleftrightarrow>
     (\<forall>M D. dir_open D f \<longrightarrow>
        (\<exists>D'. fds cs (add_mset (FD f) M, D) = Some (mset (map FD gs) + M, D')
           \<and> dirs_on M D \<subseteq> D' \<and> (\<forall>g \<in> set gs. dir_open D' g)))"

definition call_effect :: "ifile \<Rightarrow> ifile list \<Rightarrow> 's world \<Rightarrow> 's world \<Rightarrow> bool" where
  "call_effect f gs w w' \<longleftrightarrow>
     (\<exists>cs. log w' = log w @ cs \<and> live w' = live w + int (length gs) - 1 + dirs_opened cs
        \<and> (\<forall>g \<in> set gs. Volume g = Volume f) \<and> list_all (in_volume (Volume f)) cs \<and> handles_change f gs cs)"

lemma handles_changeI:
  assumes "\<And>M D. dir_open D f \<Longrightarrow> \<exists>D'. fds cs (add_mset (FD f) M, D) = Some (mset (map FD gs) + M, D')
    \<and> dirs_on M D \<subseteq> D' \<and> (\<forall>g \<in> set gs. dir_open D' g)"
  shows "handles_change f gs cs"
  using assms by (simp add: handles_change_def)

lemma call_effectI:
  assumes "log w' = log w @ cs" "live w' = live w + int (length gs) - 1 + dirs_opened cs"
    "\<forall>g \<in> set gs. Volume g = Volume f" "list_all (in_volume (Volume f)) cs" "handles_change f gs cs"
  shows "call_effect f gs w w'"
  using assms by (auto simp: call_effect_def)

lemma open_effect:
  assumes "LKLOpen K cv f name mode attrs w = (S, g, w')"
  shows "call_effect f (f # files_of g) w w'"
proof -
  from LKLOpen_result [of K f mode attrs w cv name] obtain mk cs p fl m where
    log: "log w' = log w @ mk @ cs" "open_trace p fl m cs g" "mk = [] \<or> (\<exists>m r. mk = [(Sys_mkdir p m, r)])"
      "cs \<noteq> [] \<longrightarrow> StartsWith p (LKLMountPoint (Volume f))"
    and g: "\<forall>h. g = Some h \<longrightarrow> Volume h = Volume f" "live w' = live w + (if g = None then 0 else 1)"
    unfolding assms open_result_def split by blast
  have mk: "fds mk H = Some H" "dirs_opened mk = 0" for H
    using log(3) by auto
  have cs: "dirs_opened cs = 0"
    using log(2) by (auto simp: open_trace_def split: option.splits)
  show ?thesis
  proof (rule call_effectI [OF log(1)])
    show "handles_change f (f # files_of g) (mk @ cs)"
    proof (rule handles_changeI)
      fix M D assume f: "dir_open D f"
      show "\<exists>D'. fds (mk @ cs) (add_mset (FD f) M, D) = Some (mset (map FD (f # files_of g)) + M, D')
        \<and> dirs_on M D \<subseteq> D' \<and> (\<forall>h \<in> set (f # files_of g). dir_open D' h)"
        using log(2) f by (cases g) (auto simp: fds_append mk open_trace_def handle_defs)
    qed
    show "live w' = live w + int (length (f # files_of g)) - 1 + dirs_opened (mk @ cs)"
      using g(2) mk cs by (simp split: option.split)
    show "\<forall>h\<in>set (f # files_of g). Volume h = Volume f"
      using g(1) by (cases g) simp_all
    show "list_all (in_volume (Volume f)) (mk @ cs)"
      using log(2-4) by (cases g) (auto simp: open_trace_def)
  qed
qed

text \<open>A close of the file, after which only calls on paths follow.\<close>

lemma handles_change_close:
  "list_all (\<lambda>c. \<forall>H. fds_step H c = Some H) cs \<Longrightarrow> handles_change f [] ((Sys_close (FD f), r) # cs)"
proof (rule handles_changeI)
  fix M :: "INTN multiset" and D
  have "fds cs H = Some H" if "list_all (\<lambda>c. \<forall>H. fds_step H c = Some H) cs" for H
    using that by (induction cs; cases H) simp_all
  moreover assume "list_all (\<lambda>c. \<forall>H. fds_step H c = Some H) cs"
  ultimately show "\<exists>D'. fds ((Sys_close (FD f), r) # cs) (add_mset (FD f) M, D) = Some (mset (map FD []) + M, D')
      \<and> dirs_on M D \<subseteq> D' \<and> (\<forall>g\<in>set []. dir_open D' g)"
    by (simp add: if_open_def)
qed

lemma delete_effect:
  assumes "LKLDelete K f w = (S, w')"
  shows "call_effect f [] w w'"
proof -
  obtain ok w1 where a: "AllocatePool w = (ok, w1)" by fastforce
  obtain c w2 where c: "sys K (Sys_close (FD f)) w1 = (c, w2)" by fastforce
  define path where "path = LKLMountPoint (Volume f) @ [slash] @ FilePath f"
  obtain u w3 where u: "sys K (Sys_unlink path) (FreePool w2) = (u, w3)" by fastforce
  note facts = AllocatePool_pair [OF a] sys_pair [OF c] sys_pair [OF u]
  have w': "w' = (if ok then FreePool w3 else FreePool w2)"
    using assms a c u by (simp add: LKLDelete_def LKLIFileClose_def path_def split: if_splits)
  show ?thesis
  proof (rule call_effectI)
    show "log w' = log w @ (Sys_close (FD f), c) # (if ok then [(Sys_unlink path, u)] else [])"
      using facts by (simp add: w')
    show "handles_change f [] ((Sys_close (FD f), c) # (if ok then [(Sys_unlink path, u)] else []))"
      by (rule handles_change_close) simp
  qed (use facts in \<open>auto simp: w' path_def StartsWith_iff\<close>)
qed

text \<open>Calls that keep the file: the log grows by calls on its descriptor or directory that leave both open.\<close>

lemma kept_effectI:
  assumes "log w' = log w @ cs" "live w' = live w + dirs_opened cs" "Volume g = Volume f" "FD g = FD f"
    and "list_all (in_volume (Volume f)) cs"
    and "\<And>M D. dir_open D f \<Longrightarrow> \<exists>D'. fds cs (add_mset (FD f) M, D) = Some (add_mset (FD f) M, D')
      \<and> dirs_on M D \<subseteq> D' \<and> dir_open D' g"
  shows "call_effect f [g] w w'"
  using assms by (intro call_effectI [of w' w cs] handles_changeI) simp_all

lemma kept_refl:
  "Volume g = Volume f \<Longrightarrow> FD g = FD f \<Longrightarrow> Dir g = Dir f \<Longrightarrow> log w' = log w \<Longrightarrow> live w' = live w \<Longrightarrow> call_effect f [g] w w'"
  by (rule kept_effectI [of w' w "[]"]) (auto simp: dir_open_def dirs_on_def)

lemma kept_one:
  assumes "log w' = log w @ [c]" "live w' = live w" "Volume g = Volume f" "FD g = FD f" "Dir g = Dir f"
    and "\<not> opens_dir (fst c)" "in_volume (Volume f) c"
    and "\<And>M D. dir_open D f \<Longrightarrow> fds_step (add_mset (FD f) M, D) c = Some (add_mset (FD f) M, D)"
  shows "call_effect f [g] w w'"
  by (rule kept_effectI [of w' w "[c]"]) (use assms in \<open>auto simp: dir_open_def dirs_on_def\<close>)

lemma get_position_effect:
  "LKLGetPosition K f w = (S, p, w') \<Longrightarrow> call_effect f [f] w w'"
  by (auto simp: LKLGetPosition_def if_open_def split: prod.splits if_splits dest!: sys_lseek_pair intro!: kept_one)

lemma set_position_effect:
  assumes "LKLSetPosition K f p w = (S, g, w')"
  shows "call_effect f [g] w w'"
proof (cases "LKL_S_ISDIR (st_mode (StatBuf f))")
  case False
  then show ?thesis using assms
    by (auto simp: LKLSetPosition_def if_open_def split: prod.splits if_splits dest!: sys_lseek_pair intro!: kept_one)
next
  case True
  show ?thesis
  proof (cases "p = 0 \<and> Dir f \<noteq> None")
    case rewound: True
    then obtain d where d: "Dir f = Some d" by auto
    show ?thesis
      by (rule kept_one [of w' w "(Sys_rewinddir d, 0)"])
        (use assms True rewound d in \<open>auto simp: LKLSetPosition_def if_dir_def dir_open_def\<close>)
  next
    case False
    with True assms show ?thesis
      by (auto simp: LKLSetPosition_def split: if_splits option.splits intro!: kept_refl)
  qed
qed

lemma flush_effect: "LKLFlush K f w = (S, w') \<Longrightarrow> call_effect f [f] w w'"
  by (auto simp: LKLFlush_def if_open_def split: prod.splits dest!: sys_pair intro!: kept_one)

lemma fill_info_pair: "LKLFillFileInfo K fd i w = (S, i', w') \<Longrightarrow>
    (\<exists>r. log w' = log w @ [(Sys_fstat fd, r)]) \<and> live w' = live w"
  by (auto simp: LKLFillFileInfo_def Let_def split: prod.splits if_splits dest!: sys_fstat_pair)

lemma get_info_effect:
  assumes "LKLGetInfo K cu f ty n w = Some (S, m, i, w')"
  shows "call_effect f [f] w w'"
proof (cases "log w' = log w")
  case True
  then show ?thesis using assms
    by (auto simp: LKLGetInfo_def LKLGetFileInfo_def Let_def split: guid.splits prod.splits if_splits
        dest!: fill_info_pair intro!: kept_refl)
next
  case False
  then obtain r where "log w' = log w @ [(Sys_fstat (FD f), r)]" "live w' = live w"
    using assms
    by (auto simp: LKLGetInfo_def LKLGetFileInfo_def Let_def split: guid.splits prod.splits if_splits
        dest!: fill_info_pair)
  then show ?thesis by (intro kept_one) (auto simp: if_open_def)
qed

text \<open>
  Reading a directory: it is opened unless it is, an entry is read unless one is kept, and the entry is
  opened, asked for and closed when the buffer is large enough.
\<close>

definition dir_prefix :: "ifile \<Rightarrow> nat \<Rightarrow> (sys_call \<times> INTN) list \<Rightarrow> bool" where
  "dir_prefix f d cs \<longleftrightarrow>
    (\<exists>o_cs r_cs. cs = o_cs @ r_cs \<and> (if Dir f = None then \<exists>r. o_cs = [(Sys_fdopendir (FD f) (Some d), r)] else o_cs = [] \<and> Dir f = Some d) \<and>
       (r_cs = [] \<or> (\<exists>r. r_cs = [(Sys_readdir d, r)]) \<or> (\<exists>r e. r_cs = [(Sys_readdir d, r), (Sys_errdir d, e)])))"

lemma dir_prefixI:
  assumes "if Dir f = None then \<exists>r. os = [(Sys_fdopendir (FD f) (Some d), r)] else os = [] \<and> Dir f = Some d"
    and "rs = [] \<or> (\<exists>r. rs = [(Sys_readdir d, r)]) \<or> (\<exists>r e. rs = [(Sys_readdir d, r), (Sys_errdir d, e)])"
  shows "dir_prefix f d (os @ rs)"
  unfolding dir_prefix_def using assms by blast

lemma dir_prefix_handles:
  assumes "dir_prefix f d cs" "dir_open D f"
  shows "fds cs (add_mset (FD f) M, D) = Some (add_mset (FD f) M, insert (d, FD f) D)"
    and "list_all (in_volume V) cs" and "dirs_opened cs = (if Dir f = None then 1 else 0)"
  using assms
  by (auto simp: dir_prefix_def handle_defs fds_append insert_absorb split: if_splits)

lemma dir_prefix_effect:
  assumes "dir_prefix f d cs" "log w' = log w @ cs" "live w' = live w + (if Dir f = None then 1 else 0)"
    and "Volume g = Volume f" "FD g = FD f" "Dir g = Some d"
  shows "call_effect f [g] w w'"
proof (rule kept_effectI [OF assms(2)])
  have D: "dir_open {(d, FD f)} f"
    using assms(1) by (auto simp: dir_prefix_def dir_open_def split: if_splits)
  show "live w' = live w + dirs_opened cs" "list_all (in_volume (Volume f)) cs"
    using dir_prefix_handles(2,3) [OF assms(1) D] assms(3) by simp_all
  show "\<exists>D'. fds cs (add_mset (FD f) M, D) = Some (add_mset (FD f) M, D')
      \<and> dirs_on M D \<subseteq> D' \<and> dir_open D' g" if "dir_open D f" for M D
    using dir_prefix_handles(1) [OF assms(1) that] assms(4-6) by (auto simp: dir_open_def dirs_on_def)
qed (use assms in simp_all)

text \<open>The directory of the entry is closed again: its descriptor may be any number.\<close>

lemma entry_effect:
  assumes "dir_prefix f d cs" "log w' = log w @ cs @ (Sys_openat (FD f) name fl m, fd) # es"
    and "es = [] \<and> neg fd \<or> (\<exists>r c. es = [(Sys_fstat fd, r), (Sys_close fd, c)]) \<and> \<not> neg fd"
    and "live w' = live w + (if Dir f = None then 1 else 0)" "Volume g = Volume f" "FD g = FD f" "Dir g = Some d"
  shows "call_effect f [g] w w'"
proof (rule kept_effectI [OF assms(2)])
  let ?es = "(Sys_openat (FD f) name fl m, fd) # es"
  have D: "dir_open {(d, FD f)} f"
    using assms(1) by (auto simp: dir_prefix_def dir_open_def split: if_splits)
  have es: "dirs_opened ?es = 0" "list_all (in_volume (Volume f)) ?es"
    using assms(3) by auto
  show "live w' = live w + dirs_opened (cs @ ?es)" "list_all (in_volume (Volume f)) (cs @ ?es)"
    using dir_prefix_handles(2,3) [OF assms(1) D] assms(4) es by simp_all
  show "\<exists>D'. fds (cs @ ?es) (add_mset (FD f) M, D) = Some (add_mset (FD f) M, D')
      \<and> dirs_on M D \<subseteq> D' \<and> dir_open D' g" if "dir_open D f" for M D
    using assms(3) unfolding fds_append dir_prefix_handles(1) [OF assms(1) that] Option.bind.bind_lunit
    by (elim disjE conjE exE) (use assms(5-7) in \<open>auto simp: handle_defs\<close>)
qed (use assms in simp_all)

lemma read_dir_effect:
  assumes "LKLIFileReadDir K cv f n w = (S, m, b, g, w')"
  shows "call_effect f [g] w w'"
proof -
  obtain d RC w1 where open1: "(case Dir f of
            Some d \<Rightarrow> (Some d, 0, w)
          | None \<Rightarrow> fdopendir K (FD f) w) = (d, RC, w1)"
    by (metis prod_cases3)
  show ?thesis
  proof (cases d)
    case None
    then have "Dir f = None" "g = f" "w' = w1" "log w1 = log w @ [(Sys_fdopendir (FD f) None, RC)]" "live w1 = live w"
      using assms open1 by (auto simp: LKLIFileReadDir_def split: option.splits dest!: fdopendir_pair)
    then show ?thesis by (intro kept_one) (auto simp: if_open_def)
  next
    case (Some dd)
    define os where "os = (if Dir f = None then [(Sys_fdopendir (FD f) (Some dd), RC)] else [])"
    have w1: "log w1 = log w @ os" "live w1 = live w + (if Dir f = None then 1 else 0)" "Dir f \<noteq> None \<longrightarrow> Dir f = Some dd"
      using open1 Some by (auto simp: os_def split: option.splits dest!: fdopendir_pair)
    obtain ent w2 where e: "(case DirEnt f of
              None \<Rightarrow> readdir K dd w1
            | Some e \<Rightarrow> (Some e, w1)) = (ent, w2)" by fastforce
    define rs where "rs = (if DirEnt f = None then [(Sys_readdir dd, if ent = None then 0 else 1 :: INTN)] else [])"
    have rs: "rs = [] \<or> (\<exists>r. rs = [(Sys_readdir dd, r)])" "log w2 = log w1 @ rs" "live w2 = live w1" "ent = None \<longrightarrow> rs \<noteq> []"
      using e by (cases "DirEnt f"; auto simp: rs_def dest!: readdir_pair)+
    have os: "if Dir f = None then \<exists>r. os = [(Sys_fdopendir (FD f) (Some dd), r)] else os = [] \<and> Dir f = Some dd"
      using w1(3) by (simp add: os_def)
    have pre: "dir_prefix f dd (os @ rs)"
      using rs(1) by (intro dir_prefixI [OF os]) blast
    show ?thesis
    proof (cases ent)
      case None
      obtain err w3 where x: "errdir K dd w2 = (err, w3)" by fastforce
      have g: "FD g = FD f" "Volume g = Volume f" "Dir g = Some dd" "w' = w3"
        using assms open1 Some e None x by (auto simp: LKLIFileReadDir_def Let_def split: if_splits)
      have "dir_prefix f dd (os @ rs @ [(Sys_errdir dd, err)])"
        using rs(1,4) None by (intro dir_prefixI [OF os]) auto
      then show ?thesis
        by (rule dir_prefix_effect) (use g errdir_pair [OF x] rs w1 in simp_all)
    next
      case name: (Some name)
      show ?thesis
      proof (cases "file_info_size name > n")
        case True
        then have g: "FD g = FD f" "Volume g = Volume f" "Dir g = Some dd" "w' = w2"
          using assms open1 \<open>d = Some dd\<close> e name by (auto simp: LKLIFileReadDir_def)
        from pre show ?thesis by (rule dir_prefix_effect) (use g rs w1 in simp_all)
      next
        case False
        obtain fd w3 where o: "sys K (Sys_openat (FD f) name LKL_O_RDONLY 0x1A4) w2 = (fd, w3)" by fastforce
        obtain S4 i4 w4 where i: "LKLFillFileInfo K fd (zero_file_info\<lparr>Size := ucast (file_info_size name), FileName := cv name\<rparr>) w3
            = (S4, i4, w4)" by (metis prod_cases3)
        have g: "FD g = FD f" "Volume g = Volume f" "Dir g = Some dd"
          and w': "w' = (if neg fd then w3 else snd (sys K (Sys_close fd) w4))"
          using assms open1 \<open>d = Some dd\<close> e name False o i by (auto simp: LKLIFileReadDir_def Let_def split: if_splits)
        obtain r where "log w4 = log w3 @ [(Sys_fstat fd, r)]" "live w4 = live w3"
          using fill_info_pair [OF i] by blast
        then have "log w' = log w @ (os @ rs) @ (Sys_openat (FD f) name LKL_O_RDONLY 0x1A4, fd) #
            (if neg fd then [] else [(Sys_fstat fd, r), (Sys_close fd, fst (sys K (Sys_close fd) w4))])" "live w' = live w1"
          using w' sys_pair [OF o] rs w1 by auto
        from pre this(1) show ?thesis
          by (rule entry_effect) (use g w1 \<open>live w' = live w1\<close> in auto)
      qed
    qed
  qed
qed

lemma access_effect:
  assumes "LKLIFileAccess K cv f mode n bs w = (S, m, b, g, w')"
  shows "call_effect f [g] w w'"
proof (cases "LKL_S_ISDIR (st_mode (StatBuf f)) \<or> mode = WRITE_DATA \<and> ReadOnly (Volume f)")
  case True
  then show ?thesis
    using assms read_dir_effect [of K cv f n w]
    by (auto simp: LKLIFileAccess_def split: if_splits intro: kept_refl)
next
  case False
  then show ?thesis
    using assms
    by (auto simp: LKLIFileAccess_def if_open_def split: prod.splits if_splits
        dest!: sys_read_pair sys_pair intro!: kept_one)
qed

text \<open>Setting information: at most a \<open>utime\<close>, a \<open>chmod\<close> and an \<open>ftruncate\<close> on the descriptor.\<close>

lemma call_effect_trans:
  assumes "call_effect f [f] w w1" and "call_effect f gs w1 w2"
  shows "call_effect f gs w w2"
proof -
  from assms(1) obtain cs where cs: "log w1 = log w @ cs" "live w1 = live w + dirs_opened cs"
    "list_all (in_volume (Volume f)) cs" "handles_change f [f] cs"
    by (auto simp: call_effect_def)
  from assms(2) obtain ds where ds: "log w2 = log w1 @ ds" "live w2 = live w1 + int (length gs) - 1 + dirs_opened ds"
    "\<forall>g\<in>set gs. Volume g = Volume f" "list_all (in_volume (Volume f)) ds" "handles_change f gs ds"
    by (auto simp: call_effect_def)
  have "handles_change f gs (cs @ ds)"
  proof (rule handles_changeI)
    fix M D assume f: "dir_open D f"
    let ?M = "mset (map FD gs) + M"
    from cs(4) f obtain D1 where D1: "fds cs (add_mset (FD f) M, D) = Some (add_mset (FD f) M, D1)"
      "dirs_on M D \<subseteq> D1" "dir_open D1 f"
      unfolding handles_change_def by fastforce
    from ds(5) D1(3) obtain D2 where D2: "fds ds (add_mset (FD f) M, D1) = Some (?M, D2)"
      "dirs_on M D1 \<subseteq> D2" "\<forall>g\<in>set gs. dir_open D2 g"
      unfolding handles_change_def by fastforce
    have "dirs_on M D \<subseteq> D2" using D1(2) D2(2) by (auto simp: dirs_on_def)
    then show "\<exists>D'. fds (cs @ ds) (add_mset (FD f) M, D) = Some (?M, D') \<and> dirs_on M D \<subseteq> D' \<and> (\<forall>g\<in>set gs. dir_open D' g)"
      using D1(1) D2(1,3) by (simp add: fds_append)
  qed
  then show ?thesis
    by (intro call_effectI [of w2 w "cs @ ds"]) (simp_all add: cs ds)
qed

lemma sys_effect:
  assumes "sys K c w = (r, w')" and "\<And>r. in_volume (Volume f) (c, r)" and "\<not> opens_dir c"
    and "\<And>M D r. fds_step (add_mset (FD f) M, D) (c, r) = Some (add_mset (FD f) M, D)"
  shows "call_effect f [f] w w'"
  using sys_pair [OF assms(1)] assms(2-4) by (intro kept_one) auto

lemma set_size_effect: "set_size K f st i d r w = (S, w') \<Longrightarrow> call_effect f [f] w w'"
  by (auto simp: set_size_def if_open_def split: if_splits prod.splits intro: kept_refl sys_effect)

lemma set_attributes_effect: "set_attributes K f st i w = (S, w') \<Longrightarrow> call_effect f [f] w w'"
  unfolding set_attributes_def Let_def
  by (auto split: if_splits prod.splits intro: kept_refl sys_effect set_size_effect
      call_effect_trans [OF sys_effect set_size_effect])

lemma utime_effect:
  assumes "AllocatePool w = (True, w1)" and "sys K (Sys_utime (LKLMountPoint (Volume f) @ q) a m) w1 = (r, w2)"
  shows "call_effect f [f] w (FreePool w2)"
  using AllocatePool_pair [OF assms(1)] sys_pair [OF assms(2)] by (intro kept_one) (auto simp: StartsWith_iff)

lemma fstat_effect: "sys_fstat K (FD f) w = (r, st, w') \<Longrightarrow> call_effect f [f] w w'"
  by (auto simp: if_open_def dest!: sys_fstat_pair intro!: kept_one)

lemma set_file_info_effect:
  assumes "LKLSetFileInfo K (Volume f) f n i w = Some (S, w')"
  shows "call_effect f [f] w w'"
proof (cases "FilePath f = [] \<or> n < SIZE_OF_EFI_FILE_INFO + 2 \<or> Size i > ucast n")
  case True
  then show ?thesis using assms by (auto simp: LKLSetFileInfo_def intro: kept_refl split: if_splits)
next
  case False
  obtain r st w1 where st: "sys_fstat K (FD f) w = (r, st, w1)" by (metis prod_cases3)
  have "call_effect f [f] w1 w'"
    using assms False st unfolding LKLSetFileInfo_def Let_def
    by (auto split: if_splits prod.splits option.splits sum.splits intro: kept_refl set_attributes_effect
        utime_effect call_effect_trans [OF utime_effect set_attributes_effect])
  then show ?thesis by (rule call_effect_trans [OF fstat_effect [OF st]])
qed

lemma set_info_effect: "LKLSetInfo K f ty n i w = Some (S, w') \<Longrightarrow> call_effect f [f] w w'"
  by (auto simp: LKLSetInfo_def split: if_splits intro: kept_refl set_file_info_effect)

lemma close_effect:
  assumes "LKLClose K f w = (S, w')"
  shows "call_effect f [] w w'"
  using assms handles_change_close [of "[]" f]
  by (intro call_effectI [of w' w "[(Sys_close (FD f), fst (sys K (Sys_close (FD f)) w))]"])
    (auto simp: LKLClose_def LKLIFileClose_def split: prod.splits)

text \<open>Every entry of the table.\<close>

lemma interface_effect:
  assumes "LKLFileInterface K ca cu c f w = Some (S, self, new, w')"
  shows "call_effect f (files_of self @ files_of new) w w'"
  using assms
  by (cases c) (auto simp: LKLRead_def LKLWrite_def split: prod.splits
      intro: kept_refl close_effect delete_effect access_effect get_position_effect set_position_effect
        set_info_effect get_info_effect flush_effect dest: open_effect)

section \<open>The invariant of a session\<close>

text \<open>
  The descriptors that are open are those of the open files, and a file's directory was opened on its own
  descriptor; in particular the log never used a descriptor or a directory that was not open. The pool has
  one buffer more for every open file and for every directory that was ever opened.
\<close>

definition session_start :: "'s world \<Rightarrow> 's session \<Rightarrow> bool" where
  "session_start w0 s \<longleftrightarrow> s = \<lparr>s_files = [], s_world = w0\<rparr>"

definition session_inv :: "volume \<Rightarrow> 's world \<Rightarrow> 's session \<Rightarrow> bool" where
  "session_inv V w0 s \<longleftrightarrow>
     (\<exists>cs D. log (s_world s) = log w0 @ cs \<and> fds cs ({#}, {}) = Some (mset (map FD (s_files s)), D)
        \<and> (\<forall>f \<in> set (s_files s). Volume f = V \<and> dir_open D f)
        \<and> live (s_world s) = live w0 + int (length (s_files s)) + dirs_opened cs \<and> list_all (in_volume V) cs)"

lemma session_inv_open:
  assumes inv: "session_inv V w0 s" and o: "LKLOpenVolume K V (s_world s) = Some (S, f, w)"
  shows "session_inv V w0 \<lparr>s_files = s_files s @ files_of f, s_world = w\<rparr>"
proof -
  obtain fd w1 where fd: "sys K (Sys_open (LKLMountPoint V) LKL_O_RDONLY 0x1A4) (s_world s) = (fd, w1)"
    by fastforce
  note p = sys_pair [OF fd]
  show ?thesis
  proof (cases "neg fd")
    case True
    then have "f = None" "w = w1"
      using o fd by (simp_all add: LKLOpenVolume_def)
    with inv p True show ?thesis
      unfolding session_inv_def by (force simp: fds_append opened_def StartsWith_iff)
  next
    case False
    obtain S' g w2 where g: "LKLAllocateIFile K V fd w1 = (S', g, w2)" by (metis prod_cases3)
    from o fd False g obtain h where h: "g = Some h" "f = Some (h\<lparr>LinuxOpenFlags := LKL_O_RDONLY\<rparr>)"
      by (auto simp: LKLOpenVolume_def split: option.splits)
    with LKLAllocateIFile_cases [OF g] have w2: "S' = EFI_SUCCESS" "Volume h = V" "FD h = fd" "Dir h = None"
      "log w2 = log w1 @ [(Sys_fstat fd, 0)]" "live w2 = live w1 + 1"
      by auto
    then have "w = w2"
      using o fd False g h by (simp add: LKLOpenVolume_def)
    with inv p False h w2 show ?thesis
      unfolding session_inv_def by (force simp: fds_append opened_def if_open_def StartsWith_iff)
  qed
qed

lemma session_inv_call:
  assumes inv: "session_inv V w0 s" and i: "i < length (s_files s)"
    and c: "LKLFileInterface K ca cu c (s_files s ! i) (s_world s) = Some (S, self, new, w)"
  shows "session_inv V w0
    \<lparr>s_files = take i (s_files s) @ files_of self @ drop (Suc i) (s_files s) @ files_of new, s_world = w\<rparr>"
proof -
  let ?f = "s_files s ! i" and ?rest = "take i (s_files s) @ drop (Suc i) (s_files s)"
    and ?gs = "files_of self @ files_of new"
    and ?files = "take i (s_files s) @ files_of self @ drop (Suc i) (s_files s) @ files_of new"
  from interface_effect [OF c] obtain cs where cs: "log w = log (s_world s) @ cs"
    "live w = live (s_world s) + int (length ?gs) - 1 + dirs_opened cs"
    "\<forall>g\<in>set ?gs. Volume g = Volume ?f" "list_all (in_volume (Volume ?f)) cs" "handles_change ?f ?gs cs"
    unfolding call_effect_def by blast
  from inv obtain ds D where ds: "log (s_world s) = log w0 @ ds" "fds ds ({#}, {}) = Some (mset (map FD (s_files s)), D)"
    "list_all (in_volume V) ds" and live: "live (s_world s) = live w0 + int (length (s_files s)) + dirs_opened ds"
    and files: "\<forall>f\<in>set (s_files s). Volume f = V \<and> dir_open D f"
    by (auto simp: session_inv_def)
  have split: "s_files s = take i (s_files s) @ ?f # drop (Suc i) (s_files s)"
    using i by (rule id_take_nth_drop)
  have f: "Volume ?f = V" "dir_open D ?f" using files i by simp_all
  have "mset (map FD (s_files s)) = add_mset (FD ?f) (mset (map FD ?rest))"
    by (subst split) simp
  moreover from cs(5) f(2) obtain D' where D': "fds cs (add_mset (FD ?f) (mset (map FD ?rest)), D) =
      Some (mset (map FD ?gs) + mset (map FD ?rest), D')"
    "dirs_on (mset (map FD ?rest)) D \<subseteq> D'" "\<forall>g\<in>set ?gs. dir_open D' g"
    unfolding handles_change_def by blast
  ultimately have fds: "fds (ds @ cs) ({#}, {}) = Some (mset (map FD ?files), D')"
    using ds(2) by (simp add: fds_append ac_simps)
  have rest: "Volume g = V \<and> dir_open D' g" if g: "g \<in> set ?rest" for g
  proof -
    have "g \<in> set (s_files s)" using g by (auto dest: in_set_takeD in_set_dropD)
    moreover have "FD g \<in># mset (map FD ?rest)" using g by (simp only: set_mset_mset set_map) (rule imageI)
    ultimately have "Volume g = V" "Dir g = Some d \<Longrightarrow> (d, FD g) \<in> dirs_on (mset (map FD ?rest)) D" for d
      using files by (simp_all only: dir_open_def dirs_on_def mem_Collect_eq snd_conv simp_thms)
    with subsetD [OF D'(2)] show ?thesis by (simp only: dir_open_def simp_thms) blast
  qed
  have all: "\<forall>g\<in>set ?files. Volume g = V \<and> dir_open D' g"
  proof
    fix g assume "g \<in> set ?files"
    then have "g \<in> set ?rest \<or> g \<in> set ?gs" by (simp only: set_append) blast
    then show "Volume g = V \<and> dir_open D' g" using rest cs(3) D'(3) f(1) by metis
  qed
  have len: "length ?files + 1 = length (s_files s) + length ?gs"
    using i by simp
  have log: "log w = log w0 @ (ds @ cs)" "list_all (in_volume V) (ds @ cs)"
    using cs(1,4) ds(1,3) f(1) by simp_all
  have live': "live w = live w0 + int (length ?files) + dirs_opened (ds @ cs)"
    using cs(2) live len by simp
  show ?thesis
    unfolding session_inv_def session.select_convs using log fds live' all by blast
qed

interpretation session_machine: invariant_machine "session_start w0" "session_step K ca cu V" "session_inv V w0"
  for K :: "'s lkl" and ca cu V and w0 :: "'s world"
proof
  show "session_inv V w0 s" if "session_start w0 s" for s
    using that by (simp add: session_start_def session_inv_def)
  show "session_inv V w0 s'" if "session_inv V w0 s" "session_step K ca cu V s c S s'" for s c S s'
    using that(2,1) by (auto elim!: session_stepE intro: session_inv_open session_inv_call)
qed

end
