(* ===== verification/Driver_Properties.thy ===== *)
theory Driver_Properties imports Efi_Time Path_Resolution File_Session begin

text \<open>
  What the file system driver guarantees, on top of the component theories: error translation and
  dates, path resolution and the file protocol. The witnesses run on a small concrete kernel.
\<close>

section \<open>Errors and dates\<close>

text \<open>LKLError2EfiError reports success for the code 0 and for no other value, and does not depend on the
  sign of the code.\<close>

lemma linux_errors_stay_errors:
  "(EFI_ERROR (LKLError2EfiError e) \<longleftrightarrow> e \<noteq> 0) \<and> LKLError2EfiError (- e) = LKLError2EfiError e"
  using LKLError2EfiError_error [of e] LKLError2EfiError_minus [of e] by (cases "e = 0") simp_all

text \<open>C18: For every 32-bit Unix time and whatever the structure held before, EpochToEfiTime writes a time
  that denotes exactly that many seconds of the calendar, and EfiTimeToEpoch maps it back. The
  result passes EfiTimeIsValid exactly when the time zone and daylight fields, which
  EpochToEfiTime leaves alone, are valid, as they are in the zeroed structures its callers pass.\<close>

theorem efi_time_round_trip:
  "EfiTimeToEpoch (EpochToEfiTime s t) = Some s \<and> civil_seconds (EpochToEfiTime s t) = unat s
    \<and> (EfiTimeIsValid (EpochToEfiTime s t) \<longleftrightarrow> zone_valid t) \<and> EfiTimeIsValid (EpochToEfiTime s zero_time)"
proof -
  have "civil_seconds (EpochToEfiTime s t) = unat s" by (rule EpochToEfiTime_civil)
  moreover have "zone_valid zero_time" by (simp add: zone_valid_def zero_time_def)
  ultimately show ?thesis
    using EfiTimeToEpoch_civil [OF EpochToEfiTime_civil(1-3) EpochToEfiTime_civil(5), of s t]
    by (simp add: EpochToEfiTime_valid)
qed

definition demo_time :: "u16 \<Rightarrow> u8 \<Rightarrow> u8 \<Rightarrow> EFI_TIME" where
  "demo_time y m d =
    \<lparr>Year = y, Month = m, Day = d, Hour = 12, Minute = 30, Second = 59, Nanosecond = 0,
     TimeZone = EFI_UNSPECIFIED_TIMEZONE, Daylight = 0\<rparr>"

lemmas demo_time_defs = demo_time_def EfiTimeIsValid_def DayValid_def DayOfMonth_def
  IsLeapYear_def EFI_UNSPECIFIED_TIMEZONE_def EFI_TIME_ADJUST_DAYLIGHT_def EFI_TIME_IN_DAYLIGHT_def

text \<open>C19: On every time EfiTimeIsValid accepts, the Julian-day formula of EfiTimeToEpoch agrees with
  counting days month by month (modulo 2^32 seconds), and the ASSERT fails exactly for the years
  before 1970.\<close>

theorem efi_time_to_epoch_calendar:
  assumes "EfiTimeIsValid t"
  shows "EfiTimeToEpoch t =
    (if Year t < 1970 then None else Some (word_of_nat (civil_seconds t)))"
proof (cases "Year t < 1970")
  case True
  then have "unat (Year t) < 1970" by (simp add: word_less_nat_alt)
  with EfiTimeIsValid_date [OF assms]
  have "unat (JulianDate t) < 2440588" by (simp add: JulianDate_jd jd_before_1970)
  with True show ?thesis
    by (simp add: EfiTimeToEpoch_def EPOCH_JULIAN_DATE_def word_le_nat_alt)
next
  case False
  then have "1970 \<le> unat (Year t)" by (simp add: word_less_nat_alt)
  with False EfiTimeIsValid_date [OF assms] show ?thesis by (simp add: EfiTimeToEpoch_civil)
qed

lemma efi_time_to_epoch_calendar_witness:
  "EfiTimeToEpoch (demo_time 1969 12 31) = None
   \<and> EfiTimeToEpoch (demo_time 2000 3 1) = Some (word_of_nat (civil_seconds (demo_time 2000 3 1)))"
  using efi_time_to_epoch_calendar [of "demo_time 1969 12 31"]
    efi_time_to_epoch_calendar [of "demo_time 2000 3 1"] by (simp add: demo_time_defs)

section \<open>A small kernel for the witnesses\<close>

text \<open>The file tree is a list of nodes with mode and link target; a descriptor is 3 plus the index.\<close>

type_synonym demo = "(string \<times> u32 \<times> string) list"

fun demo_index :: "string \<Rightarrow> demo \<Rightarrow> nat option" where
  "demo_index p [] = None"
| "demo_index p ((q, m, t) # ns) = (if p = q then Some 0 else map_option Suc (demo_index p ns))"

definition demo_stat :: "demo \<Rightarrow> nat option \<Rightarrow> INTN \<times> lkl_stat" where
  "demo_stat s i = (case i of None \<Rightarrow> (- ENOENT, zero_stat)
     | Some i \<Rightarrow> (0, zero_stat\<lparr>st_mode := fst (snd (s ! i))\<rparr>))"

fun demo_call :: "sys_call \<Rightarrow> demo \<Rightarrow> INTN \<times> demo" where
  "demo_call (Sys_open p fl m) s =
    (case demo_index p s of
       Some i \<Rightarrow> (word_of_nat (i + 3), s)
     | None \<Rightarrow> if fl AND LKL_O_CREAT \<noteq> 0 then (word_of_nat (length s + 3), s @ [(p, 0x8000 OR m, [])])
               else (- ENOENT, s))"
| "demo_call (Sys_mkdir p m) s =
    (case demo_index p s of Some i \<Rightarrow> (- EEXIST, s) | None \<Rightarrow> (0, s @ [(p, LKL_S_IFDIR OR m, [])]))"
| "demo_call c s = (0, s)"

definition demo_lkl :: "demo lkl" where
  "demo_lkl =
    \<lparr>k_lstat = (\<lambda>p s. demo_stat s (demo_index p s)),
     k_fstat = (\<lambda>fd s. demo_stat s (if unat fd - 3 < length s then Some (unat fd - 3) else None)),
     k_statfs = (\<lambda>p s. (0, \<lparr>f_bsize = 512, f_blocks = 100, f_bfree = 10\<rparr>)),
     k_readlink = (\<lambda>p n s. case demo_index p s of None \<Rightarrow> (- ENOENT, [])
        | Some i \<Rightarrow> (word_of_nat (length (snd (snd (s ! i)))), snd (snd (s ! i)))),
     k_call = demo_call,
     k_lseek = (\<lambda>fd off wh s. (off, s)),
     k_read = (\<lambda>fd n s. (0, [], s)),
     k_fdopendir = (\<lambda>fd s. (Some 0, 0, s)),
     k_readdir = (\<lambda>d s. (Some ''file'', s)),
     k_rewinddir = (\<lambda>d s. s),
     k_errdir = (\<lambda>d s. 0),
     k_ioctl = (\<lambda>fd r s. (0, 0, s)),
     k_virtio_blkdev = (\<lambda>d s. (0, 0x10)),
     k_mount_dev = (\<lambda>d ty s. (0, ''/mnt/a'', s))\<rparr>"

definition demo_tree :: demo where
  "demo_tree = [(''/mnt'', LKL_S_IFDIR, []), (''/mnt/a'', LKL_S_IFDIR, []), (''/mnt/ab'', LKL_S_IFDIR, []),
     (''/mnt/ab/x'', 0x8180, []), (''/mnt/a/d'', LKL_S_IFDIR, []), (''/mnt/a/l'', LKL_S_IFLNK, ''d'')]"

definition demo_world :: "demo \<Rightarrow> demo world" where
  "demo_world s = \<lparr>linux = s, allocs = [], live = 0, log = []\<rparr>"

definition wide :: "string \<Rightarrow> u16 list" where "wide s = map (\<lambda>c. word_of_nat (of_char c)) s"

definition narrow :: "u16 list \<Rightarrow> string" where "narrow s = map (\<lambda>c. char_of (unat c)) s"

definition demo_volume :: volume where
  "demo_volume = \<lparr>Handle = 0, Valid = True, DiskIo2 = False, MediaId = 0, ReadOnly = False, LKLDiskId = 0,
     LKLMountPoint = ''/mnt/a'', FsType = Some ''ext4'', IsEncrypted = False, LKLBlkDevice = [],
     LKLBlkDeviceDecrypted = [], LKLCryptFSName = []\<rparr>"

definition demo_root :: ifile where
  "demo_root = \<lparr>Volume = demo_volume, FD = 4, LinuxOpenFlags = 0, StatBuf = zero_stat\<lparr>st_mode := LKL_S_IFDIR\<rparr>,
     FilePath = [], Dir = None, DirEnt = None\<rparr>"

section \<open>Paths\<close>

text \<open>C20: A path that RealPath returns is canonical: an absolute path of proper components of which every
  prefix exists and is not a symbolic link, shorter than 4096 characters in a caller's buffer; no
  call with an effect is made and one buffer is allocated exactly when the caller gave none.\<close>

theorem realpath_canonical:
  assumes "RealPath K name owned w = (Some r, w')"
  shows "\<exists>cs. r = path_of cs \<and> list_all proper cs \<and> link_free K (linux w) cs
    \<and> (\<not> owned \<longrightarrow> length r < path_max) \<and> linux w' = linux w \<and> log w' = log w
    \<and> live w' = live w + (if owned then 1 else 0)"
  by (rule RealPath_Some [OF assms]) auto

lemma realpath_canonical_witness:
  "\<exists>cs. ''/mnt/a/d'' = path_of cs \<and> list_all proper cs \<and> link_free demo_lkl demo_tree cs"
proof -
  let ?r = "RealPath demo_lkl (Some ''/mnt//a/./l/../l'') True (demo_world demo_tree)"
  have "fst ?r = Some ''/mnt/a/d''" by code_simp
  then obtain w' where "?r = (Some ''/mnt/a/d'', w')" by (cases ?r) auto
  from realpath_canonical [OF this] show ?thesis by (auto simp: demo_world_def)
qed

lemma RealPath_owned:
  assumes "name \<noteq> []" "hd name = slash" "allocs w = []"
  obtains w1 where "linux w1 = linux w" "allocs w1 = []"
    "fst (RealPath K (Some name) True w) =
       map_option (\<lambda>st. if length (rpath st) > 1 \<and> last (rpath st) = slash then butlast (rpath st) else rpath st)
         (fst (realpath_loop K True \<lparr>rpath = [slash], capacity = path_max, rest = name, num_links = 0\<rparr> w1))"
proof -
  let ?w = "w\<lparr>live := live w + 1\<rparr>"
  have "AllocatePool w = (True, ?w)" using assms(3) by (simp add: AllocatePool_def)
  then show ?thesis using assms
    by (intro that [of ?w]) (auto simp: RealPath_def Let_def split: option.split prod.split)
qed

text \<open>C21: RealPath refines the reference resolver on lists of components (dot entries, going up at the
  root, links up to 40): what it returns is what the resolver gives, and on a tree without links
  the two agree also on failure.\<close>

theorem realpath_refines:
  assumes "name \<noteq> []" "hd name = slash" "allocs w = []"
  shows "(\<forall>r. fst (RealPath K (Some name) True w) = Some r \<longrightarrow>
            map_option path_of (resolve (node_at K (linux w)) 0 (components name) []) = Some r)
    \<and> ((\<forall>p t. node_at K (linux w) p \<noteq> Link t) \<longrightarrow>
            fst (RealPath K (Some name) True w) =
            map_option path_of (resolve (node_at K (linux w)) 0 (components name) []))"
proof -
  let ?st = "\<lparr>rpath = [slash], capacity = path_max, rest = name, num_links = 0\<rparr>"
  obtain w1 where w1: "linux w1 = linux w" "allocs w1 = []" and
    eq: "fst (RealPath K (Some name) True w) =
       map_option (\<lambda>st. if length (rpath st) > 1 \<and> last (rpath st) = slash then butlast (rpath st) else rpath st)
         (fst (realpath_loop K True ?st w1))" by (rule RealPath_owned [OF assms])
  have root: "resolved_rpath K (linux w1) (rpath ?st) []" by (simp add: resolved_root)
  obtain o1 w2 where l: "realpath_loop K True ?st w1 = (o1, w2)" by fastforce
  show ?thesis
  proof (cases o1)
    case None
    have "resolve (node_at K (linux w)) 0 (components name) [] = None"
      if "\<forall>p t. node_at K (linux w) p \<noteq> Link t"
      using realpath_loop_fails [OF l [unfolded None] root] that w1 by simp
    then show ?thesis using None l eq by simp
  next
    case (Some st)
    obtain ds where ds: "resolve (node_at K (linux w)) 0 (components name) [] = Some ds"
      "resolved_rpath K (linux w) (rpath st) ds"
      using realpath_loop_resolves [OF l [unfolded Some] root] w1 by auto
    from resolved_strip [OF ds(2)] ds(1) l Some show ?thesis unfolding eq by (simp split del: if_split)
  qed
qed

lemma realpath_refines_witness:
  "map_option path_of (resolve (node_at demo_lkl demo_tree) 0 (components ''/mnt//a/./l/../l'') []) =
     Some ''/mnt/a/d''"
proof -
  have "fst (RealPath demo_lkl (Some ''/mnt//a/./l/../l'') True (demo_world demo_tree)) = Some ''/mnt/a/d''"
    by code_simp
  then show ?thesis
    using realpath_refines [of "''/mnt//a/./l/../l''" "demo_world demo_tree" demo_lkl]
    by (simp add: demo_world_def slash_def)
qed

text \<open>The states that the loop of \<open>RealPath\<close> reaches, round by round.\<close>

inductive rp_reached :: "'s lkl \<Rightarrow> bool \<Rightarrow> string \<Rightarrow> 's world \<Rightarrow> rp \<Rightarrow> 's world \<Rightarrow> bool"
  for K owned name w where
  rp_start: "rp_reached K owned name w \<lparr>rpath = [slash], capacity = path_max, rest = name, num_links = 0\<rparr> w"
| rp_round: "rp_reached K owned name w st w1 \<Longrightarrow> rest st \<noteq> [] \<Longrightarrow>
     realpath_body K owned st w1 = (Continue st', w2) \<Longrightarrow> rp_reached K owned name w st' w2"

lemma follow_rest:
  assumes "follow K st w = Continue st'"
  shows "st' = st \<or> num_links st' = num_links st + 1 \<and> num_links st' \<le> 40 \<and> length (rest st') < path_max"
  using assms by (auto simp: follow_def Let_def split: prod.splits if_splits)

lemma body_rest:
  assumes "realpath_body K owned st w = (Continue st', w')"
  obtains "num_links st' = num_links st" "length (rest st') \<le> length (rest st)"
  | "num_links st' = num_links st + 1" "num_links st' \<le> 40" "length (rest st') < path_max"
proof -
  let ?tail = "dropWhile (\<lambda>c. c \<noteq> slash) (dropWhile (\<lambda>c. c = slash) (rest st))"
  have "length ?tail \<le> length (rest st)" by (meson length_dropWhile_le order_trans)
  then have "num_links st' = num_links st \<and> length (rest st') \<le> length (rest st)
    \<or> num_links st' = num_links st + 1 \<and> num_links st' \<le> 40 \<and> length (rest st') < path_max"
    using assms
    by (auto simp: realpath_body_def Let_def split: if_splits prod.splits option.splits dest!: follow_rest)
  then show thesis using that by blast
qed

text \<open>C22: In every round RealPath stays inside its buffers: the result with its final NUL fits the
  capacity (which is PATH_MAX in a caller's buffer), and once a link has been followed the unread
  name with its NUL fits the PATH_MAX bytes of the second buffer; at most 40 links are followed.\<close>

theorem realpath_in_bounds:
  assumes "rp_reached K owned name w st w'"
  shows "length (rpath st) < capacity st \<and> (\<not> owned \<longrightarrow> capacity st = path_max) \<and> num_links st \<le> 40
    \<and> (if num_links st = 0 then length (rest st) \<le> length name else length (rest st) < path_max)"
proof -
  let ?links = "\<lambda>st. num_links st \<le> 40
    \<and> (if num_links st = 0 then length (rest st) \<le> length name else length (rest st) < path_max)"
  have "rp_inv K (linux w) st \<and> linux w' = linux w \<and> (\<not> owned \<longrightarrow> capacity st = path_max) \<and> ?links st"
    using assms
  proof (induction rule: rp_reached.induct)
    case rp_start
    show ?case by (auto simp: rp_inv_def path_max_def intro: resolved_root)
  next
    case (rp_round st w1 st' w2)
    then have "?links st" by simp
    from rp_round.hyps(3) this have "?links st'" by (cases rule: body_rest) (auto split: if_splits)
    with realpath_body_inv [OF rp_round.hyps(3)] rp_round.IH body_world [OF rp_round.hyps(3)]
    show ?case by simp
  qed
  then show ?thesis by (auto simp: rp_inv_def)
qed

lemma realpath_in_bounds_witness:
  "length ''/mnt'' < path_max"
proof -
  let ?st = "\<lparr>rpath = [slash], capacity = path_max, rest = ''/mnt/a'', num_links = 0\<rparr>"
    and ?st' = "\<lparr>rpath = ''/mnt'', capacity = path_max, rest = ''/a'', num_links = 0\<rparr>"
  have "fst (realpath_body demo_lkl False ?st (demo_world demo_tree)) = Continue ?st'" by code_simp
  then obtain w' where "realpath_body demo_lkl False ?st (demo_world demo_tree) = (Continue ?st', w')"
    by (cases "realpath_body demo_lkl False ?st (demo_world demo_tree)") auto
  then have "rp_reached demo_lkl False ''/mnt/a'' (demo_world demo_tree) ?st' w'"
    using rp_round [OF rp_start] by fastforce
  from realpath_in_bounds [OF this] show ?thesis by simp
qed

section \<open>Opening files\<close>

text \<open>LKLOpen refuses a missing name, an unsupported mode, unsupported attributes on creation and
  writing on a read-only volume without making a call or touching the pool.\<close>

lemma open_rejects:
  assumes "FName = None \<or> mode \<notin> {1, 3, 0x8000000000000003}
    \<or> mode = 0x8000000000000003 \<and> attrs AND (EFI_FILE_READ_ONLY OR NOT EFI_FILE_VALID_ATTR) \<noteq> 0
    \<or> ReadOnly (Volume Parent) \<and> mode AND EFI_FILE_MODE_WRITE \<noteq> 0"
  shows "\<exists>S. S \<in> {EFI_INVALID_PARAMETER, EFI_WRITE_PROTECTED}
    \<and> LKLOpen K cv Parent FName mode attrs w = (S, None, w)"
proof -
  note defs = EFI_FILE_MODE_READ_def EFI_FILE_MODE_WRITE_def EFI_FILE_MODE_CREATE_def
  have "open_flags mode attrs = Inl EFI_INVALID_PARAMETER" if "mode \<notin> {1, 3, 0x8000000000000003}"
    using that by (simp add: open_flags_def defs)
  moreover have "open_flags mode attrs = Inl EFI_INVALID_PARAMETER"
    if "mode = 0x8000000000000003" "attrs AND (EFI_FILE_READ_ONLY OR NOT EFI_FILE_VALID_ATTR) \<noteq> 0"
    using that by (simp add: open_flags_def defs)
  moreover have "open_flags mode attrs = Inl S \<Longrightarrow> S = EFI_INVALID_PARAMETER" for S
    by (auto simp: open_flags_def defs Let_def split: if_splits)
  ultimately show ?thesis using assms
    by (cases FName; cases "open_flags mode attrs") (auto simp: LKLOpen_def Let_def split: prod.splits)
qed

text \<open>On every path through LKLOpen the pool is balanced (one buffer more exactly when a file is
  returned), the status is success exactly when a file is returned, and a descriptor that was
  opened is either the returned file's or closed as the last call.\<close>

lemma open_balanced:
  assumes "LKLOpen K cv Parent FName mode attrs w = (S, f, w')"
  shows "live w' = live w + (if f = None then 0 else 1) \<and> (if f = None then EFI_ERROR S else S = EFI_SUCCESS)
    \<and> (\<exists>mk cs p fl m. log w' = log w @ mk @ cs \<and> open_trace p fl m cs f
        \<and> (mk = [] \<or> mode AND EFI_FILE_MODE_CREATE \<noteq> 0 \<and> (\<exists>m r. mk = [(Sys_mkdir p m, r)])))"
  using LKLOpen_result [of K Parent mode attrs w cv FName] unfolding assms open_result_def split by metis

text \<open>C27: Every path that LKLOpen opens starts with the volume's mount point, and outside of create mode
  it is canonical and free of symbolic links.\<close>

theorem open_contained:
  assumes "LKLOpen K cv Parent FName mode attrs w = (S, f, w')"
    and "log w' = log w @ cs" "(Sys_open p fl m, r) \<in> set cs"
  shows "StartsWith p (LKLMountPoint (Volume Parent))
    \<and> (mode AND EFI_FILE_MODE_CREATE = 0 \<longrightarrow>
         (\<exists>ds. p = path_of ds \<and> list_all proper ds \<and> link_free K (linux w) ds))"
proof -
  from LKLOpen_result [of K Parent mode attrs w cv FName] obtain mk cs' p' fl' m' ds b where
    log: "log w' = log w @ mk @ cs'" and tr: "open_trace p' fl' m' cs' f" "list_all proper ds" "link_free K (linux w) ds"
    "p' = (if mode AND EFI_FILE_MODE_CREATE \<noteq> 0 then path_of ds @ [slash] @ b else path_of ds)"
    "mk = [] \<or> (\<exists>m r. mk = [(Sys_mkdir p' m, r)])"
    "cs' \<noteq> [] \<longrightarrow> StartsWith p' (LKLMountPoint (Volume Parent))"
    unfolding assms(1) open_result_def split by blast
  have "cs = mk @ cs'" using log assms(2) by simp
  then have in': "(Sys_open p fl m, r) \<in> set cs'" using assms(3) tr(5) by auto
  then have "p = p'" using tr(1) by (auto simp: open_trace_def split: option.splits)
  moreover have "cs' \<noteq> []" using in' by auto
  ultimately show ?thesis using tr by auto
qed

abbreviation demo_open :: "string \<Rightarrow> u64 \<Rightarrow> u64 \<Rightarrow> EFI_STATUS \<times> ifile option \<times> demo world" where
  "demo_open name mode attrs \<equiv>
    LKLOpen demo_lkl narrow demo_root (Some (wide name)) mode attrs (demo_world demo_tree)"

lemma demo_open_d: "log (snd (snd (demo_open ''/d'' 1 0))) = [(Sys_open ''/mnt/a/d'' 0 0, 7), (Sys_fstat 7, 0)]"
  "map_option FilePath (fst (snd (demo_open ''/d'' 1 0))) = Some ''d''"
  by code_simp+

lemma open_contained_witness: "StartsWith ''/mnt/a/d'' (LKLMountPoint (Volume demo_root))"
proof -
  obtain S f w' where r: "demo_open ''/d'' 1 0 = (S, f, w')" by (metis prod_cases3)
  with demo_open_d have "log w' = log (demo_world demo_tree) @ [(Sys_open ''/mnt/a/d'' 0 0, 7), (Sys_fstat 7, 0)]"
    by (simp add: demo_world_def)
  from open_contained [OF r this, of "''/mnt/a/d''" 0 0 7] show ?thesis by simp
qed

text \<open>How the containment check of \<open>LKLOpen\<close> is passed by.\<close>

lemma open_escapes:
  "(let (S, f, w) = demo_open ''/../ab/x'' 1 0
    in S = EFI_SUCCESS \<and> map fst (log w) = [Sys_open ''/mnt/ab/x'' 0 0, Sys_fstat 6])
   \<and> (let (S, f, w) = demo_open ''..'' 0x8000000000000003 0
      in map fst (log w) = [Sys_open ''/mnt/a/..'' 0x42 0x180, Sys_fstat 9])
   \<and> (let (S, f, w) = demo_open ''/../../evil'' 0x8000000000000003 EFI_FILE_DIRECTORY
      in S = EFI_NOT_FOUND \<and> map fst (log w) = [Sys_mkdir ''//evil'' 0x180])"
  by code_simp

text \<open>C28: LKLDelete of a file that LKLOpen opened below the mount point closes the descriptor and unlinks
  exactly the path that was opened, and reports success exactly when the unlink succeeded.\<close>

theorem delete_opened:
  assumes "LKLOpen K cv Parent FName mode attrs w0 = (S, Some f, w1)"
    and "log w1 = log w0 @ cs" "(Sys_open p fl m, r) \<in> set cs"
    and "p = LKLMountPoint (Volume Parent) @ [slash] @ n" "length n < 4096" "allocs w = []"
  shows "\<exists>c u w'. LKLDelete K f w = (if u = 0 then EFI_SUCCESS else EFI_WARN_DELETE_FAILURE, w')
    \<and> log w' = log w @ [(Sys_close r, c), (Sys_unlink p, u)] \<and> live w' = live w - 1"
proof -
  from LKLOpen_result [of K Parent mode attrs w0 cv FName] obtain mk cs' p' fl' m' where
    log: "log w1 = log w0 @ mk @ cs'" and tr: "open_trace p' fl' m' cs' (Some f)"
    "mk = [] \<or> (\<exists>m r. mk = [(Sys_mkdir p' m, r)])"
    "Volume f = Volume Parent" "FilePath f = opened_name (Volume Parent) p'"
    unfolding assms(1) open_result_def split by blast
  have "cs' = [(Sys_open p' fl' m', FD f), (Sys_fstat (FD f), 0)]" using tr(1) by (simp add: open_trace_def)
  then have "p' = p" "FD f = r" using log assms(2,3) tr(2) by auto
  then have f: "FilePath f = n" "FD f = r"
    using tr(4) assms(4,5) by (simp_all add: opened_name_def AsciiStrnCpyS_def)
  have al: "AllocatePool w = (True, w\<lparr>live := live w + 1\<rparr>)" using assms(6) by (simp add: AllocatePool_def)
  let ?w = "w\<lparr>live := live w + 1\<rparr>"
  obtain c w2 where c: "sys K (Sys_close r) ?w = (c, w2)" by fastforce
  obtain u w3 where u: "sys K (Sys_unlink p) (FreePool w2) = (u, w3)" by fastforce
  have "LKLDelete K f w = (if u = 0 then EFI_SUCCESS else EFI_WARN_DELETE_FAILURE, FreePool w3)"
    using al c u f tr(3) assms(4) by (simp add: LKLDelete_def LKLIFileClose_def)
  then show ?thesis using sys_pair [OF c] sys_pair [OF u] by auto
qed

lemma delete_opened_witness:
  "\<exists>f c u. log (snd (LKLDelete demo_lkl f (demo_world demo_tree))) =
     [(Sys_close 7, c), (Sys_unlink ''/mnt/a/d'', u)]"
proof -
  obtain S f w' where r: "demo_open ''/d'' 1 0 = (S, f, w')" by (metis prod_cases3)
  with demo_open_d have l: "log w' = log (demo_world demo_tree) @ [(Sys_open ''/mnt/a/d'' 0 0, 7), (Sys_fstat 7, 0)]" and "f \<noteq> None"
    by (auto simp: demo_world_def)
  then obtain g where g: "f = Some g" by auto
  have "''/mnt/a/d'' = LKLMountPoint (Volume demo_root) @ [slash] @ ''d''"
    by (simp add: demo_root_def demo_volume_def slash_def)
  moreover have "allocs (demo_world demo_tree) = []" "length ''d'' < 4096" "log (demo_world demo_tree) = []"
    by (simp_all add: demo_world_def)
  ultimately show ?thesis
    using delete_opened [OF r [unfolded g] l, of "''/mnt/a/d''" 0 0 7 "''d''" "demo_world demo_tree"]
    by (metis append_Nil snd_conv list.set_intros(1))
qed

section \<open>Sessions\<close>

text \<open>C23: In every session (the volume is opened, files are opened from one another, and the calls of the
  file protocol come in any order on any open file) the descriptors that are open are exactly
  those of the open files, no call on a descriptor (fstat and fdopendir included) or on a
  directory ever uses one that is not open, and a file's directory was opened on the file's own
  descriptor. The pool has exactly one buffer more for every open file and for every directory
  that was ever opened: a directory is not given back when its file is closed. Every path that is
  opened, removed or dated starts with the mount point of the volume.\<close>

theorem session_discipline:
  assumes "run (session_step K ca cu V) \<lparr>s_files = [], s_world = w0\<rparr> tr s"
  shows "\<exists>cs D. log (s_world s) = log w0 @ cs \<and> fds cs ({#}, {}) = Some (mset (map FD (s_files s)), D)
    \<and> (\<forall>f \<in> set (s_files s). Volume f = V \<and> dir_open D f)
    \<and> live (s_world s) = live w0 + int (length (s_files s)) + dirs_opened cs \<and> list_all (in_volume V) cs"
  using session_machine.run_inv [OF assms, of w0] by (simp add: session_start_def session_inv_def)

lemma session_discipline_witness:
  "\<exists>s. run (session_step demo_lkl narrow wide demo_volume) \<lparr>s_files = [], s_world = demo_world demo_tree\<rparr>
     [(Open_volume, EFI_SUCCESS), (Call_file 0 (FP_Read 8), EFI_BUFFER_TOO_SMALL), (Call_file 0 FP_Close, EFI_SUCCESS)] s
     \<and> s_files s = [] \<and> live (s_world s) = 1"
proof -
  let ?step = "session_step demo_lkl narrow wide demo_volume"
  let ?s0 = "\<lparr>s_files = [], s_world = demo_world demo_tree\<rparr>"
  have "map_option (\<lambda>(S, f, w). S = EFI_SUCCESS \<and> (case f of None \<Rightarrow> False | Some f \<Rightarrow>
      let (S1, n, b, f1, w1) = LKLRead demo_lkl wide f 8 w; (S2, w2) = LKLClose demo_lkl f1 w1
      in S1 = EFI_BUFFER_TOO_SMALL \<and> S2 = EFI_SUCCESS \<and> map (opens_dir \<circ> fst) (log w2) = [False, False, True, False, False]))
      (LKLOpenVolume demo_lkl demo_volume (demo_world demo_tree)) = Some True"
    by code_simp
  then obtain f w where o: "LKLOpenVolume demo_lkl demo_volume (s_world ?s0) = Some (EFI_SUCCESS, Some f, w)"
    and reads: "let (S1, n, b, f1, w1) = LKLRead demo_lkl wide f 8 w; (S2, w2) = LKLClose demo_lkl f1 w1
      in S1 = EFI_BUFFER_TOO_SMALL \<and> S2 = EFI_SUCCESS \<and> map (opens_dir \<circ> fst) (log w2) = [False, False, True, False, False]"
    by (auto split: option.splits simp del: o_apply)
  obtain S1 n b f1 w1 where r: "LKLRead demo_lkl wide f 8 w = (S1, n, b, f1, w1)" by (metis prod_cases5)
  obtain S2 w2 where c: "LKLClose demo_lkl f1 w1 = (S2, w2)" by fastforce
  have S: "S1 = EFI_BUFFER_TOO_SMALL" "S2 = EFI_SUCCESS" and l: "map (opens_dir \<circ> fst) (log w2) = [False, False, True, False, False]"
    using reads by (simp_all add: r c)
  note r = r [unfolded S] and c = c [unfolded S]
  let ?s1 = "\<lparr>s_files = [f], s_world = w\<rparr>" and ?s2 = "\<lparr>s_files = [f1], s_world = w1\<rparr>"
    and ?s3 = "\<lparr>s_files = [], s_world = w2\<rparr>"
  have "?step ?s0 Open_volume EFI_SUCCESS ?s1"
    using session_step.open_volume [OF o, of narrow wide] by simp
  moreover have "?step ?s1 (Call_file 0 (FP_Read 8)) EFI_BUFFER_TOO_SMALL ?s2"
    using session_step.file_call [where s = ?s1 and i = 0 and c = "FP_Read 8" and S = EFI_BUFFER_TOO_SMALL
        and self = "Some f1" and new = None and w = w1 and K = demo_lkl and to_ascii = narrow and to_unicode = wide
        and V = demo_volume] r by simp
  moreover have "?step ?s2 (Call_file 0 FP_Close) EFI_SUCCESS ?s3"
    using session_step.file_call [where s = ?s2 and i = 0 and c = FP_Close and S = EFI_SUCCESS
        and self = None and new = None and w = w2 and K = demo_lkl and to_ascii = narrow and to_unicode = wide
        and V = demo_volume] c by simp
  ultimately have run: "run ?step ?s0 [(Open_volume, EFI_SUCCESS), (Call_file 0 (FP_Read 8), EFI_BUFFER_TOO_SMALL),
      (Call_file 0 FP_Close, EFI_SUCCESS)] ?s3"
    by (auto intro: run_Cons run.run_nil)
  have "dirs_opened cs = sum_list (map of_bool (map (opens_dir \<circ> fst) cs))" for cs
    by (induction cs) simp_all
  from this [of "log w2"] have "dirs_opened (log w2) = 1" unfolding l by simp
  with session_discipline [OF run] run show ?thesis
    by (intro exI [of _ ?s3]) (auto simp: demo_world_def)
qed

section \<open>Reading, writing and information\<close>

text \<open>C29: A directory read whose buffer is too small loses nothing: the required size is reported, the
  only calls are opening the directory and reading the entry, each only if that was not done
  before, and the retry with a large enough buffer is exactly what the first read would have been
  with that buffer.\<close>

theorem read_dir_keeps_entry:
  assumes "LKLRead K cv f n w = (EFI_BUFFER_TOO_SMALL, need, b, f', w')" "LKL_S_ISDIR (st_mode (StatBuf f))"
    and "need \<le> m"
  shows "n < need \<and> b = Untouched \<and> (\<exists>d r. log w' = log w @
      (if Dir f = None then [(Sys_fdopendir (FD f) (Some d), r)] else []) @
      (if DirEnt f = None then [(Sys_readdir (case Dir f of None \<Rightarrow> d | Some d' \<Rightarrow> d'), 1)] else []))
    \<and> LKLRead K cv f' m w' = LKLRead K cv f m w \<and> fst (LKLRead K cv f m w) = EFI_SUCCESS"
proof -
  have rd: "LKLRead K cv g k v = LKLIFileReadDir K cv g k v" if "LKL_S_ISDIR (st_mode (StatBuf g))" for g k v
    using that by (simp add: LKLRead_def LKLIFileAccess_def)
  from assms rd have r: "LKLIFileReadDir K cv f n w = (EFI_BUFFER_TOO_SMALL, need, b, f', w')" by simp
  from read_dir_retry [OF this] assms(3) rd assms(2) read_dir_file [OF r] show ?thesis by simp
qed

definition demo_dir :: ifile where
  "demo_dir = demo_root\<lparr>Dir := Some 0\<rparr>"

lemma read_dir_keeps_entry_witness:
  "\<exists>f' w'. LKLRead demo_lkl wide f' 90 w' = LKLRead demo_lkl wide demo_dir 90 (demo_world demo_tree)
    \<and> fst (LKLRead demo_lkl wide demo_dir 90 (demo_world demo_tree)) = EFI_SUCCESS"
proof -
  let ?r = "LKLRead demo_lkl wide demo_dir 8 (demo_world demo_tree)"
  have "fst ?r = EFI_BUFFER_TOO_SMALL" "fst (snd ?r) = 90" by code_simp+
  then obtain b f' w' where r: "?r = (EFI_BUFFER_TOO_SMALL, 90, b, f', w')"
    by (cases ?r) auto
  have "LKL_S_ISDIR (st_mode (StatBuf demo_dir))"
    by (simp add: demo_dir_def demo_root_def zero_stat_def LKL_S_ISDIR_def LKL_S_IFDIR_def LKL_S_IFMT_def)
  from read_dir_keeps_entry [OF r this, of 90] show ?thesis by auto
qed

text \<open>LKLSetInfo on a directory never succeeds, even with the directory attribute set: the masked flag
  0x10 is compared with the BOOLEAN 1.\<close>

lemma set_info_refuses_directories:
  assumes "LKLSetInfo K f gEfiFileInfoGuid n i w = Some (S, w')"
    and "k_fstat K (FD f) (linux w) = (0, st)" "LKL_S_ISDIR (st_mode st)"
  shows "EFI_ERROR S"
  using assms set_info_directory [of K "Volume f" f n i w S w' st]
  by (auto simp: LKLSetInfo_def split: if_splits)

lemma set_info_directory_demo:
  "\<exists>S w'. LKLSetInfo demo_lkl (demo_root\<lparr>FilePath := ''d''\<rparr>) gEfiFileInfoGuid 82
      (zero_file_info\<lparr>Attribute := EFI_FILE_DIRECTORY\<rparr>) (demo_world demo_tree) = Some (S, w') \<and> EFI_ERROR S"
proof -
  let ?f = "demo_root\<lparr>FilePath := ''d''\<rparr>" and ?i = "zero_file_info\<lparr>Attribute := EFI_FILE_DIRECTORY\<rparr>"
  let ?r = "LKLSetInfo demo_lkl ?f gEfiFileInfoGuid 82 ?i (demo_world demo_tree)"
  have "map_option fst ?r = Some EFI_ACCESS_DENIED" by code_simp
  then obtain S w' where r: "?r = Some (S, w')" by auto
  have "k_fstat demo_lkl (FD ?f) (linux (demo_world demo_tree)) = (0, zero_stat\<lparr>st_mode := LKL_S_IFDIR\<rparr>)"
    by (simp add: demo_lkl_def demo_root_def demo_world_def demo_tree_def demo_stat_def)
  moreover have "LKL_S_ISDIR (st_mode (zero_stat\<lparr>st_mode := LKL_S_IFDIR\<rparr>))"
    by (simp add: zero_stat_def LKL_S_ISDIR_def LKL_S_IFDIR_def LKL_S_IFMT_def)
  ultimately show ?thesis using set_info_refuses_directories [OF r] r by blast
qed

end
