(* ===== verification/File_Data.thy ===== *)
theory File_Data imports File_Io begin

text \<open>
  What the data operations of the file protocol promise their callers: a file is a list of bytes with a
  position (record \<open>efi_file\<close>), and the step relation \<open>efi_step\<close> says for each call which outcomes are
  allowed. \<open>regular_file\<close> is the contract of a Linux regular file behind a descriptor: \<open>read\<close>, \<open>write\<close>
  and \<open>lseek\<close> as documented, with any of the calls free to fail and writes free to be short. The
  lemmas show that every call of the driver on such a file is an allowed step.
\<close>

section \<open>The calls and their outcomes\<close>

datatype data_call = Data_read UINTN | Data_write UINTN "u8 list" | Data_get_position | Data_set_position u64

record data_out =
  o_status :: EFI_STATUS
  o_count :: UINTN
  o_bytes :: "u8 list"
  o_position :: "u64 option"

abbreviation no_data :: "EFI_STATUS \<Rightarrow> UINTN \<Rightarrow> data_out" where
  "no_data S n \<equiv> \<lparr>o_status = S, o_count = n, o_bytes = [], o_position = None\<rparr>"

fun buffer_bytes :: "buffer \<Rightarrow> u8 list" where
  "buffer_bytes (Bytes bs) = bs"
| "buffer_bytes b = []"

fun data_op ::
  "'s lkl \<Rightarrow> (string \<Rightarrow> u16 list) \<Rightarrow> data_call \<Rightarrow> ifile \<Rightarrow> 's world \<Rightarrow> data_out \<times> ifile \<times> 's world" where
  "data_op K u (Data_read n) f w =
    (let (S, n, b, f, w) = LKLRead K u f n w in ((no_data S n)\<lparr>o_bytes := buffer_bytes b\<rparr>, f, w))"
| "data_op K u (Data_write n bs) f w =
    (let (S, n, b, f, w) = LKLWrite K u f n bs w in (no_data S n, f, w))"
| "data_op K u Data_get_position f w =
    (let (S, p, w) = LKLGetPosition K f w in ((no_data S 0)\<lparr>o_position := p\<rparr>, f, w))"
| "data_op K u (Data_set_position p) f w =
    (let (S, f, w) = LKLSetPosition K f p w in (no_data S 0, f, w))"

text \<open>Calls in a row on one open file.\<close>

primrec data_ops ::
  "'s lkl \<Rightarrow> (string \<Rightarrow> u16 list) \<Rightarrow> data_call list \<Rightarrow> ifile \<Rightarrow> 's world \<Rightarrow> data_out list \<times> ifile \<times> 's world" where
  "data_ops K u [] f w = ([], f, w)"
| "data_ops K u (c # cs) f w =
    (let (x, f, w) = data_op K u c f w; (xs, f, w) = data_ops K u cs f w in (x # xs, f, w))"

section \<open>What a file promises\<close>

record efi_file =
  contents :: "u8 list"
  position :: nat

text \<open>Writing past the end fills the gap with zeros.\<close>

definition write_at :: "nat \<Rightarrow> u8 list \<Rightarrow> u8 list \<Rightarrow> u8 list" where
  "write_at p bs d =
    (if bs = [] then d else take p (d @ replicate (p - length d) 0) @ bs @ drop (p + length bs) d)"

abbreviation rest_of :: "efi_file \<Rightarrow> u8 list" where
  "rest_of a \<equiv> drop (position a) (contents a)"

definition file_read :: "nat \<Rightarrow> efi_file \<Rightarrow> efi_file" where
  "file_read n a = a\<lparr>position := position a + n\<rparr>"

definition file_write :: "u8 list \<Rightarrow> efi_file \<Rightarrow> efi_file" where
  "file_write bs a = a\<lparr>contents := write_at (position a) bs (contents a), position := position a + length bs\<rparr>"

text \<open>The largest transfer of one Linux call.\<close>

definition MAX_RW_COUNT :: nat where "MAX_RW_COUNT = 0x7FFFF000"

text \<open>\<open>ro\<close>: the volume is read-only. A failed call changes nothing.\<close>

inductive efi_step :: "bool \<Rightarrow> efi_file \<Rightarrow> data_call \<Rightarrow> data_out \<Rightarrow> efi_file \<Rightarrow> bool" for ro where
  read_ok: "unat r = min (min (unat n) MAX_RW_COUNT) (length (rest_of a)) \<Longrightarrow>
    efi_step ro a (Data_read n) ((no_data EFI_SUCCESS r)\<lparr>o_bytes := take (unat r) (rest_of a)\<rparr>) (file_read (unat r) a)"
| read_failed: "EFI_ERROR S \<Longrightarrow> efi_step ro a (Data_read n) (no_data S n) a"
| write_ok: "\<not> ro \<Longrightarrow> unat r \<le> length (take (unat n) bs) \<Longrightarrow>
    efi_step ro a (Data_write n bs) (no_data EFI_SUCCESS r) (file_write (take (unat r) bs) a)"
| write_failed: "EFI_ERROR S \<Longrightarrow> (ro \<Longrightarrow> S = EFI_WRITE_PROTECTED) \<Longrightarrow> efi_step ro a (Data_write n bs) (no_data S n) a"
| get_position: "efi_step ro a Data_get_position
    ((no_data EFI_SUCCESS 0)\<lparr>o_position := Some (word_of_nat (position a))\<rparr>) a"
| set_position: "0 \<le> sint p \<Longrightarrow>
    efi_step ro a (Data_set_position p) (no_data EFI_SUCCESS 0) (a\<lparr>position := unat p\<rparr>)"
| set_end: "efi_step ro a (Data_set_position 0xFFFFFFFFFFFFFFFF) (no_data EFI_SUCCESS 0)
    (a\<lparr>position := length (contents a)\<rparr>)"
| set_failed: "EFI_ERROR S \<Longrightarrow> p \<noteq> 0xFFFFFFFFFFFFFFFF \<Longrightarrow> efi_step ro a (Data_set_position p) (no_data S 0) a"

inductive_simps efi_step_read: "efi_step ro a (Data_read n) x b"
inductive_simps efi_step_write: "efi_step ro a (Data_write n bs) x b"
inductive_simps efi_step_get: "efi_step ro a Data_get_position x b"
inductive_simps efi_step_set: "efi_step ro a (Data_set_position p) x b"

section \<open>The contract of a regular file\<close>

text \<open>Sizes and positions are \<open>loff_t\<close>; an error is a negative error number.\<close>

definition file_ok :: "efi_file \<Rightarrow> bool" where
  "file_ok a \<longleftrightarrow> length (contents a) < 2 ^ 63 \<and> position a < 2 ^ 63"

definition errno_of :: "nat \<Rightarrow> 'a :: len word" where "errno_of e = - word_of_nat e"

definition is_errno :: "'a :: len word \<Rightarrow> bool" where
  "is_errno r \<longleftrightarrow> (\<exists>e. 0 < e \<and> e < 4096 \<and> r = errno_of e)"

text \<open>\<open>file s\<close> is the file behind the descriptor \<open>fd\<close> in the state \<open>s\<close> of the Linux kernel.\<close>

definition regular_file :: "'s lkl \<Rightarrow> INTN \<Rightarrow> ('s \<Rightarrow> efi_file) \<Rightarrow> bool" where
  "regular_file K fd file \<longleftrightarrow>
    (\<forall>s. file_ok (file s) \<longrightarrow>
      (\<exists>s'. k_lseek K fd 0 LKL_SEEK_CUR s = (word_of_nat (position (file s)), s') \<and> file s' = file s) \<and>
      (\<exists>s'. k_lseek K fd 0 LKL_SEEK_END s = (word_of_nat (length (contents (file s))), s') \<and>
         file s' = (file s)\<lparr>position := length (contents (file s))\<rparr>) \<and>
      (\<forall>off. \<exists>r s'. k_lseek K fd off LKL_SEEK_SET s = (r, s') \<and>
         (if is_errno r then file s' = file s
          else r = off \<and> 0 \<le> sint off \<and> file s' = (file s)\<lparr>position := unat off\<rparr>)) \<and>
      (\<forall>n. \<exists>r bs s'. k_read K fd n s = (r, bs, s') \<and>
         (if is_errno r then file s' = file s
          else unat r = min (min (unat n) MAX_RW_COUNT) (length (rest_of (file s))) \<and>
            bs = take (unat r) (rest_of (file s)) \<and> file_ok (file s') \<and> file s' = file_read (unat r) (file s))) \<and>
      (\<forall>bs. \<exists>r s'. k_call K (Sys_write fd bs) s = (r, s') \<and>
         (if is_errno r then file s' = file s
          else unat r \<le> length bs \<and> unat r \<le> MAX_RW_COUNT \<and> file_ok (file s') \<and>
            file s' = file_write (take (unat r) bs) (file s))))"

section \<open>Error numbers\<close>

lemma sint_errno_of:
  assumes "0 < e" "e < 4096" "13 < LENGTH('a :: len)"
  shows "sint (errno_of e :: 'a word) = - int e"
proof -
  have "(4096 :: int) \<le> 2 ^ (LENGTH('a) - 1)"
    using power_increasing [of 12 "LENGTH('a) - 1" "2 :: int"] assms(3) by simp
  with assms(1,2) have "- (2 ^ (LENGTH('a) - 1)) \<le> - int e" "- int e < 2 ^ (LENGTH('a) - 1)" by linarith+
  then have "signed_take_bit (LENGTH('a) - 1) (- int e) = - int e" by (rule signed_take_bit_int_eq_self)
  moreover have "(errno_of e :: 'a word) = word_of_int (- int e)" by (simp add: errno_of_def)
  ultimately show ?thesis by (simp only: sint_sbintrunc')
qed

lemma errno_neg:
  fixes r :: INTN
  assumes "is_errno r"
  shows "neg r"
  using assms by (auto simp: is_errno_def neg_def sint_errno_of)

lemma errno_wide:
  fixes r :: u64
  assumes "is_errno r"
  shows "sint r < 0" "neg (ucast r)"
proof -
  from assms obtain e where e: "0 < e" "e < 4096" "r = errno_of e" by (auto simp: is_errno_def)
  then show "sint r < 0" by (simp add: sint_errno_of)
  have "ucast (word_of_int i :: u64) = (word_of_int i :: INTN)" for i
    by (rule bit_word_eqI) (simp add: bit_simps)
  from this [of "- int e"] have "ucast r = (errno_of e :: INTN)" by (simp add: e(3) errno_of_def)
  then show "neg (ucast r)" using e by (simp add: neg_def sint_errno_of)
qed

lemma sint_word_of_nat:
  assumes "n < 2 ^ (LENGTH('a :: len) - 1)"
  shows "sint (word_of_nat n :: 'a word) = int n"
proof -
  have "int n < 2 ^ (LENGTH('a) - 1)" using assms by (metis of_nat_less_iff of_nat_numeral of_nat_power)
  moreover have "- (2 ^ (LENGTH('a) - 1)) \<le> (0 :: int)" by simp
  then have "- (2 ^ (LENGTH('a) - 1)) \<le> int n" by linarith
  ultimately have "signed_take_bit (LENGTH('a) - 1) (int n) = int n" by (intro signed_take_bit_int_eq_self)
  then have "sint (word_of_int (int n) :: 'a word) = int n" by (simp only: sint_sbintrunc')
  then show ?thesis by simp
qed

lemma size_not_neg:
  fixes r :: INTN
  assumes "unat r \<le> MAX_RW_COUNT"
  shows "\<not> neg r"
  using sint_word_of_nat [of "unat r", where 'a = 32] assms by (simp add: neg_def MAX_RW_COUNT_def)

lemma small_position: "n < 2 ^ 63 \<Longrightarrow> 0 \<le> sint (word_of_nat n :: u64)"
  by (simp add: sint_word_of_nat)

lemma small_unat:
  fixes p :: u64
  assumes "0 \<le> sint p"
  shows "unat p < 2 ^ 63"
proof -
  have "uint p = sint p mod 2 ^ 64" using uint_word_of_int [of "sint p", where 'a = 64] by simp
  moreover have "sint p < 2 ^ 63" using sint_less [of p] by simp
  ultimately have "uint p < 2 ^ 63" using assms by (simp add: mod_pos_pos_trivial)
  then have "int (unat p) < 2 ^ 63" by simp
  then show ?thesis by (metis of_nat_less_iff of_nat_numeral of_nat_power)
qed

section \<open>Every call is an allowed step\<close>

text \<open>\<open>on_file\<close>: the file \<open>f\<close> is open on a regular file of the state.\<close>

definition on_file :: "'s lkl \<Rightarrow> ('s \<Rightarrow> efi_file) \<Rightarrow> ifile \<Rightarrow> 's world \<Rightarrow> bool" where
  "on_file K file f w \<longleftrightarrow>
    regular_file K (FD f) file \<and> file_ok (file (linux w)) \<and> \<not> LKL_S_ISDIR (st_mode (StatBuf f))"

definition allowed_step :: "'s lkl \<Rightarrow> ('s \<Rightarrow> efi_file) \<Rightarrow> ifile \<Rightarrow> 's world \<Rightarrow> data_call \<Rightarrow> data_out \<Rightarrow> 's world \<Rightarrow> bool" where
  "allowed_step K file f w c x w' \<longleftrightarrow>
    on_file K file f w' \<and> efi_step (ReadOnly (Volume f)) (file (linux w)) c x (file (linux w'))"

lemma read_step:
  assumes "on_file K file f w" "data_op K u (Data_read n) f w = (x, f', w')"
  shows "f' = f \<and> allowed_step K file f w (Data_read n) x w'"
proof -
  let ?a = "file (linux w)"
  from assms(1) obtain r bs s' where r: "k_read K (FD f) n (linux w) = (r, bs, s')"
    and c: "if is_errno r then file s' = ?a else unat r = min (min (unat n) MAX_RW_COUNT) (length (rest_of ?a)) \<and>
      bs = take (unat r) (rest_of ?a) \<and> file_ok (file s') \<and> file s' = file_read (unat r) ?a"
    unfolding on_file_def regular_file_def by meson
  have "\<not> is_errno r \<Longrightarrow> \<not> neg r" using c by (intro size_not_neg) auto
  with assms r c show ?thesis
    by (cases "is_errno r")
      (auto simp: LKLRead_def LKLIFileAccess_def sys_read_def on_file_def allowed_step_def efi_step_read errno_neg
        LKLError2EfiError_neg)
qed

lemma write_step:
  assumes "on_file K file f w" "data_op K u (Data_write n bs) f w = (x, f', w')"
  shows "f' = f \<and> allowed_step K file f w (Data_write n bs) x w'"
proof -
  let ?a = "file (linux w)" and ?bs = "take (unat n) bs"
  from assms(1) obtain r s' where r: "k_call K (Sys_write (FD f) ?bs) (linux w) = (r, s')"
    and c: "if is_errno r then file s' = ?a else unat r \<le> length ?bs \<and> unat r \<le> MAX_RW_COUNT \<and> file_ok (file s') \<and>
      file s' = file_write (take (unat r) ?bs) ?a"
    unfolding on_file_def regular_file_def by meson
  have "\<not> is_errno r \<Longrightarrow> \<not> neg r" using c by (intro size_not_neg) auto
  with assms r c show ?thesis
    by (cases "is_errno r"; cases "ReadOnly (Volume f)")
      (auto simp: LKLWrite_def LKLIFileAccess_def sys_def on_file_def allowed_step_def efi_step_write errno_neg
        LKLError2EfiError_neg min_def split: if_splits)
qed

lemma get_position_step:
  assumes "on_file K file f w" "data_op K u Data_get_position f w = (x, f', w')"
  shows "f' = f \<and> allowed_step K file f w Data_get_position x w'"
proof -
  from assms(1) obtain s' where r: "k_lseek K (FD f) 0 LKL_SEEK_CUR (linux w) = (word_of_nat (position (file (linux w))), s')"
    and s': "file s' = file (linux w)"
    unfolding on_file_def regular_file_def by meson
  have "0 \<le> sint (word_of_nat (position (file (linux w))) :: u64)"
    using assms(1) by (intro small_position) (simp add: on_file_def file_ok_def)
  with assms r s' show ?thesis
    by (auto simp: LKLGetPosition_def sys_lseek_def on_file_def allowed_step_def efi_step_get)
qed

lemma set_position_step:
  assumes "on_file K file f w" "data_op K u (Data_set_position p) f w = (x, f', w')"
  shows "f' = f \<and> allowed_step K file f w (Data_set_position p) x w'"
proof (cases "p = 0xFFFFFFFFFFFFFFFF")
  case True
  let ?n = "length (contents (file (linux w)))"
  from assms(1) obtain s' where r: "k_lseek K (FD f) 0 LKL_SEEK_END (linux w) = (word_of_nat ?n, s')"
    and s': "file s' = (file (linux w))\<lparr>position := ?n\<rparr>"
    unfolding on_file_def regular_file_def by meson
  have "0 \<le> sint (word_of_nat ?n :: u64)" "?n < 2 ^ 63"
    using assms(1) by (auto simp: on_file_def file_ok_def intro!: small_position)
  with assms r s' True show ?thesis
    by (auto simp: LKLSetPosition_def sys_lseek_def on_file_def file_ok_def allowed_step_def efi_step_set)
next
  case False
  from assms(1) obtain r s' where r: "k_lseek K (FD f) p LKL_SEEK_SET (linux w) = (r, s')"
    and c: "if is_errno r then file s' = file (linux w)
      else r = p \<and> 0 \<le> sint p \<and> file s' = (file (linux w))\<lparr>position := unat p\<rparr>"
    unfolding on_file_def regular_file_def by meson
  show ?thesis
  proof (cases "is_errno r")
    case True
    with assms r c False errno_wide [OF True] show ?thesis
      by (auto simp: LKLSetPosition_def sys_lseek_def on_file_def allowed_step_def efi_step_set LKLError2EfiError_neg)
  next
    case ok: False
    with c have "unat p < 2 ^ 63" by (intro small_unat) simp
    with assms r c False ok show ?thesis
      by (auto simp: LKLSetPosition_def sys_lseek_def on_file_def file_ok_def allowed_step_def efi_step_set)
  qed
qed

lemma data_op_step:
  assumes "on_file K file f w" "data_op K u c f w = (x, f', w')"
  shows "f' = f \<and> allowed_step K file f w c x w'"
proof (cases c)
  case (Data_read n)
  show ?thesis using read_step [OF assms(1)] assms(2) unfolding Data_read by blast
next
  case (Data_write n bs)
  show ?thesis using write_step [OF assms(1)] assms(2) unfolding Data_write by blast
next
  case Data_get_position
  show ?thesis using get_position_step [OF assms(1)] assms(2) unfolding Data_get_position by blast
next
  case (Data_set_position p)
  show ?thesis using set_position_step [OF assms(1)] assms(2) unfolding Data_set_position by blast
qed

lemma data_ops_run:
  assumes "on_file K file f w" "data_ops K u cs f w = (xs, f', w')"
  shows "length xs = length cs \<and> f' = f \<and> on_file K file f w' \<and>
    run (efi_step (ReadOnly (Volume f))) (file (linux w)) (zip cs xs) (file (linux w'))"
  using assms
proof (induction cs arbitrary: w xs)
  case Nil
  then show ?case by (auto intro: run.run_nil)
next
  case (Cons c cs)
  obtain x f1 w1 where x: "data_op K u c f w = (x, f1, w1)" by (cases "data_op K u c f w")
  note st = data_op_step [OF Cons.prems(1) x]
  with Cons.prems(2) x obtain ys where ys: "data_ops K u cs f w1 = (ys, f', w')" "xs = x # ys"
    by (auto split: prod.splits)
  have "on_file K file f w1" using st by (simp add: allowed_step_def)
  from Cons.IH [OF this ys(1)] st ys(2) show ?case
    by (auto simp: allowed_step_def intro: run_Cons)
qed

section \<open>What a client can rely on\<close>

lemma write_at_read:
  assumes "length bs \<le> n"
  shows "take (length bs) (take n (drop p (write_at p bs d))) = bs"
proof (cases "bs = []")
  case False
  have "length (take p (d @ replicate (p - length d) 0)) = p" by simp
  then have "drop p (write_at p bs d) = bs @ drop (p + length bs) d" using False by (simp add: write_at_def)
  then show ?thesis using assms by (simp add: min_absorb1)
qed simp

lemma take_min_length: "take (min n (length xs)) xs = take n xs"
  by (cases "n \<le> length xs") (auto simp: min_def)

text \<open>What was written at a position and counted is what is read at that position.\<close>

lemma efi_write_read:
  assumes "efi_step ro a (Data_write n bs) x b" "o_status x = EFI_SUCCESS"
    and "efi_step ro (b\<lparr>position := position a\<rparr>) (Data_read m) y c" "o_status y = EFI_SUCCESS"
    and "unat (o_count x) \<le> unat m" "unat m \<le> MAX_RW_COUNT"
  shows "take (unat (o_count x)) (o_bytes y) = take (unat (o_count x)) bs"
proof -
  let ?r = "unat (o_count x)"
  have b: "b = file_write (take ?r bs) a" "?r \<le> length bs"
    using assms(1,2) by (auto simp: efi_step_write)
  let ?c = "contents b"
  have c: "?c = write_at (position a) (take ?r bs) (contents a)" using b by (simp add: file_write_def)
  have y: "o_bytes y = take (min (min (unat m) MAX_RW_COUNT) (length (drop (position a) ?c))) (drop (position a) ?c)"
    using assms(3,4) by (auto simp: efi_step_read)
  then have "o_bytes y = take (unat m) (drop (position a) ?c)"
    using assms(6) unfolding take_min_length by (simp only: min_absorb1)
  then show ?thesis using write_at_read [of "take ?r bs" "unat m" "position a" "contents a"] b(2) assms(5) c
    by simp
qed

lemma efi_seek:
  assumes "efi_step ro a (Data_set_position p) x b" "o_status x = EFI_SUCCESS" "p \<noteq> 0xFFFFFFFFFFFFFFFF"
  shows "b = a\<lparr>position := unat p\<rparr>"
  using assms by (auto simp: efi_step_set)

lemma data_ops_Cons:
  assumes "on_file K file f w" "data_ops K u (c # cs) f w = (xs, f', w')"
  obtains x ys w1 where "xs = x # ys" "allowed_step K file f w c x w1" "on_file K file f w1"
    "data_ops K u cs f w1 = (ys, f', w')"
proof -
  obtain x f1 w1 where x: "data_op K u c f w = (x, f1, w1)" by (cases "data_op K u c f w")
  with data_op_step [OF assms(1) x] assms(2) that show thesis
    by (auto simp: allowed_step_def split: prod.splits)
qed

lemma write_seek_read:
  assumes f: "on_file K file f w"
    and ops: "data_ops K u [Data_set_position p, Data_write n bs, Data_set_position p, Data_read m] f w = (xs, f', w')"
    and ok: "\<forall>x\<in>set xs. o_status x = EFI_SUCCESS" "p \<noteq> 0xFFFFFFFFFFFFFFFF"
    and m: "unat (o_count (xs ! 1)) \<le> unat m" "unat m \<le> MAX_RW_COUNT"
  shows "take (unat (o_count (xs ! 1))) (o_bytes (xs ! 3)) = take (unat (o_count (xs ! 1))) bs"
proof -
  from data_ops_Cons [OF f ops] obtain x1 ys1 w1 where 1: "xs = x1 # ys1"
    "allowed_step K file f w (Data_set_position p) x1 w1" "on_file K file f w1"
    "data_ops K u [Data_write n bs, Data_set_position p, Data_read m] f w1 = (ys1, f', w')" .
  from data_ops_Cons [OF 1(3,4)] obtain x2 ys2 w2 where 2: "ys1 = x2 # ys2"
    "allowed_step K file f w1 (Data_write n bs) x2 w2" "on_file K file f w2"
    "data_ops K u [Data_set_position p, Data_read m] f w2 = (ys2, f', w')" .
  from data_ops_Cons [OF 2(3,4)] obtain x3 ys3 w3 where 3: "ys2 = x3 # ys3"
    "allowed_step K file f w2 (Data_set_position p) x3 w3" "on_file K file f w3"
    "data_ops K u [Data_read m] f w3 = (ys3, f', w')" .
  from data_ops_Cons [OF 3(3,4)] obtain x4 ys4 w4 where 4: "ys3 = x4 # ys4"
    "allowed_step K file f w3 (Data_read m) x4 w4" "on_file K file f w4" .
  note xs = 1(1) 2(1) 3(1) 4(1)
  have seek: "file (linux v') = (file (linux v))\<lparr>position := unat p\<rparr>"
    if "allowed_step K file f v (Data_set_position p) x v'" "o_status x = EFI_SUCCESS" for v v' x
    using that ok(2) unfolding allowed_step_def by (intro efi_seek) auto
  have st: "o_status x1 = EFI_SUCCESS" "o_status x2 = EFI_SUCCESS" "o_status x3 = EFI_SUCCESS" "o_status x4 = EFI_SUCCESS"
    and nth: "xs ! 1 = x2" "xs ! 3 = x4"
    using ok(1) xs by simp_all
  have e: "file (linux w3) = (file (linux w2))\<lparr>position := position (file (linux w1))\<rparr>"
    unfolding seek [OF 3(2) st(3)] using arg_cong [OF seek [OF 1(2) st(1)], of position] by simp
  have w: "efi_step (ReadOnly (Volume f)) (file (linux w1)) (Data_write n bs) x2 (file (linux w2))"
    using 2(2) unfolding allowed_step_def by blast
  have r: "efi_step (ReadOnly (Volume f)) ((file (linux w2))\<lparr>position := position (file (linux w1))\<rparr>) (Data_read m) x4
      (file (linux w4))"
    using 4(2) unfolding allowed_step_def e by blast
  show ?thesis unfolding nth by (rule efi_write_read [OF w st(2) r st(4) m [unfolded nth]])
qed

end
