(* ===== verification/File_Properties.thy ===== *)
theory File_Properties imports File_Data begin

text \<open>
  The data operations of the file protocol against what a file promises, with a Linux kernel that has
  one regular file as the concrete instance.
\<close>

section \<open>A Linux kernel with one file\<close>

fun seek_to :: "u64 \<Rightarrow> whence \<Rightarrow> efi_file \<Rightarrow> u64 \<times> efi_file" where
  "seek_to off LKL_SEEK_CUR a = (word_of_nat (position a), a)"
| "seek_to off LKL_SEEK_END a = (word_of_nat (length (contents a)), a\<lparr>position := length (contents a)\<rparr>)"
| "seek_to off LKL_SEEK_SET a = (if 0 \<le> sint off then (off, a\<lparr>position := unat off\<rparr>) else (errno_of 22, a))"

definition write_to :: "u8 list \<Rightarrow> efi_file \<Rightarrow> INTN \<times> efi_file" where
  "write_to bs a =
    (let bs = take MAX_RW_COUNT bs
     in if position a + length bs < 2 ^ 63 then (word_of_nat (length bs), file_write bs a) else (errno_of 27, a))"

definition read_from :: "UINTN \<Rightarrow> efi_file \<Rightarrow> INTN \<times> u8 list \<times> efi_file" where
  "read_from n a =
    (let r = min (min (unat n) MAX_RW_COUNT) (length (rest_of a))
     in (word_of_nat r, take r (rest_of a), file_read r a))"

definition one_file :: "efi_file lkl" where
  "one_file =
    \<lparr>k_lstat = (\<lambda>p s. (0, zero_stat)),
     k_fstat = (\<lambda>fd s. (0, zero_stat)),
     k_statfs = (\<lambda>p s. (0, \<lparr>f_bsize = 512, f_blocks = 100, f_bfree = 10\<rparr>)),
     k_readlink = (\<lambda>p n s. (errno_of 22, [])),
     k_call = (\<lambda>c s. case c of Sys_write fd bs \<Rightarrow> write_to bs s | _ \<Rightarrow> (0, s)),
     k_lseek = (\<lambda>fd. seek_to),
     k_read = (\<lambda>fd. read_from),
     k_fdopendir = (\<lambda>fd s. (None, 0, s)),
     k_readdir = (\<lambda>d s. (None, s)),
     k_rewinddir = (\<lambda>d s. s),
     k_errdir = (\<lambda>d s. 0),
     k_ioctl = (\<lambda>fd r s. (0, 0, s)),
     k_virtio_blkdev = (\<lambda>d s. (0, 0)),
     k_mount_dev = (\<lambda>d ty s. (0, ''/mnt'', s))\<rparr>"

lemma length_write_at: "length (write_at p bs d) \<le> max (length d) (p + length bs)"
  by (auto simp: write_at_def)

lemma not_errno:
  fixes r :: "'a :: len word"
  assumes "0 \<le> sint r" "13 < LENGTH('a)"
  shows "\<not> is_errno r"
  using assms by (auto simp: is_errno_def sint_errno_of)

lemma unat_size: "n \<le> MAX_RW_COUNT \<Longrightarrow> unat (word_of_nat n :: INTN) = n"
  by (simp add: unsigned_of_nat take_bit_nat_eq_self MAX_RW_COUNT_def)

lemma size_not_errno: "n \<le> MAX_RW_COUNT \<Longrightarrow> \<not> is_errno (word_of_nat n :: INTN)"
  by (rule not_errno) (simp_all add: sint_word_of_nat MAX_RW_COUNT_def)

lemma errno_is_errno [simp]: "is_errno (errno_of 22 :: u64)" "is_errno (errno_of 27 :: INTN)"
  unfolding is_errno_def by (rule exI [of _ 22], simp) (rule exI [of _ 27], simp)

lemma one_file_regular: "regular_file one_file fd (\<lambda>a. a)"
  unfolding regular_file_def
proof (intro allI impI conjI)
  fix a :: efi_file and off :: u64 and n :: UINTN and bs :: "u8 list"
  assume ok: "file_ok a"
  show "\<exists>s'. k_lseek one_file fd 0 LKL_SEEK_CUR a = (word_of_nat (position a), s') \<and> s' = a"
    by (simp add: one_file_def)
  show "\<exists>s'. k_lseek one_file fd 0 LKL_SEEK_END a = (word_of_nat (length (contents a)), s') \<and>
      s' = a\<lparr>position := length (contents a)\<rparr>"
    by (simp add: one_file_def)
  show "\<exists>r s'. k_lseek one_file fd off LKL_SEEK_SET a = (r, s') \<and>
      (if is_errno r then s' = a else r = off \<and> 0 \<le> sint off \<and> s' = a\<lparr>position := unat off\<rparr>)"
    by (simp add: one_file_def not_errno)
  let ?r = "min (min (unat n) MAX_RW_COUNT) (length (rest_of a))"
  have "?r \<le> MAX_RW_COUNT" by simp
  note r = unat_size [OF this] size_not_errno [OF this]
  have "file_ok (file_read ?r a)" using ok by (auto simp: file_ok_def file_read_def min_def)
  then show "\<exists>r bs s'. k_read one_file fd n a = (r, bs, s') \<and>
      (if is_errno r then s' = a
       else unat r = ?r \<and> bs = take (unat r) (rest_of a) \<and> file_ok s' \<and> s' = file_read (unat r) a)"
    using r by (simp add: one_file_def read_from_def Let_def)
  show "\<exists>r s'. k_call one_file (Sys_write fd bs) a = (r, s') \<and>
      (if is_errno r then s' = a
       else unat r \<le> length bs \<and> unat r \<le> MAX_RW_COUNT \<and> file_ok s' \<and> s' = file_write (take (unat r) bs) a)"
  proof (cases "position a + length (take MAX_RW_COUNT bs) < 2 ^ 63")
    case True
    let ?n = "length (take MAX_RW_COUNT bs)"
    have "?n \<le> MAX_RW_COUNT" by simp
    note n = unat_size [OF this] size_not_errno [OF this]
    have "file_ok (file_write (take MAX_RW_COUNT bs) a)"
      using ok True length_write_at [of "position a" "take MAX_RW_COUNT bs" "contents a"]
      by (auto simp: file_ok_def file_write_def)
    moreover have "take ?n bs = take MAX_RW_COUNT bs" by (simp add: min_def)
    ultimately show ?thesis using True n
      by (simp only: one_file_def write_to_def Let_def) simp
  next
    case False
    then show ?thesis by (simp add: one_file_def write_to_def Let_def)
  qed
qed

definition data_file :: ifile where
  "data_file =
    \<lparr>Volume = \<lparr>Handle = 0, Valid = True, DiskIo2 = False, MediaId = 0, ReadOnly = False, LKLDiskId = 0,
       LKLMountPoint = ''/mnt'', FsType = Some ''ext4'', IsEncrypted = False, LKLBlkDevice = [],
       LKLBlkDeviceDecrypted = [], LKLCryptFSName = []\<rparr>,
     FD = 3, LinuxOpenFlags = 2, StatBuf = zero_stat, FilePath = ''/f'', Dir = None, DirEnt = None\<rparr>"

definition data_world :: "efi_file world" where
  "data_world = \<lparr>linux = \<lparr>contents = [1, 2, 3], position = 0\<rparr>, allocs = [], live = 1, log = []\<rparr>"

lemma demo_on_file: "on_file one_file (\<lambda>a. a) data_file data_world"
  by (simp add: on_file_def one_file_regular file_ok_def data_world_def data_file_def zero_stat_def LKL_S_ISDIR_def
      LKL_S_IFDIR_def LKL_S_IFMT_def)

section \<open>The promise is kept\<close>

text \<open>C24: On an open regular file, any sequence of reads, writes, position queries and position changes is
  a run of the abstract file (a list of bytes and a position): every outcome is one the abstract
  file allows, and a call that fails changes nothing.\<close>

theorem file_data_refines:
  assumes "on_file K file f w" "data_ops K u cs f w = (xs, f', w')"
  shows "length xs = length cs \<and> f' = f \<and>
    run (efi_step (ReadOnly (Volume f))) (file (linux w)) (zip cs xs) (file (linux w'))"
  using data_ops_run [OF assms] by simp

definition demo_calls :: "data_call list" where
  "demo_calls = [Data_set_position 5, Data_write 3 [7, 8, 9], Data_set_position 5, Data_read 4]"

lemma demo_outcomes:
  "fst (data_ops one_file (\<lambda>_. []) demo_calls data_file data_world) =
    [no_data EFI_SUCCESS 0, no_data EFI_SUCCESS 3, no_data EFI_SUCCESS 0, (no_data EFI_SUCCESS 3)\<lparr>o_bytes := [7, 8, 9]\<rparr>]"
  by (simp add: demo_calls_def LKLSetPosition_def LKLWrite_def LKLRead_def LKLIFileAccess_def sys_def sys_read_def
      sys_lseek_def one_file_def data_file_def data_world_def write_to_def read_from_def file_read_def file_write_def
      write_at_def MAX_RW_COUNT_def zero_stat_def LKL_S_ISDIR_def LKL_S_IFDIR_def LKL_S_IFMT_def neg_def Let_def)

lemma file_data_refines_witness:
  "\<exists>a. run (efi_step False) \<lparr>contents = [1, 2, 3], position = 0\<rparr>
      (zip demo_calls [no_data EFI_SUCCESS 0, no_data EFI_SUCCESS 3, no_data EFI_SUCCESS 0,
        (no_data EFI_SUCCESS 3)\<lparr>o_bytes := [7, 8, 9]\<rparr>]) a"
proof -
  obtain xs f' w' where r: "data_ops one_file (\<lambda>_. []) demo_calls data_file data_world = (xs, f', w')"
    by (cases "data_ops one_file (\<lambda>_. []) demo_calls data_file data_world")
  with file_data_refines [OF demo_on_file r] demo_outcomes show ?thesis
    by (auto simp: data_world_def data_file_def)
qed

text \<open>C25: What LKLWrite reports as written at a position is what LKLRead returns from there.\<close>

theorem write_read_round_trip:
  assumes "on_file K file f w"
    and "data_ops K u [Data_set_position p, Data_write n bs, Data_set_position p, Data_read m] f w = (xs, f', w')"
    and "\<forall>x\<in>set xs. o_status x = EFI_SUCCESS" "p \<noteq> 0xFFFFFFFFFFFFFFFF"
    and "unat (o_count (xs ! 1)) \<le> unat m" "unat m \<le> MAX_RW_COUNT"
  shows "take (unat (o_count (xs ! 1))) (o_bytes (xs ! 3)) = take (unat (o_count (xs ! 1))) bs"
  by (rule write_seek_read [OF assms])

lemma write_read_round_trip_witness:
  "\<exists>xs f' w'. data_ops one_file (\<lambda>_. []) demo_calls data_file data_world = (xs, f', w') \<and>
     o_count (xs ! 1) = 3 \<and> take 3 (o_bytes (xs ! 3)) = [7, 8, 9]"
proof -
  obtain xs f' w' where r: "data_ops one_file (\<lambda>_. []) demo_calls data_file data_world = (xs, f', w')"
    by (cases "data_ops one_file (\<lambda>_. []) demo_calls data_file data_world")
  then have xs: "xs = [no_data EFI_SUCCESS 0, no_data EFI_SUCCESS 3, no_data EFI_SUCCESS 0,
      (no_data EFI_SUCCESS 3)\<lparr>o_bytes := [7, 8, 9]\<rparr>]"
    using demo_outcomes by simp
  have "take (unat (o_count (xs ! 1))) (o_bytes (xs ! 3)) = take (unat (o_count (xs ! 1))) [7, 8, 9]"
    by (rule write_read_round_trip [OF demo_on_file r [unfolded demo_calls_def]]) (simp_all add: xs MAX_RW_COUNT_def)
  with r show ?thesis by (auto simp: xs)
qed

end
