(* ===== verification/Fs_Id.thy ===== *)
theory Fs_Id imports Files begin

text \<open>
  Recognising a file system by its magic bytes (\<open>filesystems/*.c\<close>, \<open>FsId.h\<close>): the three tables, the
  probe of a disk through \<open>DiskIo->ReadDisk\<close> (a parameter) and the probe of a Linux block device.
  The buffer of the second probe is a value of its own: a short read leaves its tail as it was, and
  at the start it holds whatever the stack held (the argument \<open>Buffer\<close>).
\<close>

section \<open>Tables\<close>

text \<open>The entry \<open>{ NULL }\<close> that closes a table is the list's end here.\<close>

record FS_IDMAG =
  magic :: "u8 list"
  magic_len :: UINTN
  kboff :: INTN
  sboff :: UINTN

record FS_IDINFO =
  Name :: string
  Magics :: "FS_IDMAG list"

definition IdInfoExt :: FS_IDINFO where
  "IdInfoExt = \<lparr>Name = ''ext4'',
     Magics = [\<lparr>magic = [0x53, 0xEF], magic_len = 2, kboff = drop_bit 10 0x400, sboff = 0x38\<rparr>]\<rparr>"

definition IdInfoNTFS :: FS_IDINFO where
  "IdInfoNTFS = \<lparr>Name = ''ntfs'',
     Magics = [\<lparr>magic = [0x4E, 0x54, 0x46, 0x53, 0x20, 0x20, 0x20, 0x20], magic_len = 8,
                kboff = 0, sboff = 3\<rparr>]\<rparr>"

definition IdInfoF2FS :: FS_IDINFO where
  "IdInfoF2FS = \<lparr>Name = ''f2fs'',
     Magics = [\<lparr>magic = [0x10, 0x20, 0xF5, 0xF2], magic_len = 4, kboff = drop_bit 10 0x400, sboff = 0\<rparr>]\<rparr>"

definition FsIdInfos :: "FS_IDINFO list" where
  "FsIdInfos = [IdInfoExt, IdInfoNTFS, IdInfoF2FS]"

section \<open>Probing\<close>

text \<open>\<open>(kboff + (sboff >> 10)) << 10\<close>, in 32 bits before it is stored in a \<open>UINT64\<close>.\<close>

definition magic_offset :: "FS_IDMAG \<Rightarrow> u64" where
  "magic_offset m = ucast (push_bit 10 (kboff m + drop_bit 10 (sboff m)))"

definition magic_matches :: "FS_IDMAG \<Rightarrow> u8 list \<Rightarrow> bool" where
  "magic_matches m Buffer \<longleftrightarrow>
    take (unat (magic_len m)) (drop (unat (sboff m AND 0x3ff)) Buffer) = take (unat (magic_len m)) (magic m)"

primrec disk_magics :: "(u64 \<Rightarrow> UINTN \<Rightarrow> EFI_STATUS \<times> u8 list) \<Rightarrow> FS_IDMAG list \<Rightarrow> bool" where
  "disk_magics ReadDisk [] = False"
| "disk_magics ReadDisk (m # ms) =
    (let (Status, Buffer) = ReadDisk (magic_offset m) 1024
     in if EFI_ERROR Status then disk_magics ReadDisk ms
        else if magic_matches m Buffer then True
        else disk_magics ReadDisk ms)"

primrec disk_infos ::
  "(u64 \<Rightarrow> UINTN \<Rightarrow> EFI_STATUS \<times> u8 list) \<Rightarrow> FS_IDINFO list \<Rightarrow> EFI_STATUS \<times> string option" where
  "disk_infos ReadDisk [] = (EFI_NOT_FOUND, None)"
| "disk_infos ReadDisk (i # is) =
    (if disk_magics ReadDisk (Magics i) then (EFI_SUCCESS, Some (Name i)) else disk_infos ReadDisk is)"

definition GetFsType ::
  "(u32 \<Rightarrow> u64 \<Rightarrow> UINTN \<Rightarrow> EFI_STATUS \<times> u8 list) \<Rightarrow> u32 \<Rightarrow> EFI_STATUS \<times> string option" where
  "GetFsType ReadDisk media = disk_infos (ReadDisk media) FsIdInfos"

definition overwrite :: "u8 list \<Rightarrow> u8 list \<Rightarrow> u8 list" where
  "overwrite Buffer bs = (let bs = take (length Buffer) bs in bs @ drop (length bs) Buffer)"

primrec file_magics ::
  "'s lkl \<Rightarrow> INTN \<Rightarrow> FS_IDMAG list \<Rightarrow> u8 list \<Rightarrow> 's world \<Rightarrow> bool \<times> u8 list \<times> 's world" where
  "file_magics K fd [] Buffer w = (False, Buffer, w)"
| "file_magics K fd (m # ms) Buffer w =
    (let (off, w) = sys_lseek K fd (magic_offset m) LKL_SEEK_SET w
     in if neg (ucast off) then file_magics K fd ms Buffer w
        else let (Ret, bs, w) = sys_read K fd 1024 w;
                 Buffer = overwrite Buffer bs
             in if neg Ret then file_magics K fd ms Buffer w
                else if magic_matches m Buffer then (True, Buffer, w)
                else file_magics K fd ms Buffer w)"

primrec file_infos ::
  "'s lkl \<Rightarrow> INTN \<Rightarrow> FS_IDINFO list \<Rightarrow> u8 list \<Rightarrow> 's world \<Rightarrow> EFI_STATUS \<times> string option \<times> 's world" where
  "file_infos K fd [] Buffer w = (EFI_NOT_FOUND, None, w)"
| "file_infos K fd (i # is) Buffer w =
    (let (found, Buffer, w) = file_magics K fd (Magics i) Buffer w
     in if found then (EFI_SUCCESS, Some (Name i), w) else file_infos K fd is Buffer w)"

definition GetFsTypeLKL ::
  "'s lkl \<Rightarrow> string \<Rightarrow> u8 list \<Rightarrow> 's world \<Rightarrow> EFI_STATUS \<times> string option \<times> 's world" where
  "GetFsTypeLKL K Path Buffer w =
    (let (fd, w) = sys K (Sys_open Path LKL_O_RDONLY 0) w
     in if neg fd then (LKLError2EfiError fd, None, w)
        else let (Status, ty, w) = file_infos K fd FsIdInfos Buffer w
             in (Status, ty, snd (sys K (Sys_close fd) w)))"

section \<open>Facts\<close>

text \<open>Every magic lies inside the buffer that is read for it.\<close>

lemma magic_in_buffer:
  "list_all (\<lambda>i. list_all (\<lambda>m. unat (sboff m AND 0x3ff) + unat (magic_len m) \<le> 1024
     \<and> unat (magic_len m) = length (magic m)) (Magics i)) FsIdInfos"
  by code_simp

text \<open>A disk image, read without errors.\<close>

definition read_image :: "(u64 \<Rightarrow> u8) \<Rightarrow> u32 \<Rightarrow> u64 \<Rightarrow> UINTN \<Rightarrow> EFI_STATUS \<times> u8 list" where
  "read_image img media off n = (EFI_SUCCESS, map (\<lambda>i. img (off + word_of_nat i)) [0..<unat n])"

text \<open>What a recognised image looks like.\<close>

definition ext4_image :: "(u64 \<Rightarrow> u8) \<Rightarrow> bool" where
  "ext4_image img \<longleftrightarrow> img 0x438 = 0x53 \<and> img 0x439 = 0xEF"

definition ntfs_image :: "(u64 \<Rightarrow> u8) \<Rightarrow> bool" where
  "ntfs_image img \<longleftrightarrow> map (\<lambda>i. img (3 + word_of_nat i)) [0..<8]
     = [0x4E, 0x54, 0x46, 0x53, 0x20, 0x20, 0x20, 0x20]"

definition f2fs_image :: "(u64 \<Rightarrow> u8) \<Rightarrow> bool" where
  "f2fs_image img \<longleftrightarrow> map (\<lambda>i. img (0x400 + word_of_nat i)) [0..<4] = [0x10, 0x20, 0xF5, 0xF2]"

definition image_type :: "(u64 \<Rightarrow> u8) \<Rightarrow> string option" where
  "image_type img = (if ext4_image img then Some ''ext4'' else if ntfs_image img then Some ''ntfs''
     else if f2fs_image img then Some ''f2fs'' else None)"

definition window :: "(u64 \<Rightarrow> u8) \<Rightarrow> u64 \<Rightarrow> u8 list" where
  "window img off = map (\<lambda>i. img (off + word_of_nat i)) [0..<1024]"

lemma window_slice:
  "p + n \<le> 1024 \<Longrightarrow> take n (drop p (window img off)) = map (\<lambda>i. img (off + word_of_nat (p + i))) [0..<n]"
  by (rule nth_equalityI) (auto simp: window_def)

lemma read_image_window: "read_image img M off 1024 = (EFI_SUCCESS, window img off)"
  by (simp add: read_image_def window_def)

lemma matches_window:
  "magic_matches (hd (Magics IdInfoExt)) (window img (magic_offset (hd (Magics IdInfoExt)))) = ext4_image img"
  "magic_matches (hd (Magics IdInfoNTFS)) (window img (magic_offset (hd (Magics IdInfoNTFS)))) = ntfs_image img"
  "magic_matches (hd (Magics IdInfoF2FS)) (window img (magic_offset (hd (Magics IdInfoF2FS)))) = f2fs_image img"
  by (simp_all add: magic_matches_def IdInfoExt_def IdInfoNTFS_def IdInfoF2FS_def magic_offset_def
      window_slice window_slice [of 0, simplified] ext4_image_def ntfs_image_def f2fs_image_def upt_rec)

lemma single_magic:
  "Magics IdInfoExt = [hd (Magics IdInfoExt)]" "Magics IdInfoNTFS = [hd (Magics IdInfoNTFS)]"
  "Magics IdInfoF2FS = [hd (Magics IdInfoF2FS)]"
  by (simp_all add: IdInfoExt_def IdInfoNTFS_def IdInfoF2FS_def)

lemma GetFsType_image:
  "GetFsType (read_image img) media =
    (case image_type img of None \<Rightarrow> (EFI_NOT_FOUND, None) | Some t \<Rightarrow> (EFI_SUCCESS, Some t))"
proof -
  have 1: "disk_magics (read_image img media) (Magics IdInfoExt) = ext4_image img"
    by (subst single_magic) (simp add: read_image_window matches_window)
  have 2: "disk_magics (read_image img media) (Magics IdInfoNTFS) = ntfs_image img"
    by (subst single_magic) (simp add: read_image_window matches_window)
  have 3: "disk_magics (read_image img media) (Magics IdInfoF2FS) = f2fs_image img"
    by (subst single_magic) (simp add: read_image_window matches_window)
  show ?thesis
    by (simp add: GetFsType_def FsIdInfos_def 1 2 3 image_type_def)
      (simp add: IdInfoExt_def IdInfoNTFS_def IdInfoF2FS_def)
qed

section \<open>The probe of a block device\<close>

text \<open>The calls of a probe on its descriptor.\<close>

fun probe_call :: "INTN \<Rightarrow> sys_call \<Rightarrow> bool" where
  "probe_call fd (Sys_lseek fd' off wh) \<longleftrightarrow> fd' = fd"
| "probe_call fd (Sys_read fd' n) \<longleftrightarrow> fd' = fd"
| "probe_call fd c \<longleftrightarrow> False"

lemma file_magics_log:
  "file_magics K fd ms Buffer w = (found, Buffer', w') \<Longrightarrow>
    live w' = live w \<and> (\<exists>cs. log w' = log w @ cs \<and> list_all (\<lambda>c. probe_call fd (fst c)) cs)"
proof (induction ms arbitrary: Buffer w)
  case Nil
  then show ?case by auto
next
  case (Cons m ms)
  obtain off w1 where l: "sys_lseek K fd (magic_offset m) LKL_SEEK_SET w = (off, w1)" by fastforce
  note lp = sys_lseek_pair [OF l]
  show ?case
  proof (cases "neg (ucast off :: INTN)")
    case True
    then have "file_magics K fd ms Buffer w1 = (found, Buffer', w')" using Cons.prems l by simp
    from Cons.IH [OF this] lp show ?thesis by force
  next
    case False
    obtain r bs w2 where rd: "sys_read K fd 1024 w1 = (r, bs, w2)" by (metis prod_cases3)
    note rp = sys_read_pair [OF rd]
    show ?thesis
    proof (cases "w' = w2")
      case True
      then show ?thesis using lp rp by auto
    next
      case no: False
      then have "file_magics K fd ms (overwrite Buffer bs) w2 = (found, Buffer', w')"
        using Cons.prems l rd False by (auto simp: Let_def split: if_splits)
      from Cons.IH [OF this] lp rp show ?thesis by force
    qed
  qed
qed

lemma file_infos_log:
  "file_infos K fd is Buffer w = (S, ty, w') \<Longrightarrow>
    live w' = live w \<and> (S = EFI_SUCCESS \<longleftrightarrow> ty \<noteq> None) \<and> (ty = None \<longrightarrow> S = EFI_NOT_FOUND)
    \<and> (\<exists>cs. log w' = log w @ cs \<and> list_all (\<lambda>c. probe_call fd (fst c)) cs)"
proof (induction "is" arbitrary: Buffer w)
  case Nil
  then show ?case by auto
next
  case (Cons i "is")
  obtain found B w1 where m: "file_magics K fd (Magics i) Buffer w = (found, B, w1)" by (metis prod_cases3)
  note mp = file_magics_log [OF m]
  show ?case
  proof (cases found)
    case True
    then show ?thesis using Cons.prems m mp by auto
  next
    case False
    then have "file_infos K fd is B w1 = (S, ty, w')" using Cons.prems m by simp
    from Cons.IH [OF this] mp show ?thesis by force
  qed
qed

lemma GetFsTypeLKL_log:
  assumes "GetFsTypeLKL K p Buffer w = (S, ty, w')"
  shows "live w' = live w \<and> (ty = None \<longrightarrow> EFI_ERROR S) \<and> (ty \<noteq> None \<longrightarrow> S = EFI_SUCCESS)
    \<and> (\<exists>fd. neg fd \<and> log w' = log w @ [(Sys_open p LKL_O_RDONLY 0, fd)]
       \<or> (\<exists>cs r. list_all (\<lambda>c. probe_call fd (fst c)) cs
            \<and> log w' = log w @ (Sys_open p LKL_O_RDONLY 0, fd) # cs @ [(Sys_close fd, r)]))"
proof -
  obtain fd w1 where o: "sys K (Sys_open p LKL_O_RDONLY 0) w = (fd, w1)" by fastforce
  note op = sys_pair [OF o]
  show ?thesis
  proof (cases "neg fd")
    case True
    have "fd \<noteq> 0" using True by (auto simp: neg_def)
    then show ?thesis using True o op assms LKLError2EfiError_error by (auto simp: GetFsTypeLKL_def)
  next
    case False
    obtain S1 ty1 w2 where f: "file_infos K fd FsIdInfos Buffer w1 = (S1, ty1, w2)" by (metis prod_cases3)
    then show ?thesis using file_infos_log [OF f] False o op assms
      by (auto simp: GetFsTypeLKL_def)
  qed
qed

text \<open>A kernel that serves the bytes of an image through a descriptor, with \<open>pos\<close> the file position.\<close>

definition serves :: "'s lkl \<Rightarrow> INTN \<Rightarrow> (u64 \<Rightarrow> u8) \<Rightarrow> ('s \<Rightarrow> u64) \<Rightarrow> bool" where
  "serves K fd img pos \<longleftrightarrow>
    (\<forall>s off. off < 0x80000000 \<longrightarrow> fst (k_lseek K fd off LKL_SEEK_SET s) = off
       \<and> pos (snd (k_lseek K fd off LKL_SEEK_SET s)) = off)
    \<and> (\<forall>s. fst (k_read K fd 1024 s) = 1024 \<and> fst (snd (k_read K fd 1024 s)) = window img (pos s))"

lemma window_length [simp]: "length (window img off) = 1024"
  by (simp add: window_def)

lemma overwrite_length [simp]: "length (overwrite Buffer bs) = length Buffer"
  by (simp add: overwrite_def Let_def)

lemma overwrite_full: "length bs = length Buffer \<Longrightarrow> overwrite Buffer bs = bs"
  by (simp add: overwrite_def)

lemma single_magic_facts:
  assumes "i \<in> {IdInfoExt, IdInfoNTFS, IdInfoF2FS}"
  shows "\<not> neg (ucast (magic_offset (hd (Magics i))) :: INTN)" "magic_offset (hd (Magics i)) < 0x80000000"
  using assms by (auto simp: IdInfoExt_def IdInfoNTFS_def IdInfoF2FS_def magic_offset_def neg_def)

lemma file_magics_image:
  assumes "serves K fd img pos" "length Buffer = 1024" "i \<in> {IdInfoExt, IdInfoNTFS, IdInfoF2FS}"
  shows "\<exists>B w'. file_magics K fd [hd (Magics i)] Buffer w =
      (magic_matches (hd (Magics i)) (window img (magic_offset (hd (Magics i)))), B, w') \<and> length B = 1024"
proof -
  let ?m = "hd (Magics i)"
  note f = single_magic_facts [OF assms(3)]
  obtain off w1 where l: "sys_lseek K fd (magic_offset ?m) LKL_SEEK_SET w = (off, w1)" by fastforce
  have off: "off = magic_offset ?m" "pos (linux w1) = magic_offset ?m"
    using assms(1) f(2) l by (auto simp: serves_def sys_lseek_def split_beta)
  obtain r bs w2 where rd: "sys_read K fd 1024 w1 = (r, bs, w2)" by (metis prod_cases3)
  have bs: "r = 1024" "bs = window img (magic_offset ?m)"
    using assms(1) rd off by (auto simp: serves_def sys_read_def split_beta)
  have "\<not> neg (1024 :: INTN)" by (simp add: neg_def)
  then show ?thesis using l rd off f(1) bs assms(2) by (simp add: overwrite_full Let_def)
qed

lemma file_infos_image:
  assumes "serves K fd img pos" "length Buffer = 1024"
  shows "fst (file_infos K fd FsIdInfos Buffer w) = fst (GetFsType (read_image img) media)"
    and "fst (snd (file_infos K fd FsIdInfos Buffer w)) = snd (GetFsType (read_image img) media)"
proof -
  note im = file_magics_image [OF assms(1), folded single_magic]
  obtain B1 w1 where 1: "file_magics K fd (Magics IdInfoExt) Buffer w = (ext4_image img, B1, w1)" "length B1 = 1024"
    using im [of Buffer IdInfoExt w] assms(2) by (auto simp: matches_window simp flip: single_magic)
  obtain B2 w2 where 2: "file_magics K fd (Magics IdInfoNTFS) B1 w1 = (ntfs_image img, B2, w2)" "length B2 = 1024"
    using im [of B1 IdInfoNTFS w1] 1 by (auto simp: matches_window simp flip: single_magic)
  obtain B3 w3 where 3: "file_magics K fd (Magics IdInfoF2FS) B2 w2 = (f2fs_image img, B3, w3)"
    using im [of B2 IdInfoF2FS w2] 2 by (auto simp: matches_window simp flip: single_magic)
  have "Name IdInfoExt = ''ext4''" "Name IdInfoNTFS = ''ntfs''" "Name IdInfoF2FS = ''f2fs''"
    by (simp_all add: IdInfoExt_def IdInfoNTFS_def IdInfoF2FS_def)
  then show "fst (file_infos K fd FsIdInfos Buffer w) = fst (GetFsType (read_image img) media)"
    "fst (snd (file_infos K fd FsIdInfos Buffer w)) = snd (GetFsType (read_image img) media)"
    by (simp_all add: FsIdInfos_def 1 2 3 GetFsType_image image_type_def)
qed

end
