(* ===== verification/Dm_Crypt.thy ===== *)
theory Dm_Crypt imports Files begin

text \<open>
  The encrypted volumes (\<open>dmcrypt.c\<close>): a dm-crypt device is created through the device mapper's
  control node, given a node under \<open>/dev/block\<close>, loaded with a mapping table that holds the key in
  hexadecimal, and resumed.

  The 4096-byte request buffer lies on the stack at the address \<open>buffer\<close>, an argument, because the
  offset of the next target is computed from absolute addresses. The value \<open>None\<close> is a write past
  the end of a buffer: of the 129 bytes for the hexadecimal key or of the request.
\<close>

section \<open>Requests\<close>

definition DM_CRYPT_BUF_SIZE :: u32 where "DM_CRYPT_BUF_SIZE = 4096"
definition TABLE_LOAD_RETRIES :: nat where "TABLE_LOAD_RETRIES = 10"
definition DEVMAPPER_CONTROL_FILE :: string where "DEVMAPPER_CONTROL_FILE = ''/dev/device-mapper''"
definition SIZE_OF_dm_ioctl :: u32 where "SIZE_OF_dm_ioctl = 312"
definition SIZE_OF_dm_target_spec :: u32 where "SIZE_OF_dm_target_spec = 40"

text \<open>\<open>struct crypt_mnt_ftr\<close>.\<close>

record crypt_mnt_ftr =
  ftr_flags :: u32
  keysize :: u32
  fs_size :: u64
  crypto_type_name :: string

definition ioctl_init :: "u32 \<Rightarrow> string \<Rightarrow> u32 \<Rightarrow> dm_ioctl" where
  "ioctl_init dataSize name flags =
    \<lparr>dm_version = [4, 0, 0], data_size = dataSize, data_start = SIZE_OF_dm_ioctl, target_count = 0,
     open_count = 0, dm_flags = flags, event_nr = 0, dm_dev = 0, dm_name = take 128 name, dm_uuid = []\<rparr>"

text \<open>
  \<open>get_blkdev_size\<close>: only the return value -1 counts as a failure; after any other one the variable's
  content is returned.
\<close>

definition get_blkdev_size :: "'s lkl \<Rightarrow> INTN \<Rightarrow> 's world \<Rightarrow> u32 \<times> 's world" where
  "get_blkdev_size K fd w =
    (let (r, nr_sec, w) = sys_ioctl K fd LKL_BLKGETSIZE w in (if r = -1 then 0 else ucast nr_sec, w))"

section \<open>The key in hexadecimal\<close>

definition hex_digit :: "u8 \<Rightarrow> char" where
  "hex_digit nibble = char_of (unat (nibble + (if nibble > 9 then 0x37 else 0x30)))"

function hex_loop :: "u8 list \<Rightarrow> nat \<Rightarrow> nat \<Rightarrow> string \<Rightarrow> string" where
  "hex_loop master_key n i ascii =
    (if i < n then
       hex_loop master_key n (i + 1)
         (ascii @ [hex_digit (drop_bit 4 (master_key ! i) AND 0xf), hex_digit (master_key ! i AND 0xf)])
     else ascii)"
  by pat_completeness auto
termination by (relation "measure (\<lambda>(key, n, i, ascii). n - i)") auto

declare hex_loop.simps [simp del]

definition convert_key_to_hex_ascii :: "u8 list \<Rightarrow> nat \<Rightarrow> string" where
  "convert_key_to_hex_ascii master_key n = hex_loop master_key n 0 []"

section \<open>The mapping table\<close>

text \<open>\<open>(p + 7) & ~8\<close> on the address behind the parameters, and its distance from the buffer.\<close>

definition next_offset :: "u32 \<Rightarrow> u32 \<Rightarrow> u32" where
  "next_offset buffer off = ((buffer + off + 7) AND NOT 8) - buffer"

definition crypt_params :: "string \<Rightarrow> string \<Rightarrow> string \<Rightarrow> string \<Rightarrow> string" where
  "crypt_params ty key_ascii real_blk_name extra_params =
    ty @ '' '' @ key_ascii @ '' 0 '' @ real_blk_name @ '' 0 '' @ extra_params"

text \<open>The retries: the number of the attempt that succeeded, or \<open>None\<close> after the last one.\<close>

function load_loop :: "'s lkl \<Rightarrow> INTN \<Rightarrow> ioctl \<Rightarrow> nat \<Rightarrow> 's world \<Rightarrow> nat option \<times> 's world" where
  "load_loop K fd req i w =
    (if i < TABLE_LOAD_RETRIES then
       let (r, _, w) = sys_ioctl K fd req w
       in if r = 0 then (Some (i + 1), w) else load_loop K fd req (i + 1) w
     else (None, w))"
  by pat_completeness auto
termination by (relation "measure (\<lambda>(K, fd, req, i, w). TABLE_LOAD_RETRIES - i)") auto

declare load_loop.simps [simp del]

definition load_crypto_mapping_table ::
  "'s lkl \<Rightarrow> u32 \<Rightarrow> crypt_mnt_ftr \<Rightarrow> u8 list \<Rightarrow> string \<Rightarrow> string \<Rightarrow> INTN \<Rightarrow> string \<Rightarrow> 's world
    \<Rightarrow> (nat option \<times> 's world) option" where
  "load_crypto_mapping_table K buffer ftr master_key real_blk_name name fd extra_params w =
    (let io = (ioctl_init DM_CRYPT_BUF_SIZE name 0)\<lparr>target_count := 1\<rparr>
     in if 2 * unat (keysize ftr) + 1 > 129 then None
        else
          let params = crypt_params (crypto_type_name ftr)
                (convert_key_to_hex_ascii master_key (unat (keysize ftr))) real_blk_name extra_params;
              start = SIZE_OF_dm_ioctl + SIZE_OF_dm_target_spec
          in if unat start + length params + 1 > unat DM_CRYPT_BUF_SIZE then None
             else
               let tgt = \<lparr>sector_start = 0, tgt_length = fs_size ftr, tgt_status = 0,
                          tgt_next = next_offset buffer (start + word_of_nat (length params + 1)),
                          target_type = ''crypt''\<rparr>
               in Some (load_loop K fd (LKL_DM_TABLE_LOAD io tgt params) 0 w))"

section \<open>Creating and deleting the device\<close>

fun decimal :: "nat \<Rightarrow> string" where
  "decimal n = (if n < 10 then [char_of (48 + n)] else decimal (n div 10) @ [char_of (48 + n mod 10)])"

declare decimal.simps [simp del]

definition dm_minor :: "u64 \<Rightarrow> u32" where
  "dm_minor dev = ucast ((dev AND 0xff) OR (drop_bit 12 dev AND 0xfff00))"

text \<open>The path that the error exits take: close the control node, also when its open failed.\<close>

definition errout :: "'s lkl \<Rightarrow> INTN \<Rightarrow> INTN \<Rightarrow> string option \<Rightarrow> 's world
    \<Rightarrow> (INTN \<times> string option \<times> 's world) option" where
  "errout K fd retval blk w = Some (retval, blk, snd (sys K (Sys_close fd) w))"

text \<open>
  The second half of \<open>create_crypto_blk_dev\<close>: load the table and resume the device. \<open>retval\<close> is what
  \<open>mknod\<close> returned.
\<close>

definition activate_crypto_dev ::
  "'s lkl \<Rightarrow> u32 \<Rightarrow> crypt_mnt_ftr \<Rightarrow> u8 list \<Rightarrow> string \<Rightarrow> string \<Rightarrow> INTN \<Rightarrow> INTN \<Rightarrow> string \<Rightarrow> 's world
    \<Rightarrow> (INTN \<times> string option \<times> 's world) option" where
  "activate_crypto_dev K buffer ftr master_key real_blk_name name fd retval blk w =
    (case load_crypto_mapping_table K buffer ftr master_key real_blk_name name fd [] w of
       None \<Rightarrow> None
     | Some (None, w) \<Rightarrow> errout K fd retval (Some blk) w
     | Some (Some load_count, w) \<Rightarrow>
         let (r, _, w) = sys_ioctl K fd (LKL_DM_DEV_SUSPEND (ioctl_init DM_CRYPT_BUF_SIZE name 0)) w
         in if r \<noteq> 0 then errout K fd retval (Some blk) w else errout K fd 0 (Some blk) w)"

definition create_crypto_blk_dev ::
  "'s lkl \<Rightarrow> u32 \<Rightarrow> crypt_mnt_ftr \<Rightarrow> u8 list \<Rightarrow> string \<Rightarrow> string \<Rightarrow> 's world
    \<Rightarrow> (INTN \<times> string option \<times> 's world) option" where
  "create_crypto_blk_dev K buffer ftr master_key real_blk_name name w =
    (let (fd, w) = sys K (Sys_open DEVMAPPER_CONTROL_FILE LKL_O_RDWR 0) w
     in if neg fd then errout K fd (-1) None w
        else
     let io = ioctl_init DM_CRYPT_BUF_SIZE name 0;
         (r, _, w) = sys_ioctl K fd (LKL_DM_DEV_CREATE io) w
     in if r \<noteq> 0 then errout K fd (-1) None w
        else
     let (r, dev, w) = sys_ioctl K fd (LKL_DM_DEV_STATUS io) w
     in if r \<noteq> 0 then errout K fd (-1) None w
        else
     let blk = ''/dev/block/dm-'' @ decimal (unat (dm_minor dev));
         (retval, w) = sys K (Sys_mknod blk (LKL_S_IFBLK OR 0x180) (ucast dev)) w
     in if retval \<noteq> 0 \<and> retval \<noteq> - EEXIST then errout K fd retval (Some blk) w
        else activate_crypto_dev K buffer ftr master_key real_blk_name name fd retval blk w)"

definition cryptfs_setup_ext_volume ::
  "'s lkl \<Rightarrow> u32 \<Rightarrow> string \<Rightarrow> string \<Rightarrow> u8 list \<Rightarrow> u32 \<Rightarrow> 's world
    \<Rightarrow> (INTN \<times> string option \<times> 's world) option" where
  "cryptfs_setup_ext_volume K buffer label real_blkdev key n w =
    (let (fd, w) = sys K (Sys_open real_blkdev (LKL_O_RDONLY OR LKL_O_CLOEXEC) 0) w
     in if fd = -1 then Some (-1, None, w)
        else
          let (nr_sec, w) = get_blkdev_size K fd w;
              (_, w) = sys K (Sys_close fd) w
          in if nr_sec = 0 then Some (-1, None, w)
             else
               let ftr = \<lparr>ftr_flags = 0, keysize = n, fs_size = ucast nr_sec,
                          crypto_type_name = ''aes-cbc-essiv:sha256''\<rparr>
               in create_crypto_blk_dev K buffer ftr key real_blkdev label w)"

definition delete_crypto_blk_dev :: "'s lkl \<Rightarrow> string \<Rightarrow> 's world \<Rightarrow> INTN \<times> 's world" where
  "delete_crypto_blk_dev K name w =
    (let (fd, w) = sys K (Sys_open DEVMAPPER_CONTROL_FILE LKL_O_RDWR 0) w
     in if neg fd then (-1, snd (sys K (Sys_close fd) w))
        else
          let io = ioctl_init DM_CRYPT_BUF_SIZE name 0;
              (r, _, w) = sys_ioctl K fd (LKL_DM_DEV_REMOVE io) w
          in if r \<noteq> 0 then (-1, snd (sys K (Sys_close fd) w))
             else (0, snd (sys K (Sys_close fd) w)))"

definition cryptfs_revert_ext_volume :: "'s lkl \<Rightarrow> string \<Rightarrow> 's world \<Rightarrow> INTN \<times> 's world" where
  "cryptfs_revert_ext_volume K label w = delete_crypto_blk_dev K label w"

section \<open>Facts\<close>

lemma hex_loop_eq: "i \<le> n \<Longrightarrow> hex_loop key n i ascii =
    ascii @ concat (map (\<lambda>j. [hex_digit (drop_bit 4 (key ! j) AND 0xf), hex_digit (key ! j AND 0xf)]) [i..<n])"
proof (induction key n i ascii rule: hex_loop.induct)
  case (1 key n i ascii)
  show ?case
  proof (cases "i < n")
    case True
    then show ?thesis using 1 by (subst hex_loop.simps) (simp add: upt_conv_Cons)
  next
    case False
    then show ?thesis using 1 by (subst hex_loop.simps) simp
  qed
qed

lemma convert_key_eq: "convert_key_to_hex_ascii key n =
    concat (map (\<lambda>j. [hex_digit (drop_bit 4 (key ! j) AND 0xf), hex_digit (key ! j AND 0xf)]) [0..<n])"
  by (simp add: convert_key_to_hex_ascii_def hex_loop_eq)

lemma convert_key_length: "length (convert_key_to_hex_ascii key n) = 2 * n"
  by (simp add: convert_key_eq length_concat sum_list_triv comp_def)

text \<open>Reading the digits back.\<close>

definition hex_value :: "char \<Rightarrow> u8" where
  "hex_value c = (let v = word_of_nat (of_char c) in if v < 0x40 then v - 0x30 else v - 0x37)"

fun read_hex :: "string \<Rightarrow> u8 list" where
  "read_hex (a # b # cs) = (push_bit 4 (hex_value a) OR hex_value b) # read_hex cs"
| "read_hex _ = []"

lemma hex_value_digit:
  assumes "n < 16"
  shows "hex_value (hex_digit n) = n"
proof -
  let ?v = "n + (if n > 9 then 0x37 else 0x30)"
  have n: "unat n < 16" using assms by (simp add: word_less_nat_alt)
  then have v: "unat ?v = unat n + (if 9 < unat n then 0x37 else 0x30)"
    by (simp add: unat_word_ariths word_less_nat_alt)
  have "unat ?v mod 256 = unat ?v" using v n by simp
  then have "word_of_nat (of_char (hex_digit n)) = ?v"
    by (simp add: hex_digit_def del: unat_plus_if')
  moreover have "?v < 0x40 \<longleftrightarrow> \<not> n > 9" using v n by (simp add: word_less_nat_alt split: if_splits)
  ultimately show ?thesis by (simp add: hex_value_def Let_def)
qed

lemma nibbles:
  fixes b :: u8
  shows "drop_bit 4 b AND 0xf < 16" "b AND 0xf < 16"
    "push_bit 4 (drop_bit 4 b AND 0xf) OR (b AND 0xf) = b"
proof -
  have mask: "(0xf :: u8) = mask 4" by (simp add: mask_eq_exp_minus_1)
  show "b AND 0xf < 16" "drop_bit 4 b AND 0xf < 16"
    unfolding mask by (simp_all add: and_mask_less_size [where n = 4, simplified] word_size)
  show "push_bit 4 (drop_bit 4 b AND 0xf) OR (b AND 0xf) = b"
    unfolding mask by (rule bit_word_eqI) (auto simp: bit_simps)
qed

lemma read_hex_convert: "read_hex (convert_key_to_hex_ascii key (length key)) = key"
proof -
  have "read_hex (concat (map (\<lambda>b. [hex_digit (drop_bit 4 b AND 0xf), hex_digit (b AND 0xf)]) bs)) = bs" for bs
    by (induction bs) (simp_all add: hex_value_digit nibbles nibbles(3) [simplified])
  from this [of key] show ?thesis
    by (simp add: convert_key_eq) (metis (no_types, lifting) map_nth map_map comp_apply map_cong)
qed

section \<open>What the routines leave in the log\<close>

lemma load_loop_log:
  assumes "load_loop K fd req i w = (r, w')" "i \<le> TABLE_LOAD_RETRIES"
  shows "live w' = live w \<and> (\<exists>cs. log w' = log w @ cs \<and> list_all (\<lambda>c. fst c = Sys_ioctl fd req) cs
    \<and> (case r of None \<Rightarrow> length cs = TABLE_LOAD_RETRIES - i \<and> list_all (\<lambda>c. snd c \<noteq> 0) cs
       | Some n \<Rightarrow> n = i + length cs \<and> n \<le> TABLE_LOAD_RETRIES \<and> cs \<noteq> [] \<and> snd (last cs) = 0
           \<and> list_all (\<lambda>c. snd c \<noteq> 0) (butlast cs)))"
  using assms
proof (induction K fd req i w rule: load_loop.induct)
  case (1 K fd req i w)
  show ?case
  proof (cases "i < TABLE_LOAD_RETRIES")
    case False
    then show ?thesis using "1.prems" by (subst (asm) load_loop.simps) auto
  next
    case True
    obtain v u w1 where io: "sys_ioctl K fd req w = (v, u, w1)" by (metis prod_cases3)
    note p = sys_ioctl_pair [OF io]
    show ?thesis
    proof (cases "v = 0")
      case v: True
      then have "r = Some (i + 1)" "w' = w1" using "1.prems" True io by (subst (asm) load_loop.simps; simp)+
      then show ?thesis using p v True by auto
    next
      case False
      then have rest: "load_loop K fd req (i + 1) w1 = (r, w')"
        using "1.prems" True io by (subst (asm) load_loop.simps) simp
      from "1.IH" [OF True io [symmetric] refl refl False rest] True obtain cs where cs: "live w' = live w1" "log w' = log w1 @ cs"
        "list_all (\<lambda>c. fst c = Sys_ioctl fd req) cs"
        "case r of None \<Rightarrow> length cs = TABLE_LOAD_RETRIES - (i + 1) \<and> list_all (\<lambda>c. snd c \<noteq> 0) cs
           | Some n \<Rightarrow> n = (i + 1) + length cs \<and> n \<le> TABLE_LOAD_RETRIES \<and> cs \<noteq> [] \<and> snd (last cs) = 0
           \<and> list_all (\<lambda>c. snd c \<noteq> 0) (butlast cs)" by auto
      then show ?thesis using p False True
        by (intro conjI exI [of _ "(Sys_ioctl fd req, v) # cs"]) (auto split: option.splits)
    qed
  qed
qed

text \<open>The calls that do not create a node: what the routines do around the one \<open>mknod\<close>.\<close>

fun is_mknod :: "sys_call \<Rightarrow> bool" where
  "is_mknod (Sys_mknod p m v) \<longleftrightarrow> True"
| "is_mknod c \<longleftrightarrow> False"

lemma errout_eq: "errout K fd r blk w = Some (r, blk, snd (sys K (Sys_close fd) w))"
  by (simp add: errout_def)

lemma load_table_log:
  assumes "load_crypto_mapping_table K buffer ftr key blk name fd ex w = Some (r, w')"
  shows "live w' = live w \<and> (\<exists>cs. log w' = log w @ cs \<and> list_all (\<lambda>c. \<not> is_mknod (fst c)) cs)"
proof -
  from assms obtain req where "load_loop K fd req 0 w = (r, w')"
    by (auto simp: load_crypto_mapping_table_def Let_def split: if_splits)
  from load_loop_log [OF this] obtain cs where "live w' = live w" "log w' = log w @ cs"
    "list_all (\<lambda>c. fst c = Sys_ioctl fd req) cs" by auto
  then show ?thesis by (auto simp: list_all_iff)
qed

lemma activate_result:
  assumes "activate_crypto_dev K buffer ftr key blk name fd rv nd w = Some (r, b, w')"
  obtains cs c where "log w' = log w @ cs @ [(Sys_close fd, c)]" "live w' = live w" "r = rv \<or> r = 0"
    "list_all (\<lambda>c. \<not> is_mknod (fst c)) cs"
proof -
  obtain ld w5 where l: "load_crypto_mapping_table K buffer ftr key blk name fd [] w = Some (ld, w5)"
    using assms by (auto simp: activate_crypto_dev_def split: option.splits)
  obtain cs where cs: "live w5 = live w" "log w5 = log w @ cs" "list_all (\<lambda>c. \<not> is_mknod (fst c)) cs"
    using load_table_log [OF l] by auto
  show ?thesis
  proof (cases ld)
    case None
    then have "r = rv" "w' = snd (sys K (Sys_close fd) w5)"
      using assms l by (auto simp: activate_crypto_dev_def errout_eq)
    then show ?thesis using that [of cs] cs by auto
  next
    case (Some n)
    let ?req = "LKL_DM_DEV_SUSPEND (ioctl_init DM_CRYPT_BUF_SIZE name 0)"
    obtain r6 u6 w6 where u: "sys_ioctl K fd ?req w5 = (r6, u6, w6)" by (metis prod_cases3)
    note up = sys_ioctl_pair [OF u]
    have "r = (if r6 \<noteq> 0 then rv else 0)" "w' = snd (sys K (Sys_close fd) w6)"
      using assms l Some u by (auto simp: activate_crypto_dev_def errout_eq split: if_splits)
    then show ?thesis using that [of "cs @ [(Sys_ioctl fd ?req, r6)]"] cs up by auto
  qed
qed

text \<open>
  The return value of \<open>create_crypto_blk_dev\<close> once its node has been made: 0, whatever happens to
  the table and to the resume afterwards.
\<close>

lemma create_crypto_result:
  assumes "create_crypto_blk_dev K buffer ftr key blk name w = Some (r, b, w')"
  obtains cs fd c where "log w' = log w @ (Sys_open DEVMAPPER_CONTROL_FILE LKL_O_RDWR 0, fd) # cs @ [(Sys_close fd, c)]"
    "live w' = live w"
    "\<And>p m v. (Sys_mknod p m v, 0) \<in> set cs \<Longrightarrow> r = 0"
    "r \<noteq> 0 \<Longrightarrow> r = -1 \<or> (\<exists>p m v. (Sys_mknod p m v, r) \<in> set cs)"
proof -
  obtain fd w1 where o: "sys K (Sys_open DEVMAPPER_CONTROL_FILE LKL_O_RDWR 0) w = (fd, w1)" by fastforce
  note op = sys_pair [OF o]
  let ?io = "ioctl_init DM_CRYPT_BUF_SIZE name 0"
  show ?thesis
  proof (cases "neg fd")
    case True
    then have "r = -1" "w' = snd (sys K (Sys_close fd) w1)"
      using assms o by (auto simp: create_crypto_blk_dev_def errout_eq)
    then show ?thesis using that [of fd "[]"] op by auto
  next
    case open_ok: False
    obtain r1 u1 w2 where c: "sys_ioctl K fd (LKL_DM_DEV_CREATE ?io) w1 = (r1, u1, w2)" by (metis prod_cases3)
    note cp = sys_ioctl_pair [OF c]
    obtain r2 dev w3 where s: "sys_ioctl K fd (LKL_DM_DEV_STATUS ?io) w2 = (r2, dev, w3)" by (metis prod_cases3)
    note sp = sys_ioctl_pair [OF s]
    define nd where "nd = ''/dev/block/dm-'' @ decimal (unat (dm_minor dev))"
    obtain r3 w4 where k: "sys K (Sys_mknod nd (LKL_S_IFBLK OR 0x180) (ucast dev)) w3 = (r3, w4)" by fastforce
    note kp = sys_pair [OF k]
    consider "r1 \<noteq> 0" | "r1 = 0" "r2 \<noteq> 0" | "r1 = 0" "r2 = 0" "r3 \<noteq> 0 \<and> r3 \<noteq> - EEXIST"
      | "r1 = 0" "r2 = 0" "r3 = 0 \<or> r3 = - EEXIST" by blast
    then show ?thesis
    proof cases
      case 1
      then have "r = -1" "w' = snd (sys K (Sys_close fd) w2)"
        using assms o open_ok c by (auto simp: create_crypto_blk_dev_def errout_eq)
      then show ?thesis using that [of fd "[(Sys_ioctl fd (LKL_DM_DEV_CREATE ?io), r1)]"] op cp by auto
    next
      case 2
      then have "r = -1" "w' = snd (sys K (Sys_close fd) w3)"
        using assms o open_ok c s by (auto simp: create_crypto_blk_dev_def errout_eq)
      then show ?thesis
        using that [of fd "[(Sys_ioctl fd (LKL_DM_DEV_CREATE ?io), r1), (Sys_ioctl fd (LKL_DM_DEV_STATUS ?io), r2)]"]
          op cp sp by auto
    next
      case 3
      then have "r = r3" "w' = snd (sys K (Sys_close fd) w4)"
        using assms o open_ok c s k by (auto simp: create_crypto_blk_dev_def errout_eq nd_def)
      then show ?thesis
        using that [of fd "[(Sys_ioctl fd (LKL_DM_DEV_CREATE ?io), r1), (Sys_ioctl fd (LKL_DM_DEV_STATUS ?io), r2),
          (Sys_mknod nd (LKL_S_IFBLK OR 0x180) (ucast dev), r3)]"] op cp sp kp 3 by auto
    next
      case 4
      then have no3: "\<not> (r3 \<noteq> 0 \<and> r3 \<noteq> - EEXIST)" by blast
      have act: "activate_crypto_dev K buffer ftr key blk name fd r3 nd w4 = Some (r, b, w')"
        using assms unfolding create_crypto_blk_dev_def o Let_def split
        by (simp only: open_ok if_False c s split 4(1,2) k [unfolded nd_def] no3 nd_def not_True_eq_False
            not_False_eq_True simp_thms if_True)
      show ?thesis
      proof (rule activate_result [OF act], goal_cases)
        case (1 cs c)
        let ?pre = "[(Sys_ioctl fd (LKL_DM_DEV_CREATE ?io), r1), (Sys_ioctl fd (LKL_DM_DEV_STATUS ?io), r2),
          (Sys_mknod nd (LKL_S_IFBLK OR 0x180) (ucast dev), r3)] @ cs"
        have nomk: "(Sys_mknod p m v, z) \<notin> set cs" for p m v z using 1(4) by (force simp: list_all_iff)
        show ?case using that [of fd ?pre c] op cp sp kp 1 nomk by auto
      qed
    qed
  qed
qed

end
