(* ===== verification/Uefi.thy ===== *)
theory Uefi imports Fs_Id Dm_Crypt begin

text \<open>
  The firmware around the driver: boot services and the protocols of other drivers are the fields of
  the record \<open>efi\<close>, functions that give the outcome of a call (where it depends on what was done
  before, of the trace of the calls made so far). The record \<open>drv\<close> holds the driver's own state: the
  Linux world, the trace \<open>uefi\<close>, the global lock \<open>LKLFsLock\<close> and the collation interface.

  On top of it: the lock (\<open>Misc.c\<close>), \<open>UnicodeCollation.c\<close>, \<open>ComponentName.c\<close> and
  \<open>GetFileFromAnyPartition\<close> (\<open>Misc.c\<close>).
\<close>

section \<open>Services\<close>

datatype protocol = Disk_io | Disk_io2 | Block_io | Simple_file_system

datatype attribute = By_driver | Get_protocol | Test_protocol

datatype efi_call =
    Open_protocol nat protocol attribute
  | Close_protocol nat protocol
  | Install_sfs nat
  | Uninstall_sfs nat
  | Open_root nat
  | Close_root nat
  | Open_file nat "u16 list"
  | Close_file nat
  | Install_binding
  | Uninstall_binding bool bool
  | Disconnect nat

text \<open>A node of a device path: a hard drive with its signature type and 16 signature bytes, or another.\<close>

datatype dp_node = Harddrive u8 "u8 list" | Other_node

text \<open>
  Volumes and files of other drivers are named by their handle. \<open>e_hex n v\<close> are the digits that the
  print library writes for the value \<open>v\<close> in a field of \<open>n\<close> zero-padded hexadecimal digits.
  \<open>e_stack\<close> and \<open>e_address\<close> are the initial content of the buffer of \<open>GetFsTypeLKL\<close> and the address of
  the request buffer of \<open>dmcrypt.c\<close>.
\<close>

record efi =
  e_partition_name :: "nat \<Rightarrow> EFI_STATUS \<times> u16 list"
  e_device_path :: "nat \<Rightarrow> dp_node list option"
  e_file_systems :: "EFI_STATUS \<times> nat list"
  e_handle_sfs :: "nat \<Rightarrow> EFI_STATUS"
  e_open_root :: "nat \<Rightarrow> EFI_STATUS"
  e_open_file :: "nat \<Rightarrow> u16 list \<Rightarrow> EFI_STATUS"
  e_file_size :: "nat \<Rightarrow> EFI_STATUS \<times> u64"
  e_file_read :: "nat \<Rightarrow> UINTN \<Rightarrow> EFI_STATUS \<times> u8 list"
  e_read_disk :: "nat \<Rightarrow> u32 \<Rightarrow> u64 \<Rightarrow> UINTN \<Rightarrow> EFI_STATUS \<times> u8 list"
  e_media :: "nat \<Rightarrow> u32 \<times> bool"
  e_open_protocol :: "efi_call list \<Rightarrow> nat \<Rightarrow> protocol \<Rightarrow> attribute \<Rightarrow> EFI_STATUS"
  e_close_protocol :: "nat \<Rightarrow> protocol \<Rightarrow> EFI_STATUS"
  e_install :: "nat \<Rightarrow> EFI_STATUS"
  e_uninstall :: "nat \<Rightarrow> EFI_STATUS"
  e_hex :: "nat \<Rightarrow> nat \<Rightarrow> string"
  e_unicode :: "string \<Rightarrow> u16 list"
  e_stack :: "u8 list"
  e_address :: u32

record 's drv =
  world :: "'s world"
  uefi :: "efi_call list"
  LKLFsLock :: bool
  mUnicodeCollationInterface :: "nat option"

definition call :: "efi_call \<Rightarrow> 's drv \<Rightarrow> 's drv" where
  "call c d = d\<lparr>uefi := uefi d @ [c]\<rparr>"

definition OpenProtocol :: "efi \<Rightarrow> nat \<Rightarrow> protocol \<Rightarrow> attribute \<Rightarrow> 's drv \<Rightarrow> EFI_STATUS \<times> 's drv" where
  "OpenProtocol E h p a d = (e_open_protocol E (uefi d) h p a, call (Open_protocol h p a) d)"

definition CloseProtocol :: "efi \<Rightarrow> nat \<Rightarrow> protocol \<Rightarrow> 's drv \<Rightarrow> EFI_STATUS \<times> 's drv" where
  "CloseProtocol E h p d = (e_close_protocol E h p, call (Close_protocol h p) d)"

text \<open>Firmware buffers that the caller has to free.\<close>

definition firmware_alloc :: "'s world \<Rightarrow> 's world" where
  "firmware_alloc w = w\<lparr>live := live w + 1\<rparr>"

section \<open>The lock\<close>

text \<open>\<open>EfiAcquireLock\<close> and \<open>EfiReleaseLock\<close> assert the lock's state: \<open>None\<close>.\<close>

definition LKLAcquireLock :: "'s drv \<Rightarrow> 's drv option" where
  "LKLAcquireLock d = (if LKLFsLock d then None else Some (d\<lparr>LKLFsLock := True\<rparr>))"

definition LKLAcquireLockOrFail :: "'s drv \<Rightarrow> EFI_STATUS \<times> 's drv" where
  "LKLAcquireLockOrFail d =
    (if LKLFsLock d then (EFI_ACCESS_DENIED, d) else (EFI_SUCCESS, d\<lparr>LKLFsLock := True\<rparr>))"

definition LKLReleaseLock :: "'s drv \<Rightarrow> 's drv option" where
  "LKLReleaseLock d = (if LKLFsLock d then Some (d\<lparr>LKLFsLock := False\<rparr>) else None)"

definition LKLFreeVolume :: "'s world \<Rightarrow> 's world" where
  "LKLFreeVolume w = FreePool w"

section \<open>Unicode collation\<close>

text \<open>
  One protocol as the worker sees it: the handles that offer it, the outcome of opening it, whether a
  supported language matches, and whether the language variable exists.
\<close>

record collation =
  c_locate :: "EFI_STATUS \<times> nat list"
  c_open :: "nat \<Rightarrow> EFI_STATUS"
  c_best :: "nat \<Rightarrow> bool"
  c_variable :: bool

primrec collation_loop :: "collation \<Rightarrow> nat list \<Rightarrow> nat option" where
  "collation_loop C [] = None"
| "collation_loop C (h # hs) =
    (if EFI_ERROR (c_open C h) then collation_loop C hs
     else if c_best C h then Some h
     else collation_loop C hs)"

definition InitializeUnicodeCollationSupportWorker :: "collation \<Rightarrow> 's drv \<Rightarrow> EFI_STATUS \<times> 's drv" where
  "InitializeUnicodeCollationSupportWorker C d =
    (let (Status, Handles) = c_locate C
     in if EFI_ERROR Status then (Status, d)
        else
          let w = firmware_alloc (world d);
              w = (if c_variable C then firmware_alloc w else w);
              (ReturnStatus, d) =
                (case collation_loop C Handles of
                   None \<Rightarrow> (EFI_UNSUPPORTED, d)
                 | Some h \<Rightarrow> (EFI_SUCCESS, d\<lparr>mUnicodeCollationInterface := Some h\<rparr>));
              w = (if c_variable C then FreePool w else w);
              w = FreePool w
          in (ReturnStatus, d\<lparr>world := w\<rparr>))"

definition InitializeUnicodeCollationSupport ::
  "collation \<Rightarrow> collation \<Rightarrow> 's drv \<Rightarrow> EFI_STATUS \<times> 's drv" where
  "InitializeUnicodeCollationSupport C2 C1 d =
    (let (Status, d) = InitializeUnicodeCollationSupportWorker C2 d
     in if EFI_ERROR Status then InitializeUnicodeCollationSupportWorker C1 d else (Status, d))"

section \<open>Component names\<close>

text \<open>\<open>lookup\<close> is the library's \<open>LookupUnicodeString2\<close>, \<open>managed\<close> its \<open>EfiTestManagedDevice\<close>.\<close>

definition mLKLDriverNameTable :: "(string \<times> string) list" where
  "mLKLDriverNameTable = [(''eng;en'', ''Linux File System Driver'')]"

definition mLKLControllerNameTable :: "(string \<times> string) list" where
  "mLKLControllerNameTable = [(''eng;en'', ''Linux File System'')]"

definition LKLComponentNameGetDriverName ::
  "(string \<Rightarrow> string \<Rightarrow> (string \<times> string) list \<Rightarrow> bool \<Rightarrow> EFI_STATUS \<times> string option)
    \<Rightarrow> bool \<Rightarrow> string \<Rightarrow> EFI_STATUS \<times> string option" where
  "LKLComponentNameGetDriverName lookup first Language =
    lookup Language (if first then ''eng'' else ''en'') mLKLDriverNameTable first"

definition LKLComponentNameGetControllerName ::
  "(string \<Rightarrow> string \<Rightarrow> (string \<times> string) list \<Rightarrow> bool \<Rightarrow> EFI_STATUS \<times> string option)
    \<Rightarrow> (nat \<Rightarrow> EFI_STATUS) \<Rightarrow> bool \<Rightarrow> nat \<Rightarrow> nat option \<Rightarrow> string \<Rightarrow> EFI_STATUS \<times> string option" where
  "LKLComponentNameGetControllerName lookup managed first ControllerHandle ChildHandle Language =
    (if ChildHandle \<noteq> None then (EFI_UNSUPPORTED, None)
     else if EFI_ERROR (managed ControllerHandle) then (managed ControllerHandle, None)
     else lookup Language (if first then ''eng'' else ''en'') mLKLControllerNameTable first)"

section \<open>A file on any partition\<close>

primrec partition_loop :: "efi \<Rightarrow> u16 list \<Rightarrow> nat list \<Rightarrow> 's drv \<Rightarrow> nat option \<times> 's drv" where
  "partition_loop E Path [] d = (None, d)"
| "partition_loop E Path (h # hs) d =
    (if EFI_ERROR (e_handle_sfs E h) then partition_loop E Path hs d
     else if EFI_ERROR (e_open_root E h) then partition_loop E Path hs (call (Open_root h) d)
     else
       let d = call (Open_file h Path) (call (Open_root h) d);
           d = call (Close_root h) d
       in if \<not> EFI_ERROR (e_open_file E h Path) then (Some h, d) else partition_loop E Path hs d)"

definition GetFileFromAnyPartition :: "efi \<Rightarrow> u16 list \<Rightarrow> 's drv \<Rightarrow> EFI_STATUS \<times> nat option \<times> 's drv" where
  "GetFileFromAnyPartition E Path d =
    (let (Status, HandleBuffer) = e_file_systems E
     in if EFI_ERROR Status then (Status, None, d)
        else
          let d = d\<lparr>world := firmware_alloc (world d)\<rparr>;
              (found, d) = partition_loop E Path HandleBuffer d;
              d = d\<lparr>world := FreePool (world d)\<rparr>
          in (if found \<noteq> None then EFI_SUCCESS else EFI_NOT_FOUND, found, d))"

section \<open>Facts\<close>

lemma call_frame [simp]: "world (call c d) = world d" "LKLFsLock (call c d) = LKLFsLock d"
  "uefi (call c d) = uefi d @ [c]"
  by (simp_all add: call_def)

lemma OpenProtocol_pair: "OpenProtocol E h p a d = (S, d') \<Longrightarrow> d' = call (Open_protocol h p a) d"
  by (simp add: OpenProtocol_def)

lemma CloseProtocol_pair: "CloseProtocol E h p d = (S, d') \<Longrightarrow> d' = call (Close_protocol h p) d"
  by (simp add: CloseProtocol_def)

lemma partition_loop_frame:
  "partition_loop E Path hs d = (r, d') \<Longrightarrow> world d' = world d \<and> LKLFsLock d' = LKLFsLock d"
  by (induction hs arbitrary: d) (fastforce simp: Let_def split: if_splits)+

lemma InitializeUnicodeCollationSupport_frame:
  "InitializeUnicodeCollationSupport C2 C1 d = (S, d') \<Longrightarrow>
    LKLFsLock d' = LKLFsLock d \<and> uefi d' = uefi d \<and> live (world d') = live (world d)
    \<and> log (world d') = log (world d)"
  by (auto simp: InitializeUnicodeCollationSupport_def InitializeUnicodeCollationSupportWorker_def Let_def
      firmware_alloc_def split: prod.splits if_splits option.splits)

end
