(* ===== verification/Volume.thy ===== *)
theory Volume imports Uefi begin

text \<open>
  Volumes (\<open>Init.c\<close>): where the key of an encrypted partition lies, the construction of a volume with
  its disk, its dm-crypt device and its mount, the clean-up after a failure, and abandoning a volume.

  The routines that build a volume return it together with the status, as the volume's fields are
  set one by one and the clean-up looks at them. \<open>None\<close> is a memory error in \<open>dmcrypt.c\<close>.
\<close>

section \<open>The location of the key\<close>

definition le_bytes :: "u8 list \<Rightarrow> nat" where
  "le_bytes bs = foldr (\<lambda>b n. unat b + 256 * n) bs 0"

definition SIGNATURE_TYPE_GUID :: u8 where "SIGNATURE_TYPE_GUID = 2"

text \<open>The first hard drive node of the device path.\<close>

primrec find_harddrive :: "dp_node list \<Rightarrow> (u8 \<times> u8 list) option" where
  "find_harddrive [] = None"
| "find_harddrive (n # ns) = (case n of Harddrive ty sig \<Rightarrow> Some (ty, sig) | Other_node \<Rightarrow> find_harddrive ns)"

text \<open>The print library pads each number to its field, so the path has 55 of the buffer's 100 characters.\<close>

definition LKLGetKeyLocation :: "efi \<Rightarrow> nat \<Rightarrow> EFI_STATUS \<times> u16 list" where
  "LKLGetKeyLocation E h =
    (case e_device_path E h of
       None \<Rightarrow> (EFI_INVALID_PARAMETER, [])
     | Some DevPath \<Rightarrow>
     case find_harddrive DevPath of
       None \<Rightarrow> (EFI_INVALID_PARAMETER, [])
     | Some (ty, sig) \<Rightarrow>
         if ty = SIGNATURE_TYPE_GUID then
           let OutPath = e_unicode E ([backslash] @ ''misc'' @ [backslash] @ ''vold'' @ [backslash] @ ''expand_''
                 @ e_hex E 8 (le_bytes (take 4 sig))
                 @ e_hex E 4 (le_bytes (take 2 (drop 4 sig)))
                 @ e_hex E 4 (le_bytes (take 2 (drop 6 sig)))
                 @ concat (map (\<lambda>b. e_hex E 2 (unat b)) (take 8 (drop 8 sig)))
                 @ ''.key'')
           in (EFI_SUCCESS, UnicodeToLower OutPath)
         else (EFI_INVALID_PARAMETER, []))"

section \<open>The key file\<close>

text \<open>
  The result: a status to return at once (with what is still held: the file and the key), a status
  to clean up with, or the file, its size and the key.
\<close>

datatype key_result = Return EFI_STATUS | Cleanup EFI_STATUS nat | Got nat u64 "u8 list"

definition read_key :: "efi \<Rightarrow> nat \<Rightarrow> 's drv \<Rightarrow> key_result \<times> 's drv" where
  "read_key E h d =
    (let (Status, KeyLocation) = LKLGetKeyLocation E h
     in if EFI_ERROR Status then (Return Status, d)
        else
     let (Status, KeyFile, d) = GetFileFromAnyPartition E KeyLocation d
     in case KeyFile of None \<Rightarrow> (Return EFI_NOT_READY, d)
        | Some KeyFile \<Rightarrow>
     let (Status, KeyFileSize) = e_file_size E KeyFile
     in if EFI_ERROR Status then (Return Status, d)
        else
     let (ok, w) = AllocatePool (world d);
         d = d\<lparr>world := w\<rparr>
     in if \<not> ok then (Return EFI_OUT_OF_RESOURCES, d)
        else
     let (Status, Key) = e_file_read E KeyFile (ucast KeyFileSize)
     in if EFI_ERROR Status then (Cleanup Status KeyFile, d) else (Got KeyFile KeyFileSize Key, d))"

section \<open>Mounting\<close>

definition AsciiSPrint_dev :: "efi \<Rightarrow> string \<Rightarrow> u32 \<Rightarrow> string" where
  "AsciiSPrint_dev E prefix DevId = prefix @ e_hex E 8 (unat DevId)"

text \<open>The encrypted branch: device node, dm-crypt, file system type, mount point and mount.\<close>

definition mount_encrypted ::
  "efi \<Rightarrow> 's lkl \<Rightarrow> volume \<Rightarrow> u8 list \<Rightarrow> u64 \<Rightarrow> 's world \<Rightarrow> (EFI_STATUS \<times> volume \<times> 's world) option" where
  "mount_encrypted E K V Key KeyFileSize w =
    (let (Ret, DevId) = k_virtio_blkdev K (LKLDiskId V) (linux w)
     in if neg Ret then Some (LKLError2EfiError Ret, V, w)
        else
     let V = V\<lparr>LKLBlkDevice := AsciiSPrint_dev E ''/dev/'' DevId\<rparr>;
         (Ret, w) = sys K (Sys_mknod (LKLBlkDevice V) (LKL_S_IFBLK OR 0x180) DevId) w
     in if neg Ret then Some (LKLError2EfiError Ret, V, w)
        else
     let V = V\<lparr>LKLCryptFSName := AsciiSPrint_dev E ''lkl-'' DevId\<rparr>
     in case cryptfs_setup_ext_volume K (e_address E) (LKLCryptFSName V) (LKLBlkDevice V) Key
               (ucast KeyFileSize) w of
          None \<Rightarrow> None
        | Some (Ret, blk, w) \<Rightarrow>
     let V = (case blk of None \<Rightarrow> V | Some b \<Rightarrow> V\<lparr>LKLBlkDeviceDecrypted := b\<rparr>)
     in if neg Ret then Some (LKLError2EfiError Ret, V, w)
        else
     let (Status, ty, w) = GetFsTypeLKL K (LKLBlkDeviceDecrypted V) (e_stack E) w
     in case ty of
          None \<Rightarrow> Some (Status, V, w)
        | Some ty \<Rightarrow>
     let V = V\<lparr>LKLMountPoint := AsciiSPrint_dev E ''/mnt/'' DevId\<rparr>;
         (Status, w) = LKLMakeDir K (LKLMountPoint V) w
     in if EFI_ERROR Status then Some (Status, V, w)
        else
     let (Ret, w) = sys K (Sys_mount (LKLBlkDeviceDecrypted V) (LKLMountPoint V) ty) w
     in if neg Ret then Some (LKLError2EfiError Ret, V, w) else Some (EFI_SUCCESS, V, w))"

definition mount_plain ::
  "'s lkl \<Rightarrow> volume \<Rightarrow> string \<Rightarrow> 's world \<Rightarrow> EFI_STATUS \<times> volume \<times> 's world" where
  "mount_plain K V ty w =
    (let (Ret, mp, w) = mount_dev K (LKLDiskId V) ty w;
         V = V\<lparr>LKLMountPoint := mp\<rparr>
     in if neg Ret then (LKLError2EfiError Ret, V, w) else (EFI_SUCCESS, V, w))"

section \<open>The clean-up\<close>

definition release_volume :: "'s lkl \<Rightarrow> volume \<Rightarrow> 's world \<Rightarrow> 's world" where
  "release_volume K V w =
    (let w = (if LKLMountPoint V \<noteq> [] then snd (sys K (Sys_umount (LKLMountPoint V)) w) else w);
         w = (if IsEncrypted V then
                let w = (if LKLCryptFSName V \<noteq> [] then snd (cryptfs_revert_ext_volume K (LKLCryptFSName V) w) else w)
                in if LKLBlkDevice V \<noteq> [] then snd (sys K (Sys_unlink (LKLBlkDevice V)) w) else w
              else w);
         w = (if \<not> neg (LKLDiskId V) then snd (sys K (Disk_remove (LKLDiskId V)) w) else w)
     in LKLFreeVolume w)"

text \<open>\<open>Done:\<close> with the volume if there is one and the key file, whose key buffer is freed first.\<close>

definition volume_done ::
  "'s lkl \<Rightarrow> EFI_STATUS \<Rightarrow> volume option \<Rightarrow> nat option \<Rightarrow> 's drv \<Rightarrow> EFI_STATUS \<times> volume option \<times> 's drv" where
  "volume_done K Status V KeyFile d =
    (let d = (case V of
                Some V \<Rightarrow> if EFI_ERROR Status then d\<lparr>world := release_volume K V (world d)\<rparr> else d
              | None \<Rightarrow> d);
         d = (case KeyFile of
                Some h \<Rightarrow> call (Close_file h) (d\<lparr>world := FreePool (world d)\<rparr>)
              | None \<Rightarrow> d)
     in (Status, if EFI_ERROR Status then None else V, d))"

section \<open>Allocating a volume\<close>

text \<open>The disk, the mount and the protocol, for a volume that has been allocated.\<close>

definition setup_volume ::
  "efi \<Rightarrow> 's lkl \<Rightarrow> volume \<Rightarrow> string \<Rightarrow> (nat \<times> u64 \<times> u8 list) option \<Rightarrow> 's drv
    \<Rightarrow> (EFI_STATUS \<times> volume option \<times> 's drv) option" where
  "setup_volume E K V ty key d =
    (let KeyFile = map_option fst key;
         (Ret, w) = sys K Disk_add (world d)
     in if neg Ret then Some (volume_done K (LKLError2EfiError Ret) (Some V) KeyFile (d\<lparr>world := w\<rparr>))
        else
     let V = V\<lparr>LKLDiskId := Ret\<rparr>
     in case (case key of
                Some (_, n, Key) \<Rightarrow> mount_encrypted E K V Key n w
              | None \<Rightarrow> Some (mount_plain K V ty w)) of
          None \<Rightarrow> None
        | Some (Status, V, w) \<Rightarrow>
            if EFI_ERROR Status then Some (volume_done K Status (Some V) KeyFile (d\<lparr>world := w\<rparr>))
            else let Status = e_install E (Handle V);
                     d = call (Install_sfs (Handle V)) (d\<lparr>world := w\<rparr>);
                     V = (if EFI_ERROR Status then V else V\<lparr>Valid := True\<rparr>)
                 in Some (volume_done K Status (Some V) KeyFile d))"

definition android_expand :: "u16 list" where
  "android_expand = map (\<lambda>c. word_of_nat (of_char c)) ''android_expand''"

definition LKLAllocateVolume ::
  "efi \<Rightarrow> 's lkl \<Rightarrow> nat \<Rightarrow> bool \<Rightarrow> 's drv \<Rightarrow> (EFI_STATUS \<times> volume option \<times> 's drv) option" where
  "LKLAllocateVolume E K h disk_io2 d =
    (let (Status, PartitionName) = e_partition_name E h;
         Encrypted = (\<not> EFI_ERROR Status \<and> PartitionName = android_expand);
         (media, readonly) = e_media E h;
         V = \<lparr>Handle = h, Valid = False, DiskIo2 = disk_io2, MediaId = media, ReadOnly = readonly,
              LKLDiskId = -1, LKLMountPoint = [], FsType = None, IsEncrypted = Encrypted,
              LKLBlkDevice = [], LKLBlkDeviceDecrypted = [], LKLCryptFSName = []\<rparr>
     in if Encrypted then
          case read_key E h d of
            (Return Status, d) \<Rightarrow> Some (Status, None, d)
          | (Cleanup Status KeyFile, d) \<Rightarrow> Some (volume_done K Status None (Some KeyFile) d)
          | (Got KeyFile n Key, d) \<Rightarrow>
              let (ok, w) = AllocatePool (world d)
              in if \<not> ok then Some (EFI_OUT_OF_RESOURCES, None, d\<lparr>world := w\<rparr>)
                 else setup_volume E K V [] (Some (KeyFile, n, Key)) (d\<lparr>world := w\<rparr>)
        else
          case GetFsType (e_read_disk E h) media of
            (Status, None) \<Rightarrow> Some (EFI_UNSUPPORTED, None, d)
          | (Status, Some ty) \<Rightarrow>
              let (ok, w) = AllocatePool (world d)
              in if \<not> ok then Some (EFI_OUT_OF_RESOURCES, None, d\<lparr>world := w\<rparr>)
                 else setup_volume E K (V\<lparr>FsType := Some ty\<rparr>) ty None (d\<lparr>world := w\<rparr>))"

section \<open>Abandoning a volume\<close>

text \<open>A handle is never \<open>NULL\<close> here: \<open>Volume->Handle\<close> is the controller's.\<close>

definition LKLAbandonVolume :: "efi \<Rightarrow> volume \<Rightarrow> 's drv \<Rightarrow> EFI_STATUS \<times> volume \<times> 's drv" where
  "LKLAbandonVolume E V d =
    (let Status = e_uninstall E (Handle V);
         d = call (Uninstall_sfs (Handle V)) d
     in if EFI_ERROR Status then (Status, V, d)
        else
          let (Status, d) = LKLAcquireLockOrFail d;
              LockedByMe = (\<not> EFI_ERROR Status);
              V = V\<lparr>Valid := False\<rparr>;
              d = (if LockedByMe then the (LKLReleaseLock d) else d)
          in (EFI_SUCCESS, V, d))"

section \<open>Facts\<close>

lemma read_key_lock: "read_key E h d = (r, d') \<Longrightarrow> LKLFsLock d' = LKLFsLock d"
  by (auto simp: read_key_def GetFileFromAnyPartition_def Let_def split: prod.splits if_splits option.splits
      dest!: partition_loop_frame)

lemma volume_done_lock: "volume_done K S V kf d = (S', V', d') \<Longrightarrow> LKLFsLock d' = LKLFsLock d"
  by (auto simp: volume_done_def Let_def split: option.splits if_splits)

lemma setup_volume_lock: "setup_volume E K V ty key d = Some (S, v, d') \<Longrightarrow> LKLFsLock d' = LKLFsLock d"
  by (auto simp: setup_volume_def Let_def split: prod.splits if_splits option.splits dest!: volume_done_lock)

lemma LKLAllocateVolume_lock:
  "LKLAllocateVolume E K h two d = Some (S, V, d') \<Longrightarrow> LKLFsLock d' = LKLFsLock d"
  by (auto simp: LKLAllocateVolume_def Let_def split: prod.splits if_splits option.splits key_result.splits
      dest!: setup_volume_lock read_key_lock volume_done_lock)

lemma volume_done_status: "volume_done K S V kf d = (S', V', d') \<Longrightarrow> S' = S \<and> V' = (if EFI_ERROR S then None else V)"
  by (auto simp: volume_done_def Let_def split: option.splits)

lemma setup_volume_status:
  "setup_volume E K V ty key d = Some (S, v, d') \<Longrightarrow>
    if EFI_ERROR S then v = None else \<exists>x. v = Some x \<and> Valid x"
  by (auto simp: setup_volume_def Let_def LKLError2EfiError_neg split: prod.splits if_splits option.splits dest!: volume_done_status)

lemma read_key_status: "read_key E h d = (r, d') \<Longrightarrow>
    (case r of Return S \<Rightarrow> EFI_ERROR S | Cleanup S kf \<Rightarrow> EFI_ERROR S | Got kf n key \<Rightarrow> True)"
  by (auto simp: read_key_def LKLGetKeyLocation_def Let_def split: prod.splits if_splits option.splits)

lemma LKLAllocateVolume_status:
  assumes "LKLAllocateVolume E K h two d = Some (S, V, d')"
  shows "if EFI_ERROR S then V = None else \<exists>x. V = Some x \<and> Valid x"
  using assms
  by (auto simp: LKLAllocateVolume_def Let_def split: prod.splits if_splits option.splits key_result.splits
      dest!: setup_volume_status read_key_status volume_done_status)

text \<open>The calls of a plain volume's construction: disk, mount, and after a failure the way back.\<close>

definition disk_trace :: "(sys_call \<times> INTN) list \<Rightarrow> bool \<Rightarrow> bool" where
  "disk_trace cs done \<longleftrightarrow>
    (case cs of
       [] \<Rightarrow> \<not> done
     | (c, r) # cs \<Rightarrow> c = Disk_add \<and>
         (if neg r then cs = [] \<and> \<not> done
          else if done then (\<exists>ty m. \<not> neg m \<and> cs = [(Mount_dev r ty, m)])
          else (\<exists>ty m um c. (um = [] \<or> (\<exists>p q. um = [(Sys_umount p, q)]))
                 \<and> cs = (Mount_dev r ty, m) # um @ [(Disk_remove r, c)])))"

lemma release_plain:
  assumes "\<not> IsEncrypted V"
  shows "live (release_volume K V w) = live w - 1"
    and "\<not> neg (LKLDiskId V) \<Longrightarrow> \<exists>um c. (um = [] \<or> (\<exists>p q. um = [(Sys_umount p, q)]))
      \<and> log (release_volume K V w) = log w @ um @ [(Disk_remove (LKLDiskId V), c)]"
    and "neg (LKLDiskId V) \<Longrightarrow> LKLMountPoint V = [] \<Longrightarrow> log (release_volume K V w) = log w"
proof -
  show "live (release_volume K V w) = live w - 1" "neg (LKLDiskId V) \<Longrightarrow> LKLMountPoint V = [] \<Longrightarrow> log (release_volume K V w) = log w"
    using assms by (auto simp: release_volume_def LKLFreeVolume_def Let_def)
  assume "\<not> neg (LKLDiskId V)"
  then show "\<exists>um c. (um = [] \<or> (\<exists>p q. um = [(Sys_umount p, q)]))
      \<and> log (release_volume K V w) = log w @ um @ [(Disk_remove (LKLDiskId V), c)]"
    using assms by (auto simp: release_volume_def LKLFreeVolume_def Let_def)
qed

lemma setup_plain:
  assumes "setup_volume E K V ty None d = Some (S, v, d')" "\<not> IsEncrypted V" "LKLMountPoint V = []"
    "LKLDiskId V = -1"
  shows "live (world d') = live (world d) - (if v = None then 1 else 0)
    \<and> (\<exists>cs. log (world d') = log (world d) @ cs \<and> disk_trace cs (v \<noteq> None))"
proof -
  obtain r w1 where a: "sys K Disk_add (world d) = (r, w1)" by fastforce
  note ap = sys_pair [OF a]
  show ?thesis
  proof (cases "neg r")
    case True
    have "neg (-1)" by (simp add: neg_def)
    then have "v = None" "world d' = release_volume K V w1"
      using assms(1) a True LKLError2EfiError_neg [OF True] by (auto simp: setup_volume_def volume_done_def)
    then show ?thesis
      using ap True release_plain(1,3) [OF assms(2), of K w1] assms(3,4) \<open>neg (-1)\<close>
      by (intro conjI exI [of _ "[(Disk_add, r)]"]) (auto simp: disk_trace_def)
  next
    case False
    obtain m mp w2 where md: "mount_dev K r ty w1 = (m, mp, w2)" by (metis prod_cases3)
    note mdp = mount_dev_pair [OF md]
    let ?V = "V\<lparr>LKLDiskId := r, LKLMountPoint := mp\<rparr>"
    have enc: "\<not> IsEncrypted ?V" using assms(2) by simp
    show ?thesis
    proof (cases "neg m \<or> EFI_ERROR (e_install E (Handle V))")
      case True
      then have v: "v = None" "world d' = release_volume K ?V w2"
        using assms(1) a False md LKLError2EfiError_neg [of m]
        by (auto simp: setup_volume_def volume_done_def mount_plain_def Let_def split: if_splits)
      obtain um c where um: "um = [] \<or> (\<exists>p q. um = [(Sys_umount p, q)])"
        "log (release_volume K ?V w2) = log w2 @ um @ [(Disk_remove r, c)]"
        using release_plain(2) [OF enc, of K w2] False by auto
      have "disk_trace ((Disk_add, r) # (Mount_dev r ty, m) # um @ [(Disk_remove r, c)]) False"
        using um(1) False unfolding disk_trace_def by simp
      then show ?thesis using v um(2) ap mdp release_plain(1) [OF enc, of K w2] by auto
    next
      case ok: False
      then have v: "v \<noteq> None" "world d' = w2"
        using assms(1) a False md
        by (auto simp: setup_volume_def volume_done_def mount_plain_def Let_def split: if_splits)
      then show ?thesis using ap mdp False ok
        by (intro conjI exI [of _ "[(Disk_add, r), (Mount_dev r ty, m)]"]) (auto simp: disk_trace_def)
    qed
  qed
qed

lemma AllocateVolume_plain:
  assumes "LKLAllocateVolume E K h two d = Some (S, V, d')"
    and "EFI_ERROR (fst (e_partition_name E h)) \<or> snd (e_partition_name E h) \<noteq> android_expand"
  shows "live (world d') = live (world d) + (if V = None then 0 else 1)
    \<and> (\<exists>cs. log (world d') = log (world d) @ cs \<and> disk_trace cs (V \<noteq> None))"
proof -
  obtain S0 ty where g: "GetFsType (e_read_disk E h) (fst (e_media E h)) = (S0, ty)" by fastforce
  show ?thesis
  proof (cases ty)
    case None
    then show ?thesis using assms g by (auto simp: LKLAllocateVolume_def Let_def split_beta disk_trace_def)
  next
    case (Some t)
    obtain ok w where al: "AllocatePool (world d) = (ok, w)" by fastforce
    note alp = AllocatePool_pair [OF al]
    show ?thesis
    proof (cases ok)
      case False
      then show ?thesis using assms g Some al alp
        by (auto simp: LKLAllocateVolume_def Let_def split_beta disk_trace_def)
    next
      case True
      define V0 where "V0 = \<lparr>Handle = h, Valid = False, DiskIo2 = two, MediaId = fst (e_media E h),
        ReadOnly = snd (e_media E h), LKLDiskId = -1, LKLMountPoint = [], FsType = Some t, IsEncrypted = False,
        LKLBlkDevice = [], LKLBlkDeviceDecrypted = [], LKLCryptFSName = []\<rparr>"
      have "setup_volume E K V0 t None (d\<lparr>world := w\<rparr>) = Some (S, V, d')"
        using assms g Some al True by (auto simp: LKLAllocateVolume_def Let_def split_beta V0_def)
      from setup_plain [OF this] alp True show ?thesis by (auto simp: V0_def)
    qed
  qed
qed

lemma mount_encrypted_fields:
  "mount_encrypted E K V key n w = Some (S, V', w') \<Longrightarrow> FsType V' = FsType V \<and> IsEncrypted V' = IsEncrypted V"
  by (auto simp: mount_encrypted_def Let_def split: prod.splits if_splits option.splits)

lemma setup_volume_type:
  "setup_volume E K V ty key d = Some (S, Some V', d') \<Longrightarrow> FsType V' = FsType V \<and> IsEncrypted V' = IsEncrypted V"
  by (auto simp: setup_volume_def mount_plain_def Let_def split: prod.splits if_splits option.splits
      dest!: volume_done_status mount_encrypted_fields)

end
