(* ===== verification/Driver.thy ===== *)
theory Driver imports Volume begin

text \<open>
  The driver model routines (\<open>LKL.c\<close>): the entry point that boots the Linux kernel library and sets up
  \<open>/dev\<close>, the driver binding protocol (supported, start, stop) and the unload routine. \<open>None\<close> is a
  failed \<open>ASSERT\<close> or a memory error in \<open>dmcrypt.c\<close>.

  The entry point also boots the thread kernel (\<open>lkl_thread_init\<close>, theory \<open>Host\<close>), whose state is
  separate.
\<close>

section \<open>Entry point\<close>

record boot =
  b_cpu :: EFI_STATUS
  b_makedev :: u32
  b_install :: EFI_STATUS

definition LKLEntryPoint :: "boot \<Rightarrow> 's lkl \<Rightarrow> 's drv \<Rightarrow> (EFI_STATUS \<times> 's drv) option" where
  "LKLEntryPoint B K d =
    (if EFI_ERROR (b_cpu B) then None
     else
     let (ret, w) = sys K (Start_kernel ''mem=64M'') (world d)
     in if ret \<noteq> 0 then Some (LKLError2EfiError ret, d\<lparr>world := w\<rparr>)
        else
     let (Status, w) = LKLMakeDir K ''/dev'' w
     in if EFI_ERROR Status then Some (Status, d\<lparr>world := w\<rparr>)
        else
     let (Status, w) = LKLMakeDir K ''/dev/block'' w
     in if EFI_ERROR Status then Some (Status, d\<lparr>world := w\<rparr>)
        else
     let (ret, w) = sys K (Sys_mknod DEVMAPPER_CONTROL_FILE (LKL_S_IFCHR OR 0x180) (b_makedev B)) w
     in if ret \<noteq> 0 then Some (LKLError2EfiError ret, d\<lparr>world := w\<rparr>)
        else
     let d = call Install_binding (d\<lparr>world := w\<rparr>)
     in if EFI_ERROR (b_install B) then None else Some (b_install B, d))"

section \<open>Driver binding\<close>

definition LKLDriverBindingSupported :: "efi \<Rightarrow> nat \<Rightarrow> 's drv \<Rightarrow> EFI_STATUS \<times> 's drv" where
  "LKLDriverBindingSupported E h d =
    (let (Status, d) = OpenProtocol E h Disk_io By_driver d
     in if EFI_ERROR Status then (Status, d)
        else let (_, d) = CloseProtocol E h Disk_io d
             in OpenProtocol E h Block_io Test_protocol d)"

text \<open>\<open>Exit:\<close> release the lock if it was taken here.\<close>

definition start_exit :: "bool \<Rightarrow> EFI_STATUS \<Rightarrow> volume option \<Rightarrow> 's drv
    \<Rightarrow> (EFI_STATUS \<times> volume option \<times> 's drv) option" where
  "start_exit LockedByMe Status V d =
    (if LockedByMe then map_option (\<lambda>d. (Status, V, d)) (LKLReleaseLock d) else Some (Status, V, d))"

definition LKLDriverBindingStart ::
  "efi \<Rightarrow> 's lkl \<Rightarrow> collation \<Rightarrow> collation \<Rightarrow> nat \<Rightarrow> 's drv
    \<Rightarrow> (EFI_STATUS \<times> volume option \<times> 's drv) option" where
  "LKLDriverBindingStart E K C2 C1 h d =
    (let (Status, d) = LKLAcquireLockOrFail d;
         LockedByMe = (\<not> EFI_ERROR Status);
         (Status, d) = InitializeUnicodeCollationSupport C2 C1 d
     in if EFI_ERROR Status then start_exit LockedByMe Status None d
        else
     let (Status, d) = OpenProtocol E h Block_io Get_protocol d
     in if EFI_ERROR Status then start_exit LockedByMe Status None d
        else
     let (Status, d) = OpenProtocol E h Disk_io By_driver d
     in if EFI_ERROR Status then start_exit LockedByMe Status None d
        else
     let (Status2, d) = OpenProtocol E h Disk_io2 By_driver d
     in case LKLAllocateVolume E K h (\<not> EFI_ERROR Status2) d of
          None \<Rightarrow> None
        | Some (Status, V, d) \<Rightarrow>
            if EFI_ERROR Status then
              let (Status, d) = OpenProtocol E h Simple_file_system Test_protocol d
              in if EFI_ERROR Status then
                   let (_, d) = CloseProtocol E h Disk_io d;
                       (_, d) = CloseProtocol E h Disk_io2 d
                   in start_exit LockedByMe Status V d
                 else start_exit LockedByMe Status V d
            else start_exit LockedByMe Status V d)"

text \<open>\<open>V\<close> is the volume that contains the protocol interface found on the handle.\<close>

definition LKLDriverBindingStop ::
  "efi \<Rightarrow> nat \<Rightarrow> volume \<Rightarrow> 's drv \<Rightarrow> (EFI_STATUS \<times> volume \<times> 's drv) option" where
  "LKLDriverBindingStop E h V d =
    (let (Status, d) = OpenProtocol E h Simple_file_system Get_protocol d;
         (Status, two, V, d) =
           (if \<not> EFI_ERROR Status
            then let (S, V', d) = LKLAbandonVolume E V d in (S, DiskIo2 V, V', d)
            else (Status, False, V, d))
     in if EFI_ERROR Status then Some (Status, V, d)
        else
          let (Status, d) = (if two then CloseProtocol E h Disk_io2 d else (Status, d))
          in if EFI_ERROR Status then None
             else
               let (Status, d) = CloseProtocol E h Disk_io d
               in if EFI_ERROR Status then None else Some (Status, V, d))"

section \<open>Unloading\<close>

text \<open>
  \<open>u_managed\<close> is \<open>EfiTestManagedDevice\<close>; \<open>u_name\<close> and \<open>u_name2\<close> say whether the two component name
  protocols are installed; \<open>u_uninstall\<close> is the outcome of removing the protocols.
\<close>

record unload =
  u_handles :: "EFI_STATUS \<times> nat list"
  u_managed :: "nat \<Rightarrow> EFI_STATUS"
  u_disconnect :: "nat \<Rightarrow> EFI_STATUS"
  u_name :: bool
  u_name2 :: bool
  u_uninstall :: EFI_STATUS

text \<open>The loop stops at the first handle that cannot be disconnected; \<open>True\<close> if it reached the last.\<close>

primrec unload_loop :: "unload \<Rightarrow> nat list \<Rightarrow> EFI_STATUS \<Rightarrow> 's drv \<Rightarrow> bool \<times> EFI_STATUS \<times> 's drv" where
  "unload_loop U [] Status d = (True, Status, d)"
| "unload_loop U (h # hs) Status d =
    (let Status = u_managed U h
     in if EFI_ERROR Status then unload_loop U hs Status d
        else let Status = u_disconnect U h;
                 d = call (Disconnect h) d
             in if EFI_ERROR Status then (False, Status, d) else unload_loop U hs Status d)"

definition LKLUnload :: "unload \<Rightarrow> 's lkl \<Rightarrow> 's drv \<Rightarrow> EFI_STATUS \<times> 's drv" where
  "LKLUnload U K d =
    (let (Status, DeviceHandleBuffer) = u_handles U
     in if EFI_ERROR Status then (Status, d)
        else
          let d = d\<lparr>world := firmware_alloc (world d)\<rparr>;
              (all, Status, d) = unload_loop U DeviceHandleBuffer Status d;
              (Status, d) = (if all then (u_uninstall U, call (Uninstall_binding (u_name U) (u_name2 U)) d)
                             else (Status, d));
              w = FreePool (world d);
              (_, w) = sys K Sys_halt w
          in (Status, d\<lparr>world := w\<rparr>))"

section \<open>Facts\<close>

lemma start_exit_Some: "start_exit l S V d = Some (S', V', d') \<Longrightarrow>
    S' = S \<and> V' = V \<and> world d' = world d \<and> uefi d' = uefi d
    \<and> LKLFsLock d' = (if l then False else LKLFsLock d)"
  by (auto simp: start_exit_def LKLReleaseLock_def split: if_splits)

lemma acquire_pair: "LKLAcquireLockOrFail d = (S, d') \<Longrightarrow>
    EFI_ERROR S = LKLFsLock d \<and> LKLFsLock d' \<and> uefi d' = uefi d \<and> world d' = world d"
  by (auto simp: LKLAcquireLockOrFail_def split: if_splits)

lemma Start_lock:
  assumes "LKLDriverBindingStart E K C2 C1 h d = Some (S, V, d')"
  shows "LKLFsLock d' = LKLFsLock d"
  using assms
  by (auto simp: LKLDriverBindingStart_def Let_def split: prod.splits if_splits option.splits
     dest!: start_exit_Some acquire_pair OpenProtocol_pair CloseProtocol_pair LKLAllocateVolume_lock
       InitializeUnicodeCollationSupport_frame)

end
