(* ===== verification/Volume_Trace.thy ===== *)
theory Volume_Trace imports Driver begin

text \<open>
  What building a volume leaves behind: the calls to the firmware in the trace \<open>uefi\<close>, the pool, and the
  mounts and disks that were given back. \<open>held\<close> reads from a trace whether the driver holds a protocol of
  the controller.
\<close>

section \<open>The protocols that are held\<close>

text \<open>
  The driver holds a protocol from the successful \<open>OpenProtocol\<close> by the driver until it closes it; \<open>tr\<close> is
  the trace before the calls.
\<close>

primrec held :: "efi \<Rightarrow> nat \<Rightarrow> protocol \<Rightarrow> efi_call list \<Rightarrow> efi_call list \<Rightarrow> bool \<Rightarrow> bool" where
  "held E h p tr [] b = b"
| "held E h p tr (c # cs) b =
    held E h p (tr @ [c]) cs
      (if c = Open_protocol h p By_driver then b \<or> \<not> EFI_ERROR (e_open_protocol E tr h p By_driver)
       else b \<and> c \<noteq> Close_protocol h p)"

fun on_protocol :: "efi_call \<Rightarrow> bool" where
  "on_protocol (Open_protocol h p a) \<longleftrightarrow> True"
| "on_protocol (Close_protocol h p) \<longleftrightarrow> True"
| "on_protocol c \<longleftrightarrow> False"

lemma held_append: "held E h p tr (cs @ ds) b = held E h p (tr @ cs) ds (held E h p tr cs b)"
  by (induction cs arbitrary: tr b) simp_all

lemma held_other: "list_all (\<lambda>c. \<not> on_protocol c) cs \<Longrightarrow> held E h p tr cs b = b"
  by (induction cs arbitrary: tr b) auto

section \<open>The calls of the key search\<close>

fun key_call :: "efi_call \<Rightarrow> bool" where
  "key_call (Open_root h) \<longleftrightarrow> True"
| "key_call (Close_root h) \<longleftrightarrow> True"
| "key_call (Open_file h p) \<longleftrightarrow> True"
| "key_call c \<longleftrightarrow> False"

lemma key_call_other: "key_call c \<Longrightarrow> \<not> on_protocol c"
  by (cases c) simp_all

lemma partition_loop_trace:
  "partition_loop E Path hs d = (r, d') \<Longrightarrow>
    \<exists>cs. uefi d' = uefi d @ cs \<and> list_all key_call cs \<and> (\<forall>k. r = Some k \<longrightarrow> Open_file k Path \<in> set cs)"
proof (induction hs arbitrary: d)
  case (Cons h hs)
  let ?d1 = "call (Open_root h) d"
  let ?d2 = "call (Close_root h) (call (Open_file h Path) ?d1)"
  have branch: "if EFI_ERROR (e_handle_sfs E h) then partition_loop E Path hs d = (r, d')
    else if EFI_ERROR (e_open_root E h) then partition_loop E Path hs ?d1 = (r, d')
    else if EFI_ERROR (e_open_file E h Path) then partition_loop E Path hs ?d2 = (r, d')
    else r = Some h \<and> d' = ?d2"
    using Cons.prems by (simp add: Let_def split: if_splits)
  consider (skip) "partition_loop E Path hs d = (r, d')" | (root) "partition_loop E Path hs ?d1 = (r, d')"
    | (found) "r = Some h" "d' = ?d2" | (next_file) "partition_loop E Path hs ?d2 = (r, d')"
    using branch by presburger
  then show ?case
  proof cases
    case skip
    then show ?thesis by (rule Cons.IH)
  next
    case root
    from Cons.IH [OF this] obtain cs where "uefi d' = uefi ?d1 @ cs" "list_all key_call cs"
      "\<forall>k. r = Some k \<longrightarrow> Open_file k Path \<in> set cs" by blast
    then show ?thesis by (intro exI [of _ "Open_root h # cs"]) simp
  next
    case found
    then show ?thesis by simp
  next
    case next_file
    from Cons.IH [OF this] obtain cs where "uefi d' = uefi ?d2 @ cs" "list_all key_call cs"
      "\<forall>k. r = Some k \<longrightarrow> Open_file k Path \<in> set cs" by blast
    then show ?thesis by (intro exI [of _ "[Open_root h, Open_file h Path, Close_root h] @ cs"]) simp
  qed
qed simp

lemma get_file_trace:
  assumes "GetFileFromAnyPartition E Path d = (S, r, d')"
  shows "\<exists>cs. uefi d' = uefi d @ cs \<and> list_all key_call cs \<and> (\<forall>k. r = Some k \<longrightarrow> Open_file k Path \<in> set cs)"
    and "live (world d') = live (world d) \<and> log (world d') = log (world d)"
proof -
  show "\<exists>cs. uefi d' = uefi d @ cs \<and> list_all key_call cs \<and> (\<forall>k. r = Some k \<longrightarrow> Open_file k Path \<in> set cs)"
    using assms
    by (auto simp: GetFileFromAnyPartition_def Let_def split: prod.splits if_splits dest!: partition_loop_trace)
  show "live (world d') = live (world d) \<and> log (world d') = log (world d)"
    using assms
    by (auto simp: GetFileFromAnyPartition_def firmware_alloc_def Let_def split: prod.splits if_splits
        dest!: partition_loop_frame)
qed

lemma AllocatePool_split:
  "log (snd (AllocatePool w)) = log w" "live (snd (AllocatePool w)) = live w + (if fst (AllocatePool w) then 1 else 0)"
  using AllocatePool_pair [of w "fst (AllocatePool w)" "snd (AllocatePool w)"] by simp_all

lemma read_key_trace:
  assumes "read_key E h d = (r, d')"
  obtains cs where "uefi d' = uefi d @ cs" "list_all key_call cs" "log (world d') = log (world d)"
    "live (world d') = live (world d) + (case r of Return S \<Rightarrow> 0 | _ \<Rightarrow> 1)"
    "\<And>k n key. r = Got k n key \<Longrightarrow> \<exists>p. Open_file k p \<in> set cs"
proof (cases "EFI_ERROR (fst (LKLGetKeyLocation E h))")
  case True
  then show ?thesis using assms that [of "[]"] by (auto simp: read_key_def split_beta)
next
  case False
  let ?loc = "snd (LKLGetKeyLocation E h)"
  obtain S f d1 where f: "GetFileFromAnyPartition E ?loc d = (S, f, d1)" by (metis prod_cases3)
  obtain cs where cs: "uefi d1 = uefi d @ cs" "list_all key_call cs" "\<forall>k. f = Some k \<longrightarrow> Open_file k ?loc \<in> set cs"
    using get_file_trace(1) [OF f] by blast
  note w = get_file_trace(2) [OF f]
  show ?thesis
    by (rule that [of cs])
      (use assms False f cs w in \<open>auto simp: read_key_def Let_def split_beta AllocatePool_split
        split: option.splits if_splits\<close>)
qed

section \<open>Mounts and disks that are given back\<close>

fun gives_back :: "sys_call \<Rightarrow> bool" where
  "gives_back (Sys_umount p) \<longleftrightarrow> True"
| "gives_back (Disk_remove i) \<longleftrightarrow> True"
| "gives_back c \<longleftrightarrow> False"

definition given_back :: "'s world \<Rightarrow> (sys_call \<times> INTN) list" where
  "given_back w = filter (\<lambda>c. gives_back (fst c)) (log w)"

text \<open>\<open>settled w w'\<close>: nothing was given back from \<open>w\<close> to \<open>w'\<close>, and the pool is the same.\<close>

definition settled :: "'s world \<Rightarrow> 's world \<Rightarrow> bool" where
  "settled w w' \<longleftrightarrow> given_back w' = given_back w \<and> live w' = live w"

lemma settled_refl [simp]: "settled w w"
  by (simp add: settled_def)

lemma settled_trans: "settled w w1 \<Longrightarrow> settled w1 w2 \<Longrightarrow> settled w w2"
  by (simp add: settled_def)

lemma settled_log:
  "log w' = log w @ cs \<Longrightarrow> list_all (\<lambda>c. \<not> gives_back (fst c)) cs \<Longrightarrow> live w' = live w \<Longrightarrow> settled w w'"
  by (auto simp: settled_def given_back_def list_all_iff)

lemma sys_settled: "sys K c w = (r, w') \<Longrightarrow> \<not> gives_back c \<Longrightarrow> settled w w'"
  using sys_pair [of K c w r w'] by (intro settled_log [of w' w "[(c, r)]"]) auto

lemma sys_settled_snd: "\<not> gives_back c \<Longrightarrow> settled w (snd (sys K c w))"
  by (rule sys_settled) (rule prod.collapse [symmetric])

lemma sys_ioctl_settled: "sys_ioctl K fd req w = (r, out, w') \<Longrightarrow> settled w w'"
  using sys_ioctl_pair [of K fd req w r out w'] by (intro settled_log [of w' w "[(Sys_ioctl fd req, r)]"]) auto

lemma load_table_settled:
  assumes "load_crypto_mapping_table K buffer ftr key blk name fd ex w = Some (r, w')"
  shows "settled w w'"
proof -
  from assms obtain req where "load_loop K fd req 0 w = (r, w')"
    by (auto simp: load_crypto_mapping_table_def Let_def split: if_splits)
  from load_loop_log [OF this] obtain cs where cs: "live w' = live w" "log w' = log w @ cs"
    "list_all (\<lambda>c. fst c = Sys_ioctl fd req) cs" by auto
  from cs(3) have "list_all (\<lambda>c. \<not> gives_back (fst c)) cs" by (auto simp: list_all_iff)
  with cs(1,2) show ?thesis by (intro settled_log)
qed

lemma errout_settled: "errout K fd rv blk w = Some (r, b, w') \<Longrightarrow> settled w w'"
  using sys_settled_snd [of "Sys_close fd" w K] by (auto simp: errout_def)

lemma activate_settled:
  "activate_crypto_dev K buffer ftr key blk name fd rv nd w = Some (r, b, w') \<Longrightarrow> settled w w'"
  by (auto simp: activate_crypto_dev_def settled_def split: option.splits prod.splits if_splits
      dest!: load_table_settled errout_settled sys_ioctl_settled)

lemma create_settled:
  "create_crypto_blk_dev K buffer ftr key blk name w = Some (r, b, w') \<Longrightarrow> settled w w'"
  by (auto simp: create_crypto_blk_dev_def settled_def Let_def split: prod.splits if_splits
      dest!: activate_settled errout_settled sys_ioctl_settled sys_settled)

lemma setup_crypt_settled:
  "cryptfs_setup_ext_volume K buffer label dev key n w = Some (r, b, w') \<Longrightarrow> settled w w'"
  by (auto simp: cryptfs_setup_ext_volume_def get_blkdev_size_def settled_def Let_def split: prod.splits if_splits
      dest!: create_settled sys_ioctl_settled sys_settled)

lemma probe_settled:
  assumes "GetFsTypeLKL K p Buffer w = (S, ty, w')"
  shows "settled w w'"
proof -
  have no: "list_all (\<lambda>c. probe_call fd (fst c)) cs \<Longrightarrow> list_all (\<lambda>c. \<not> gives_back (fst c)) cs" for fd cs
    by (induction cs) (auto elim: probe_call.elims)
  obtain cs where "log w' = log w @ cs" "list_all (\<lambda>c. \<not> gives_back (fst c)) cs" "live w' = live w"
  proof -
    from GetFsTypeLKL_log [OF assms] consider
      (failed) fd where "log w' = log w @ [(Sys_open p LKL_O_RDONLY 0, fd)]" "live w' = live w"
      | (probed) fd cs r where "list_all (\<lambda>c. probe_call fd (fst c)) cs" "live w' = live w"
        "log w' = log w @ (Sys_open p LKL_O_RDONLY 0, fd) # cs @ [(Sys_close fd, r)]" by blast
    then show thesis
    proof cases
      case failed
      then show ?thesis by (intro that [of "[(Sys_open p LKL_O_RDONLY 0, fd)]"]) simp_all
    next
      case probed
      with no [OF probed(1)] show ?thesis
        by (intro that [of "(Sys_open p LKL_O_RDONLY 0, fd) # cs @ [(Sys_close fd, r)]"]) simp_all
    qed
  qed
  then show ?thesis by (rule settled_log)
qed

lemma probe_untyped: "GetFsTypeLKL K p Buffer w = (S, None, w') \<Longrightarrow> EFI_ERROR S"
  using GetFsTypeLKL_log [of K p Buffer w S None w'] by simp

lemma make_dir_settled: "LKLMakeDir K p w = (S, w') \<Longrightarrow> settled w w'"
  by (auto simp: LKLMakeDir_def split: prod.splits if_splits dest!: sys_settled)

section \<open>Volumes\<close>

lemma mount_encrypted_settled:
  "mount_encrypted E K V key n w = Some (S, V', w') \<Longrightarrow> settled w w'"
  by (auto simp: mount_encrypted_def settled_def Let_def split: prod.splits if_splits option.splits
      dest!: sys_settled setup_crypt_settled probe_settled make_dir_settled)

lemma mount_encrypted_same:
  "mount_encrypted E K V key n w = Some (S, V', w') \<Longrightarrow>
    Handle V' = Handle V \<and> DiskIo2 V' = DiskIo2 V \<and> IsEncrypted V' = IsEncrypted V"
  by (auto simp: mount_encrypted_def Let_def split: prod.splits if_splits option.splits)

text \<open>The last call of a successful encrypted mount is the mount itself.\<close>

lemma mount_encrypted_last:
  assumes "mount_encrypted E K V key n w = Some (S, V', w')" "\<not> EFI_ERROR S"
  obtains cs ty r where "log w' = cs @ [(Sys_mount (LKLBlkDeviceDecrypted V') (LKLMountPoint V') ty, r)]" "\<not> neg r"
  using assms
  by (auto simp: mount_encrypted_def Let_def LKLError2EfiError_neg split: prod.splits if_splits option.splits
      dest!: sys_pair dest: probe_untyped)

lemma volume_done_trace:
  "volume_done K S V kf d = (S', V', d') \<Longrightarrow>
    uefi d' = uefi d @ (case kf of None \<Rightarrow> [] | Some k \<Rightarrow> [Close_file k]) \<and>
    (\<not> EFI_ERROR S \<longrightarrow> V' = V \<and> world d' = (if kf = None then world d else FreePool (world d)))"
  by (auto simp: volume_done_def Let_def split: option.splits if_splits)

lemma setup_volume_trace:
  assumes "setup_volume E K V ty key d = Some (S, v, d')"
  shows "\<exists>cs. uefi d' = uefi d @ cs \<and> list_all (\<lambda>c. \<not> on_protocol c) cs"
  using assms
  by (auto simp: setup_volume_def Let_def split: prod.splits if_splits option.splits dest!: volume_done_trace)

text \<open>A volume that was built: its calls, the pool without the key, and the mount as the last call.\<close>

definition mounted :: "volume \<Rightarrow> (sys_call \<times> INTN) list \<Rightarrow> bool" where
  "mounted V cs \<longleftrightarrow>
    (if IsEncrypted V
     then \<exists>cs' ty r. cs = cs' @ [(Sys_mount (LKLBlkDeviceDecrypted V) (LKLMountPoint V) ty, r)] \<and> \<not> neg r
     else \<exists>cs' i ty r. cs = cs' @ [(Disk_add, i), (Mount_dev i ty, r)] \<and> \<not> neg i \<and> \<not> neg r)"

lemma setup_volume_built:
  assumes s: "setup_volume E K V ty key d = Some (S, Some V', d')" and e: "IsEncrypted V \<longleftrightarrow> key \<noteq> None"
  shows "Handle V' = Handle V \<and> DiskIo2 V' = DiskIo2 V \<and> IsEncrypted V' = IsEncrypted V"
    and "uefi d' = uefi d @ [Install_sfs (Handle V)] @ (case key of None \<Rightarrow> [] | Some (k, _) \<Rightarrow> [Close_file k])"
    and "live (world d') = live (world d) - (if key = None then 0 else 1)"
    and "given_back (world d') = given_back (world d)" and "mounted V' (log (world d'))"
proof -
  obtain i w1 where a: "sys K Disk_add (world d) = (i, w1)" by fastforce
  note a' = sys_pair [OF a] sys_settled [OF a, simplified, unfolded settled_def]
  let ?V = "V\<lparr>LKLDiskId := i\<rparr>"
  have i: "\<not> neg i"
    using s a by (auto simp: setup_volume_def Let_def LKLError2EfiError_neg dest!: volume_done_status split: if_splits)
  obtain S1 V1 w2 where m: "(case key of Some (_, n, Key) \<Rightarrow> mount_encrypted E K ?V Key n w1
      | None \<Rightarrow> Some (mount_plain K ?V ty w1)) = Some (S1, V1, w2)"
    using s a i by (auto simp: setup_volume_def Let_def split: option.splits)
  have S1: "\<not> EFI_ERROR S1"
    using s a i m by (auto simp: setup_volume_def Let_def split: if_splits dest!: volume_done_status)
  let ?I = "e_install E (Handle V1)"
  have last_part: "volume_done K ?I (Some (if EFI_ERROR ?I then V1 else V1\<lparr>Valid := True\<rparr>)) (map_option fst key)
      (call (Install_sfs (Handle V1)) (d\<lparr>world := w2\<rparr>)) = (S, Some V', d')"
    using s a i m S1 by (simp add: setup_volume_def Let_def)
  have I: "\<not> EFI_ERROR ?I" and V': "V' = V1\<lparr>Valid := True\<rparr>"
    using volume_done_status [OF last_part] by (auto split: if_splits)
  have same: "Handle V1 = Handle V \<and> DiskIo2 V1 = DiskIo2 V \<and> IsEncrypted V1 = IsEncrypted V"
    and w2: "given_back w2 = given_back w1 \<and> live w2 = live w1" and mnt: "mounted V1 (log w2)"
  proof -
    show "Handle V1 = Handle V \<and> DiskIo2 V1 = DiskIo2 V \<and> IsEncrypted V1 = IsEncrypted V"
      using m by (auto simp: mount_plain_def Let_def split: option.splits prod.splits if_splits dest!: mount_encrypted_same)
    show "given_back w2 = given_back w1 \<and> live w2 = live w1"
      using m by (auto simp: mount_plain_def given_back_def Let_def split: option.splits prod.splits if_splits
          dest!: mount_dev_pair mount_encrypted_settled [unfolded settled_def given_back_def])
    show "mounted V1 (log w2)"
    proof (cases key)
      case None
      then show ?thesis using m S1 a' i e
        by (auto simp: mount_plain_def mounted_def Let_def LKLError2EfiError_neg split: prod.splits if_splits dest!: mount_dev_pair)
    next
      case (Some y)
      then obtain k n Key where me: "mount_encrypted E K ?V Key n w1 = Some (S1, V1, w2)"
        using m by (auto split: prod.splits)
      obtain cs ty r where "log w2 = cs @ [(Sys_mount (LKLBlkDeviceDecrypted V1) (LKLMountPoint V1) ty, r)]" "\<not> neg r"
        by (rule mount_encrypted_last [OF me S1])
      with mount_encrypted_same [OF me] show ?thesis
        using e Some by (simp add: mounted_def)
    qed
  qed
  show "Handle V' = Handle V \<and> DiskIo2 V' = DiskIo2 V \<and> IsEncrypted V' = IsEncrypted V"
    using same V' by simp
  show "uefi d' = uefi d @ [Install_sfs (Handle V)] @ (case key of None \<Rightarrow> [] | Some (k, _) \<Rightarrow> [Close_file k])"
    using volume_done_trace [OF last_part] same by (auto split: option.splits)
  show "live (world d') = live (world d) - (if key = None then 0 else 1)"
    "given_back (world d') = given_back (world d)" "mounted V' (log (world d'))"
    using volume_done_trace [OF last_part] I w2 a' mnt V' by (auto simp: given_back_def mounted_def split: if_splits)
qed

text \<open>Building a volume never opens or closes a protocol of the controller.\<close>

lemma allocate_trace:
  assumes "LKLAllocateVolume E K h two d = Some (S, V, d')"
  shows "\<exists>cs. uefi d' = uefi d @ cs \<and> list_all (\<lambda>c. \<not> on_protocol c) cs"
proof -
  have key: "\<exists>cs. uefi d1 = uefi d @ cs \<and> list_all (\<lambda>c. \<not> on_protocol c) cs" if "read_key E h d = (r, d1)" for r d1
    using that by (rule read_key_trace) (use key_call_other in \<open>auto simp: list_all_iff\<close>)
  show ?thesis
    using assms
    by (auto simp: LKLAllocateVolume_def Let_def split: prod.splits if_splits option.splits key_result.splits
        dest!: setup_volume_trace volume_done_trace dest: key)
qed

text \<open>A volume that was built: the search for its key, the installation, and the key file that is closed.\<close>

definition built_calls :: "volume \<Rightarrow> nat \<Rightarrow> efi_call list \<Rightarrow> bool" where
  "built_calls V h cs \<longleftrightarrow>
    (if IsEncrypted V
     then \<exists>search k p. cs = search @ [Install_sfs h, Close_file k] \<and> list_all key_call search \<and> Open_file k p \<in> set search
     else cs = [Install_sfs h])"

lemma allocate_built:
  assumes "LKLAllocateVolume E K h two d = Some (S, Some V, d')"
  shows "Handle V = h \<and> DiskIo2 V = two \<and> live (world d') = live (world d) + 1 \<and>
    given_back (world d') = given_back (world d) \<and> mounted V (log (world d')) \<and>
    (\<exists>cs. uefi d' = uefi d @ cs \<and> built_calls V h cs)"
proof -
  define V0 where "V0 ty enc = \<lparr>Handle = h, Valid = False, DiskIo2 = two, MediaId = fst (e_media E h),
    ReadOnly = snd (e_media E h), LKLDiskId = -1, LKLMountPoint = [], FsType = ty, IsEncrypted = enc,
    LKLBlkDevice = [], LKLBlkDeviceDecrypted = [], LKLCryptFSName = []\<rparr>" for ty enc
  let ?enc = "\<not> EFI_ERROR (fst (e_partition_name E h)) \<and> snd (e_partition_name E h) = android_expand"
  show ?thesis
  proof (cases ?enc)
    case True
    obtain r d1 where k: "read_key E h d = (r, d1)" by fastforce
    obtain kf n Key where r: "r = Got kf n Key" and ok: "fst (AllocatePool (world d1))"
      and s: "setup_volume E K (V0 None True) [] (Some (kf, n, Key)) (d1\<lparr>world := snd (AllocatePool (world d1))\<rparr>)
        = Some (S, Some V, d')"
      using assms True k
      by (auto simp: LKLAllocateVolume_def V0_def Let_def split_beta split: key_result.splits if_splits
          dest!: volume_done_status)
    have e: "IsEncrypted (V0 None True) \<longleftrightarrow> Some (kf, n, Key) \<noteq> None" by (simp add: V0_def)
    note b = setup_volume_built [OF s e]
    obtain cs where cs: "uefi d1 = uefi d @ cs" "list_all key_call cs" "log (world d1) = log (world d)"
      "live (world d1) = live (world d) + 1" "\<exists>p. Open_file kf p \<in> set cs"
      by (rule read_key_trace [OF k]) (use r in auto)
    show ?thesis
      using b cs ok by (auto simp: V0_def built_calls_def given_back_def AllocatePool_split)
  next
    case False
    obtain ty where ok: "fst (AllocatePool (world d))"
      and s: "setup_volume E K (V0 (Some ty) False) ty None (d\<lparr>world := snd (AllocatePool (world d))\<rparr>) = Some (S, Some V, d')"
      using assms False
      by (auto simp: LKLAllocateVolume_def V0_def Let_def split_beta split: option.splits if_splits)
    have e: "IsEncrypted (V0 (Some ty) False) \<longleftrightarrow> None \<noteq> None" by (simp add: V0_def)
    from setup_volume_built [OF s] ok show ?thesis
      by (auto simp: V0_def built_calls_def given_back_def AllocatePool_split)
  qed
qed

end
