(* ===== verification/Volume_Properties.thy ===== *)
theory Volume_Properties imports Volume_Trace File_Io begin

text \<open>
  What the driver guarantees for its volumes: recognising a file system, encrypted devices, building
  a volume and binding it to a controller. The witnesses run on a small kernel whose state is a disk
  image's read position and a device mapper that refuses every table.
\<close>

section \<open>A small kernel for the witnesses\<close>

definition ext4_demo :: "u64 \<Rightarrow> u8" where
  "ext4_demo a = (if a = 0x438 then 0x53 else if a = 0x439 then 0xEF else 0)"

text \<open>The state is the file position; tables are refused with the error 22.\<close>

definition disk_lkl :: "u64 lkl" where
  "disk_lkl =
    \<lparr>k_lstat = (\<lambda>p s. (0, zero_stat)), k_fstat = (\<lambda>fd s. (0, zero_stat)),
     k_statfs = (\<lambda>p s. (0, \<lparr>f_bsize = 512, f_blocks = 100, f_bfree = 10\<rparr>)),
     k_readlink = (\<lambda>p n s. (0, [])),
     k_call = (\<lambda>c s. (case c of Sys_open p fl m \<Rightarrow> 3 | _ \<Rightarrow> 0, s)),
     k_lseek = (\<lambda>fd off wh s. (off, off)),
     k_read = (\<lambda>fd n s. (1024, window ext4_demo s, s)),
     k_fdopendir = (\<lambda>fd s. (None, 0, s)), k_readdir = (\<lambda>d s. (None, s)), k_rewinddir = (\<lambda>d s. s),
     k_errdir = (\<lambda>d s. 0),
     k_ioctl = (\<lambda>fd r s. case r of LKL_DM_TABLE_LOAD io t p \<Rightarrow> (- 22, 0, s) | _ \<Rightarrow> (0, 0x10, s)),
     k_virtio_blkdev = (\<lambda>d s. (0, 0x10)), k_mount_dev = (\<lambda>d ty s. (0, ''/mnt/00000010'', s))\<rparr>"

definition disk_world :: "u64 world" where
  "disk_world = \<lparr>linux = 0, allocs = [], live = 0, log = []\<rparr>"

section \<open>File system types\<close>

text \<open>C30: GetFsType recognises exactly the images with the ext4, NTFS or F2FS magic bytes at their place
  on the disk, in this order.\<close>

theorem get_fs_type_image:
  "GetFsType (read_image img) media =
    (case image_type img of None \<Rightarrow> (EFI_NOT_FOUND, None) | Some t \<Rightarrow> (EFI_SUCCESS, Some t))"
  by (rule GetFsType_image)

text \<open>C31: On a Linux device that serves the bytes of an image, GetFsTypeLKL gives the same answer as
  GetFsType on the disk, with only seeks and reads on its descriptor, which it closes at the last.\<close>

theorem get_fs_type_lkl:
  assumes "serves K fd img pos" "fst (k_call K (Sys_open p LKL_O_RDONLY 0) (linux w)) = fd" "\<not> neg fd"
    and "length Buffer = 1024"
  shows "\<exists>w' cs r. GetFsTypeLKL K p Buffer w =
        (fst (GetFsType (read_image img) media), snd (GetFsType (read_image img) media), w')
      \<and> log w' = log w @ (Sys_open p LKL_O_RDONLY 0, fd) # cs @ [(Sys_close fd, r)]
      \<and> list_all (\<lambda>c. probe_call fd (fst c)) cs"
proof -
  obtain w1 where o: "sys K (Sys_open p LKL_O_RDONLY 0) w = (fd, w1)"
    using assms(2) by (auto simp: sys_def split_beta)
  obtain S ty w2 where f: "file_infos K fd FsIdInfos Buffer w1 = (S, ty, w2)" by (metis prod_cases3)
  have "GetFsTypeLKL K p Buffer w = (S, ty, snd (sys K (Sys_close fd) w2))"
    using o f assms(3) by (simp add: GetFsTypeLKL_def)
  moreover have "S = fst (GetFsType (read_image img) media)" "ty = snd (GetFsType (read_image img) media)"
    using file_infos_image [OF assms(1,4), of w1 media] f by simp_all
  ultimately show ?thesis using file_infos_log [OF f] sys_pair [OF o] by fastforce
qed

lemma get_fs_type_lkl_witness:
  "\<exists>w' cs r. GetFsTypeLKL disk_lkl ''/dev/x'' (replicate 1024 0) disk_world = (EFI_SUCCESS, Some ''ext4'', w')
     \<and> log w' = (Sys_open ''/dev/x'' LKL_O_RDONLY 0, 3) # cs @ [(Sys_close 3, r)]"
proof -
  have "serves disk_lkl 3 ext4_demo id" by (simp add: serves_def disk_lkl_def)
  moreover have "fst (k_call disk_lkl (Sys_open ''/dev/x'' LKL_O_RDONLY 0) (linux disk_world)) = 3"
    by (simp add: disk_lkl_def)
  moreover have "\<not> neg 3" by (simp add: neg_def)
  moreover have "GetFsType (read_image ext4_demo) 0 = (EFI_SUCCESS, Some ''ext4'')"
    by (simp add: GetFsType_image image_type_def ext4_image_def ext4_demo_def)
  ultimately show ?thesis
    using get_fs_type_lkl [of disk_lkl 3 ext4_demo id "''/dev/x''" disk_world "replicate 1024 0" 0]
    by (auto simp: disk_world_def)
qed

section \<open>Encrypted devices\<close>

text \<open>The hexadecimal form of a key reads back as the key.\<close>

lemma hex_key_round_trip:
  "read_hex (convert_key_to_hex_ascii key (length key)) = key
   \<and> length (convert_key_to_hex_ascii key (length key)) = 2 * length key"
  by (simp add: read_hex_convert convert_key_length)

text \<open>C32: Loading the mapping table makes the same request at most ten times and stops at the first
  success; a failure means ten failed attempts. It only gets so far when the key fits the 129-byte
  buffer (at most 64 bytes) and the parameters fit the request.\<close>

theorem table_load_retries:
  assumes "load_crypto_mapping_table K buffer ftr key blk name fd extra w = Some (r, w')"
  shows "keysize ftr \<le> 64 \<and> (\<exists>io tgt params cs. log w' = log w @ cs
    \<and> list_all (\<lambda>c. fst c = Sys_ioctl fd (LKL_DM_TABLE_LOAD io tgt params)) cs
    \<and> params = crypt_params (crypto_type_name ftr) (convert_key_to_hex_ascii key (unat (keysize ftr))) blk extra
    \<and> 352 + length params < 4096
    \<and> (case r of None \<Rightarrow> length cs = 10 \<and> list_all (\<lambda>c. snd c \<noteq> 0) cs
       | Some n \<Rightarrow> n = length cs \<and> n \<le> 10 \<and> cs \<noteq> [] \<and> snd (last cs) = 0 \<and> list_all (\<lambda>c. snd c \<noteq> 0) (butlast cs)))"
proof -
  let ?params = "crypt_params (crypto_type_name ftr) (convert_key_to_hex_ascii key (unat (keysize ftr))) blk extra"
  from assms obtain io tgt where l: "load_loop K fd (LKL_DM_TABLE_LOAD io tgt ?params) 0 w = (r, w')"
    and small: "\<not> 2 * unat (keysize ftr) + 1 > 129" "\<not> 352 + length ?params + 1 > 4096"
    by (auto simp: load_crypto_mapping_table_def Let_def SIZE_OF_dm_ioctl_def SIZE_OF_dm_target_spec_def
        DM_CRYPT_BUF_SIZE_def split: if_splits)
  have "keysize ftr \<le> 64" using small(1) by (simp add: word_le_nat_alt)
  moreover have "352 + length ?params < 4096" using small(2) by linarith
  moreover from load_loop_log [OF l] obtain cs where cs: "log w' = log w @ cs"
    "list_all (\<lambda>c. fst c = Sys_ioctl fd (LKL_DM_TABLE_LOAD io tgt ?params)) cs"
    "case r of None \<Rightarrow> length cs = TABLE_LOAD_RETRIES - 0 \<and> list_all (\<lambda>c. snd c \<noteq> 0) cs
       | Some n \<Rightarrow> n = 0 + length cs \<and> n \<le> TABLE_LOAD_RETRIES \<and> cs \<noteq> [] \<and> snd (last cs) = 0
           \<and> list_all (\<lambda>c. snd c \<noteq> 0) (butlast cs)"
    by blast
  moreover have "case r of None \<Rightarrow> length cs = 10 \<and> list_all (\<lambda>c. snd c \<noteq> 0) cs
       | Some n \<Rightarrow> n = length cs \<and> n \<le> 10 \<and> cs \<noteq> [] \<and> snd (last cs) = 0 \<and> list_all (\<lambda>c. snd c \<noteq> 0) (butlast cs)"
    using cs(3) by (cases r) (simp_all add: TABLE_LOAD_RETRIES_def)
  ultimately show ?thesis
    by (intro conjI exI [of _ io] exI [of _ tgt] exI [of _ ?params] exI [of _ cs] refl)
qed

definition demo_ftr :: "u32 \<Rightarrow> crypt_mnt_ftr" where
  "demo_ftr n = \<lparr>ftr_flags = 0, keysize = n, fs_size = 100, crypto_type_name = ''aes''\<rparr>"

lemma table_load_retries_witness:
  "\<exists>r w' cs. load_crypto_mapping_table disk_lkl 0 (demo_ftr 1) [0] ''/dev/x'' ''l'' 3 [] disk_world = Some (r, w')
     \<and> log w' = cs \<and> length cs \<le> 10"
proof -
  let ?r = "load_crypto_mapping_table disk_lkl 0 (demo_ftr 1) [0] ''/dev/x'' ''l'' 3 [] disk_world"
  have "length (crypt_params ''aes'' (convert_key_to_hex_ascii [0] 1) ''/dev/x'' []) < 100"
    by (simp add: crypt_params_def convert_key_length)
  then have "?r \<noteq> None"
    by (simp add: load_crypto_mapping_table_def demo_ftr_def SIZE_OF_dm_ioctl_def SIZE_OF_dm_target_spec_def
        DM_CRYPT_BUF_SIZE_def Let_def)
  then obtain r w' where r: "?r = Some (r, w')" by auto
  from table_load_retries [OF r] obtain cs where "log w' = log disk_world @ cs"
    "case r of None \<Rightarrow> length cs = 10 | Some n \<Rightarrow> n = length cs \<and> n \<le> 10"
    by (auto split: option.splits)
  then show ?thesis using r by (auto simp: disk_world_def split: option.splits)
qed

text \<open>C33: create_crypto_blk_dev closes the control node as its last call on every path, but once the
  device node was created it returns 0 also when the table was refused or the device could not be
  resumed.\<close>

theorem crypt_failures_masked:
  assumes "create_crypto_blk_dev K buffer ftr key blk name w = Some (r, b, w')"
  shows "\<exists>cs fd c. log w' = log w @ (Sys_open DEVMAPPER_CONTROL_FILE LKL_O_RDWR 0, fd) # cs @ [(Sys_close fd, c)]
    \<and> live w' = live w
    \<and> ((\<exists>p m v. (Sys_mknod p m v, 0) \<in> set cs) \<longrightarrow> r = 0)
    \<and> (r \<noteq> 0 \<longrightarrow> r = -1 \<or> (\<exists>p m v. (Sys_mknod p m v, r) \<in> set cs))"
  by (rule create_crypto_result [OF assms]) blast

lemma crypt_failures_masked_witness:
  "\<exists>b w' cs fd c. create_crypto_blk_dev disk_lkl 0 (demo_ftr 1) [0] ''/dev/x'' ''l'' disk_world = Some (0, b, w')
     \<and> log w' = (Sys_open DEVMAPPER_CONTROL_FILE LKL_O_RDWR 0, fd) # cs @ [(Sys_close fd, c)]"
proof -
  let ?r = "create_crypto_blk_dev disk_lkl 0 (demo_ftr 1) [0] ''/dev/x'' ''l'' disk_world"
  have "length (crypt_params ''aes'' (convert_key_to_hex_ascii [0] 1) ''/dev/x'' []) < 100"
    by (simp add: crypt_params_def convert_key_length)
  then have "load_crypto_mapping_table disk_lkl 0 (demo_ftr 1) [0] ''/dev/x'' ''l'' 3 [] w \<noteq> None" for w
    by (simp add: load_crypto_mapping_table_def demo_ftr_def SIZE_OF_dm_ioctl_def SIZE_OF_dm_target_spec_def
        DM_CRYPT_BUF_SIZE_def Let_def)
  moreover have "\<not> neg 3" by (simp add: neg_def)
  ultimately have "map_option fst ?r = Some 0"
    by (simp add: create_crypto_blk_dev_def activate_crypto_dev_def errout_def sys_def sys_ioctl_def Let_def
        disk_lkl_def [abs_def] split: option.split prod.split)
  then obtain b w' where r: "?r = Some (0, b, w')" by auto
  from crypt_failures_masked [OF r] r show ?thesis by (auto simp: disk_world_def)
qed

section \<open>Volumes\<close>

text \<open>C34: Building an unencrypted volume is all or nothing: on success there is one valid volume, with its
  disk added and mounted; after any failure nothing is allocated and a disk that was added is
  removed again as the last call.\<close>

theorem allocate_volume_balanced:
  assumes "LKLAllocateVolume E K h two d = Some (S, V, d')"
    and "EFI_ERROR (fst (e_partition_name E h)) \<or> snd (e_partition_name E h) \<noteq> android_expand"
  shows "live (world d') = live (world d) + (if V = None then 0 else 1)
    \<and> (if EFI_ERROR S then V = None else \<exists>x. V = Some x \<and> Valid x)
    \<and> (\<exists>cs. log (world d') = log (world d) @ cs \<and> disk_trace cs (V \<noteq> None))"
  using AllocateVolume_plain [OF assms] LKLAllocateVolume_status [OF assms(1)] by blast

definition demo_efi :: efi where
  "demo_efi =
    \<lparr>e_partition_name = (\<lambda>h. (EFI_UNSUPPORTED, [])), e_device_path = (\<lambda>h. None),
     e_file_systems = (EFI_NOT_FOUND, []), e_handle_sfs = (\<lambda>h. EFI_UNSUPPORTED),
     e_open_root = (\<lambda>h. EFI_UNSUPPORTED), e_open_file = (\<lambda>h p. EFI_NOT_FOUND),
     e_file_size = (\<lambda>h. (EFI_UNSUPPORTED, 0)), e_file_read = (\<lambda>h n. (EFI_UNSUPPORTED, [])),
     e_read_disk = (\<lambda>h. read_image ext4_demo), e_media = (\<lambda>h. (7, False)),
     e_open_protocol = (\<lambda>tr h p a. if p = Simple_file_system then EFI_UNSUPPORTED else EFI_SUCCESS),
     e_close_protocol = (\<lambda>h p. EFI_SUCCESS), e_install = (\<lambda>h. EFI_OUT_OF_RESOURCES),
     e_uninstall = (\<lambda>h. EFI_SUCCESS), e_hex = (\<lambda>n v. []), e_unicode = (\<lambda>s. []), e_stack = [], e_address = 0\<rparr>"

definition demo_drv :: "u64 drv" where
  "demo_drv = \<lparr>world = disk_world, uefi = [], LKLFsLock = False, mUnicodeCollationInterface = None\<rparr>"

lemma demo_allocate:
  "\<exists>d'. LKLAllocateVolume demo_efi disk_lkl h two d = Some (EFI_OUT_OF_RESOURCES, None, d')"
  if "allocs (world d) = []"
proof -
  have "GetFsType (read_image ext4_demo) 7 = (EFI_SUCCESS, Some ''ext4'')"
    by (simp add: GetFsType_image image_type_def ext4_image_def ext4_demo_def)
  then show ?thesis using that
    by (simp add: LKLAllocateVolume_def setup_volume_def volume_done_def mount_plain_def mount_dev_def sys_def
        AllocatePool_def demo_efi_def disk_lkl_def Let_def)
qed

lemma allocate_volume_balanced_witness:
  "\<exists>d' cs. LKLAllocateVolume demo_efi disk_lkl 1 True demo_drv = Some (EFI_OUT_OF_RESOURCES, None, d')
     \<and> live (world d') = 0 \<and> log (world d') = cs \<and> disk_trace cs False"
proof -
  obtain d' where r: "LKLAllocateVolume demo_efi disk_lkl 1 True demo_drv = Some (EFI_OUT_OF_RESOURCES, None, d')"
    using demo_allocate [of demo_drv 1 True] by (auto simp: demo_drv_def disk_world_def)
  have "EFI_ERROR (fst (e_partition_name demo_efi 1))" by (simp add: demo_efi_def)
  from allocate_volume_balanced [OF r disjI1 [OF this]] r show ?thesis
    by (auto simp: demo_drv_def disk_world_def)
qed

text \<open>C35: A volume built by LKLAllocateVolume carries the type that GetFsType found, but an encrypted one
  keeps an uninitialised type, which LKLGetVolumeInfo then reads.\<close>

theorem encrypted_volume_untyped:
  assumes "LKLAllocateVolume E K h two d = Some (S, Some V, d')"
  shows "(if IsEncrypted V then FsType V = None else FsType V = snd (GetFsType (e_read_disk E h) (fst (e_media E h))))
    \<and> (IsEncrypted V \<and> fst (k_statfs K (LKLMountPoint V) (linux w)) = 0 \<longrightarrow>
         LKLGetVolumeInfo K cv V n w = None)"
proof -
  have "if IsEncrypted V then FsType V = None else FsType V = snd (GetFsType (e_read_disk E h) (fst (e_media E h)))"
    using assms
    by (auto simp: LKLAllocateVolume_def Let_def split: prod.splits if_splits option.splits key_result.splits
        dest!: volume_done_status setup_volume_type)
  then show ?thesis by (auto simp: LKLGetVolumeInfo_def split_beta)
qed

lemma encrypted_volume_untyped_witness:
  "\<exists>V d'. LKLAllocateVolume (demo_efi\<lparr>e_install := \<lambda>h. EFI_SUCCESS\<rparr>) disk_lkl 1 True demo_drv =
      Some (EFI_SUCCESS, Some V, d') \<and> (\<not> IsEncrypted V \<longrightarrow> FsType V = Some ''ext4'')"
proof -
  let ?E = "demo_efi\<lparr>e_install := \<lambda>h. EFI_SUCCESS\<rparr>"
  have g: "GetFsType (read_image ext4_demo) m = (EFI_SUCCESS, Some ''ext4'')" for m
    by (simp add: GetFsType_image image_type_def ext4_image_def ext4_demo_def)
  have "\<exists>V d'. LKLAllocateVolume ?E disk_lkl 1 True demo_drv = Some (EFI_SUCCESS, Some V, d')"
    using g by (simp add: LKLAllocateVolume_def setup_volume_def volume_done_def mount_plain_def mount_dev_def
        sys_def AllocatePool_def demo_efi_def disk_lkl_def demo_drv_def disk_world_def Let_def)
  then obtain V d' where r: "LKLAllocateVolume ?E disk_lkl 1 True demo_drv = Some (EFI_SUCCESS, Some V, d')" by blast
  from encrypted_volume_untyped [OF r, of disk_world "\<lambda>_. []" 0] r g show ?thesis
    by (auto simp: demo_efi_def split: if_splits)
qed

section \<open>Driver binding\<close>

text \<open>
  The calls of \<open>LKLDriverBindingStart\<close>, read as holding and giving back the disk protocols. The two cases of
  a start that gets as far as building a volume: with or without the clean-up.
\<close>

lemma start_calls:
  assumes "LKLDriverBindingStart E K C2 C1 h d = Some (S, V, d')"
  shows "(V \<noteq> None \<longrightarrow> \<not> EFI_ERROR S) \<and>
    (\<exists>cs. uefi d' = uefi d @ cs \<and>
       (held E h Disk_io (uefi d) cs False \<longleftrightarrow> \<not> EFI_ERROR S) \<and>
       (EFI_ERROR S \<longrightarrow> \<not> held E h Disk_io2 (uefi d) cs False) \<and>
       (\<forall>v. V = Some v \<longrightarrow> (held E h Disk_io2 (uefi d) cs False \<longleftrightarrow> DiskIo2 v)) \<and>
       (V = None \<and> \<not> EFI_ERROR S \<longrightarrow> (\<exists>tr. uefi d' = tr @ [Open_protocol h Simple_file_system Test_protocol] \<and>
          S = e_open_protocol E tr h Simple_file_system Test_protocol)))"
proof -
  obtain S1 d1 where a: "LKLAcquireLockOrFail d = (S1, d1)" by fastforce
  obtain S2 d2 where b: "InitializeUnicodeCollationSupport C2 C1 d1 = (S2, d2)" by fastforce
  have tr: "uefi d2 = uefi d"
    using acquire_pair [OF a] InitializeUnicodeCollationSupport_frame [OF b] by simp
  let ?b = "Open_protocol h Block_io Get_protocol" and ?i = "Open_protocol h Disk_io By_driver"
    and ?i2 = "Open_protocol h Disk_io2 By_driver" and ?t = "Open_protocol h Simple_file_system Test_protocol"
  let ?Sb = "e_open_protocol E (uefi d) h Block_io Get_protocol"
  let ?Si = "e_open_protocol E (uefi d @ [?b]) h Disk_io By_driver"
  let ?two = "\<not> EFI_ERROR (e_open_protocol E (uefi d @ [?b, ?i]) h Disk_io2 By_driver)"
  define d3 where "d3 = call ?i2 (call ?i (call ?b d2))"
  consider (collation) "EFI_ERROR S2" | (block) "\<not> EFI_ERROR S2" "EFI_ERROR ?Sb"
    | (disk) "\<not> EFI_ERROR S2" "\<not> EFI_ERROR ?Sb" "EFI_ERROR ?Si" | (volume) "\<not> EFI_ERROR S2" "\<not> EFI_ERROR ?Sb" "\<not> EFI_ERROR ?Si"
    by blast
  then show ?thesis
  proof cases
    case volume
    obtain Sv v d4 where v: "LKLAllocateVolume E K h ?two d3 = Some (Sv, v, d4)"
      using assms a b volume tr
      by (auto simp: LKLDriverBindingStart_def OpenProtocol_def d3_def call_def Let_def split: option.splits)
    obtain cs where cs: "uefi d4 = uefi d @ [?b, ?i, ?i2] @ cs" "list_all (\<lambda>c. \<not> on_protocol c) cs"
      using allocate_trace [OF v] tr by (auto simp: d3_def)
    have two: "v = Some x \<Longrightarrow> DiskIo2 x = ?two" for x
      using allocate_built v by blast
    let ?S = "e_open_protocol E (uefi d4) h Simple_file_system Test_protocol"
    note h = held_append held_other [OF cs(2)]
    have run: "if EFI_ERROR Sv then S = ?S \<and> V = v \<and>
        uefi d' = uefi d @ [?b, ?i, ?i2] @ cs @ [?t] @ (if EFI_ERROR ?S then [Close_protocol h Disk_io, Close_protocol h Disk_io2] else [])
      else S = Sv \<and> V = v \<and> uefi d' = uefi d @ [?b, ?i, ?i2] @ cs"
      using assms a b volume tr v cs(1)
      by (auto simp: LKLDriverBindingStart_def OpenProtocol_def CloseProtocol_def d3_def call_def Let_def
          split: if_splits dest!: start_exit_Some)
    show ?thesis
    proof (cases "EFI_ERROR Sv")
      case True
      then have V: "V = None" using run LKLAllocateVolume_status [OF v] by simp
      let ?cl = "if EFI_ERROR ?S then [Close_protocol h Disk_io, Close_protocol h Disk_io2] else []"
      have u: "uefi d' = uefi d @ ([?b, ?i, ?i2] @ cs @ [?t] @ ?cl)" "S = ?S"
        using run True by simp_all
      show ?thesis
        by (intro conjI exI [of _ "[?b, ?i, ?i2] @ cs @ [?t] @ ?cl"] u(1))
          (use V u cs(1) volume in \<open>auto simp: h\<close>)
    next
      case False
      then obtain x where V: "V = Some x" "v = Some x" using run LKLAllocateVolume_status [OF v] by auto
      have u: "uefi d' = uefi d @ ([?b, ?i, ?i2] @ cs)" "S = Sv"
        using run False by simp_all
      show ?thesis
        by (intro conjI exI [of _ "[?b, ?i, ?i2] @ cs"] u(1)) (use V u(2) False two volume in \<open>auto simp: h\<close>)
    qed
  qed (use assms a b tr in \<open>auto simp: LKLDriverBindingStart_def OpenProtocol_def call_def Let_def dest!: start_exit_Some\<close>)
qed

text \<open>C36: LKLDriverBindingStart leaves the global lock as it found it and returns a volume only with
  success. On every path the disk protocols that it opened by driver are held afterwards exactly
  when it succeeds: after any error neither Disk I/O nor Disk I/O 2 is still open, with a volume
  Disk I/O 2 is open exactly when the volume has it, and success without a volume is only the
  result of finding a file system already on the controller.\<close>

theorem start_releases:
  assumes "LKLDriverBindingStart E K C2 C1 h d = Some (S, V, d')"
  shows "LKLFsLock d' = LKLFsLock d \<and> (V \<noteq> None \<longrightarrow> \<not> EFI_ERROR S) \<and>
    (\<exists>cs. uefi d' = uefi d @ cs \<and>
       (held E h Disk_io (uefi d) cs False \<longleftrightarrow> \<not> EFI_ERROR S) \<and>
       (EFI_ERROR S \<longrightarrow> \<not> held E h Disk_io2 (uefi d) cs False) \<and>
       (\<forall>v. V = Some v \<longrightarrow> (held E h Disk_io2 (uefi d) cs False \<longleftrightarrow> DiskIo2 v)) \<and>
       (V = None \<and> \<not> EFI_ERROR S \<longrightarrow> (\<exists>tr. uefi d' = tr @ [Open_protocol h Simple_file_system Test_protocol] \<and>
          S = e_open_protocol E tr h Simple_file_system Test_protocol)))"
  using start_calls [OF assms] Start_lock [OF assms] by blast

definition demo_collation :: collation where
  "demo_collation = \<lparr>c_locate = (EFI_SUCCESS, [5]), c_open = (\<lambda>h. EFI_SUCCESS), c_best = (\<lambda>h. True),
     c_variable = False\<rparr>"

lemma start_releases_witness:
  "\<exists>V d'. LKLDriverBindingStart demo_efi disk_lkl demo_collation demo_collation 2 demo_drv = Some (EFI_UNSUPPORTED, V, d')
     \<and> \<not> LKLFsLock d' \<and> V = None \<and> \<not> held demo_efi 2 Disk_io [] (uefi d') False"
proof -
  let ?r = "LKLDriverBindingStart demo_efi disk_lkl demo_collation demo_collation 2 demo_drv"
  have op: "e_open_protocol demo_efi tr h p a = (if p = Simple_file_system then EFI_UNSUPPORTED else EFI_SUCCESS)"
    for tr h p a by (simp add: demo_efi_def)
  let ?d = "\<lparr>world = disk_world, uefi = [Open_protocol 2 Block_io Get_protocol, Open_protocol 2 Disk_io By_driver,
     Open_protocol 2 Disk_io2 By_driver], LKLFsLock = True, mUnicodeCollationInterface = Some 5\<rparr>"
  obtain d2 where d2: "LKLAllocateVolume demo_efi disk_lkl 2 True ?d = Some (EFI_OUT_OF_RESOURCES, None, d2)"
    using demo_allocate [of ?d 2 True] by (auto simp: disk_world_def)
  have lock: "LKLFsLock d2" using LKLAllocateVolume_lock [OF d2] by simp
  have "\<exists>V d'. ?r = Some (EFI_UNSUPPORTED, V, d')"
    using d2 lock
    by (simp add: LKLDriverBindingStart_def LKLAcquireLockOrFail_def InitializeUnicodeCollationSupport_def
      InitializeUnicodeCollationSupportWorker_def demo_collation_def firmware_alloc_def OpenProtocol_def op
      CloseProtocol_def start_exit_def LKLReleaseLock_def demo_drv_def disk_world_def Let_def call_def FreePool_def)
  then obtain V d' where r: "?r = Some (EFI_UNSUPPORTED, V, d')" by blast
  from start_releases [OF r] r show ?thesis by (auto simp: demo_drv_def)
qed

lemma start_started:
  assumes "LKLDriverBindingStart E K C2 C1 h d = Some (S, Some V, d1)"
  obtains d0 d0' where "LKLAllocateVolume E K h
      (\<not> EFI_ERROR (e_open_protocol E (uefi d @ [Open_protocol h Block_io Get_protocol, Open_protocol h Disk_io By_driver])
         h Disk_io2 By_driver)) d0 = Some (S, Some V, d0')"
    "uefi d0 = uefi d @ [Open_protocol h Block_io Get_protocol, Open_protocol h Disk_io By_driver, Open_protocol h Disk_io2 By_driver]"
    "live (world d0) = live (world d)" "log (world d0) = log (world d)" "world d1 = world d0'" "uefi d1 = uefi d0'"
proof -
  obtain S1 da where a: "LKLAcquireLockOrFail d = (S1, da)" by fastforce
  obtain S2 db where b: "InitializeUnicodeCollationSupport C2 C1 da = (S2, db)" by fastforce
  define d0 where "d0 = call (Open_protocol h Disk_io2 By_driver) (call (Open_protocol h Disk_io By_driver)
    (call (Open_protocol h Block_io Get_protocol) db))"
  let ?two = "\<not> EFI_ERROR (e_open_protocol E (uefi db @ [Open_protocol h Block_io Get_protocol,
    Open_protocol h Disk_io By_driver]) h Disk_io2 By_driver)"
  note facts = acquire_pair [OF a] InitializeUnicodeCollationSupport_frame [OF b]
  obtain Sv v d0' where v: "LKLAllocateVolume E K h ?two d0 = Some (Sv, v, d0')"
    using assms a b
    by (auto simp: LKLDriverBindingStart_def OpenProtocol_def d0_def call_def Let_def
        split: if_splits option.splits dest!: start_exit_Some)
  have "Sv = S \<and> v = Some V \<and> world d1 = world d0' \<and> uefi d1 = uefi d0'"
    using assms a b v LKLAllocateVolume_status [OF v]
    by (auto simp: LKLDriverBindingStart_def OpenProtocol_def CloseProtocol_def d0_def call_def Let_def
        split: if_splits option.splits dest!: start_exit_Some)
  with v facts show thesis
    by (intro that [of d0 d0']) (simp_all add: d0_def call_def)
qed

lemma stop_effect:
  assumes "LKLDriverBindingStop E h V d = Some (S, V', d')" and "\<not> EFI_ERROR S"
  shows "LKLFsLock d' = LKLFsLock d \<and> V' = V\<lparr>Valid := False\<rparr> \<and> world d' = world d \<and>
    uefi d' = uefi d @ [Open_protocol h Simple_file_system Get_protocol, Uninstall_sfs (Handle V)] @
      (if DiskIo2 V then [Close_protocol h Disk_io2] else []) @ [Close_protocol h Disk_io]"
  using assms
  by (auto simp: LKLDriverBindingStop_def LKLAbandonVolume_def OpenProtocol_def CloseProtocol_def call_def Let_def
      LKLAcquireLockOrFail_def LKLReleaseLock_def split: prod.splits if_splits)

text \<open>C37: Starting on a controller and stopping again, for plain and encrypted volumes: the recorded calls
  to the firmware are exactly the opens of the disk protocols, for an encrypted volume the search
  for the key file, the installation (and the closing of the key file), its removal and the
  matching closes (the second disk protocol exactly when it could be opened); the lock is as
  before and the volume is invalid; but the volume was mounted and nothing is unmounted, no disk
  is removed and the memory of the volume is not freed.\<close>

theorem stop_leaves_mounted:
  assumes start: "LKLDriverBindingStart E K C2 C1 h d = Some (S, Some V, d1)"
    and stop: "LKLDriverBindingStop E h V d1 = Some (S', V', d2)" and ok: "\<not> EFI_ERROR S'"
  shows "LKLFsLock d2 = LKLFsLock d \<and> V' = V\<lparr>Valid := False\<rparr> \<and>
    (\<exists>built. built_calls V h built \<and>
       uefi d2 = uefi d @ [Open_protocol h Block_io Get_protocol, Open_protocol h Disk_io By_driver,
         Open_protocol h Disk_io2 By_driver] @ built @ [Open_protocol h Simple_file_system Get_protocol,
         Uninstall_sfs h] @ (if DiskIo2 V then [Close_protocol h Disk_io2] else []) @ [Close_protocol h Disk_io]) \<and>
    (DiskIo2 V \<longleftrightarrow> \<not> EFI_ERROR (e_open_protocol E
      (uefi d @ [Open_protocol h Block_io Get_protocol, Open_protocol h Disk_io By_driver]) h Disk_io2 By_driver)) \<and>
    live (world d2) = live (world d) + 1 \<and> given_back (world d2) = given_back (world d) \<and>
    mounted V (log (world d2))"
proof -
  obtain d0 d0' where alloc: "LKLAllocateVolume E K h (\<not> EFI_ERROR (e_open_protocol E
      (uefi d @ [Open_protocol h Block_io Get_protocol, Open_protocol h Disk_io By_driver]) h Disk_io2 By_driver)) d0
      = Some (S, Some V, d0')"
    and d0: "uefi d0 = uefi d @ [Open_protocol h Block_io Get_protocol, Open_protocol h Disk_io By_driver,
      Open_protocol h Disk_io2 By_driver]" "live (world d0) = live (world d)" "log (world d0) = log (world d)"
      "world d1 = world d0'" "uefi d1 = uefi d0'"
    by (rule start_started [OF start]) blast
  from allocate_built [OF alloc] stop_effect [OF stop ok] d0 Start_lock [OF start] show ?thesis
    by (auto simp: given_back_def)
qed

definition demo_efi_ok :: efi where
  "demo_efi_ok = demo_efi\<lparr>e_install := (\<lambda>h. EFI_SUCCESS), e_open_protocol := (\<lambda>tr h p a. EFI_SUCCESS)\<rparr>"

lemma demo_allocate_ok:
  "\<exists>V d'. LKLAllocateVolume demo_efi_ok disk_lkl h two d = Some (EFI_SUCCESS, Some V, d')"
  if "allocs (world d) = []"
proof -
  have "GetFsType (read_image ext4_demo) 7 = (EFI_SUCCESS, Some ''ext4'')"
    by (simp add: GetFsType_image image_type_def ext4_image_def ext4_demo_def)
  then show ?thesis using that
    by (simp add: LKLAllocateVolume_def setup_volume_def volume_done_def mount_plain_def mount_dev_def sys_def
        AllocatePool_def demo_efi_def demo_efi_ok_def disk_lkl_def Let_def)
qed

lemma demo_volume_start:
  "\<exists>V d1. LKLDriverBindingStart demo_efi_ok disk_lkl demo_collation demo_collation 2 demo_drv = Some (EFI_SUCCESS, Some V, d1)"
proof -
  have op: "e_open_protocol demo_efi_ok tr h p a = EFI_SUCCESS" for tr h p a
    by (simp add: demo_efi_ok_def)
  let ?d = "\<lparr>world = disk_world, uefi = [Open_protocol 2 Block_io Get_protocol, Open_protocol 2 Disk_io By_driver,
     Open_protocol 2 Disk_io2 By_driver], LKLFsLock = True, mUnicodeCollationInterface = Some 5\<rparr>"
  obtain V d2 where d2: "LKLAllocateVolume demo_efi_ok disk_lkl 2 True ?d = Some (EFI_SUCCESS, Some V, d2)"
    using demo_allocate_ok [of ?d 2 True] by (auto simp: disk_world_def)
  have lock: "LKLFsLock d2" using LKLAllocateVolume_lock [OF d2] by simp
  show ?thesis
    using d2 lock
    by (simp add: LKLDriverBindingStart_def LKLAcquireLockOrFail_def InitializeUnicodeCollationSupport_def
      InitializeUnicodeCollationSupportWorker_def demo_collation_def firmware_alloc_def OpenProtocol_def op
      CloseProtocol_def start_exit_def LKLReleaseLock_def demo_drv_def disk_world_def Let_def call_def FreePool_def)
qed

lemma stop_leaves_mounted_witness:
  "\<exists>V d1 V' d2. LKLDriverBindingStart demo_efi_ok disk_lkl demo_collation demo_collation 2 demo_drv = Some (EFI_SUCCESS, Some V, d1) \<and>
     LKLDriverBindingStop demo_efi_ok 2 V d1 = Some (EFI_SUCCESS, V', d2) \<and> live (world d2) = 1 \<and>
     mounted V (log (world d2)) \<and> given_back (world d2) = []"
proof -
  obtain V d1 where start: "LKLDriverBindingStart demo_efi_ok disk_lkl demo_collation demo_collation 2 demo_drv
      = Some (EFI_SUCCESS, Some V, d1)"
    using demo_volume_start by blast
  have ok: "e_open_protocol demo_efi_ok tr h p a = EFI_SUCCESS" "e_close_protocol demo_efi_ok h p = EFI_SUCCESS"
    "e_uninstall demo_efi_ok h = EFI_SUCCESS" for tr h p a
    by (simp_all add: demo_efi_ok_def demo_efi_def)
  have free: "\<not> LKLFsLock d1"
    using Start_lock [OF start] by (simp add: demo_drv_def)
  obtain V' d2 where ab: "LKLAbandonVolume demo_efi_ok V (call (Open_protocol 2 Simple_file_system Get_protocol) d1)
      = (EFI_SUCCESS, V', d2)"
    using free ok by (auto simp: LKLAbandonVolume_def LKLAcquireLockOrFail_def call_def Let_def split: if_splits prod.splits)
  have "\<exists>V' d2. LKLDriverBindingStop demo_efi_ok 2 V d1 = Some (EFI_SUCCESS, V', d2)"
    by (simp add: LKLDriverBindingStop_def OpenProtocol_def CloseProtocol_def ok ab Let_def)
  then obtain V' d2 where stop: "LKLDriverBindingStop demo_efi_ok 2 V d1 = Some (EFI_SUCCESS, V', d2)"
    by blast
  from stop_leaves_mounted [OF start stop] start stop show ?thesis
    by (auto simp: demo_drv_def disk_world_def given_back_def)
qed

end
