(* ===== verification/Host.thy ===== *)
theory Host imports Lk_Boot Driver begin

text \<open>
  The host operations that the Linux kernel library runs on (\<open>UefiHost.c\<close>): semaphores, mutexes,
  threads and timers on the thread package, the clock, and the block device on the disk protocols.

  An operation that makes several calls of the thread package is a \<open>program\<close>: from the program
  counter and the value of the last call it gives the next action or the result. Between two
  actions other threads may run, so the programs are what a thread does, and \<open>Lk_System.exec\<close> is
  what each of its calls does.
\<close>

section \<open>Programs\<close>

text \<open>
  \<open>Timer_function\<close> calls a function with its argument, \<open>Request_stop\<close> sets the field \<open>request_stop\<close> of a timer,
  \<open>Read_stop\<close> reads it. A call of the firmware gives its status, as a signed number: errors are negative.
  \<open>Crash\<close> is a failed \<open>ASSERT\<close> or an access
  through a null pointer.
\<close>

datatype action =
  Lk kop | Free_memory | Timer_function nat nat | Create_timer nat | Set_timer nat u64 | Close_timer nat
| Set_periodic nat u64 | Request_stop | Read_stop | Crash

type_synonym program = "nat \<Rightarrow> int \<Rightarrow> (action \<times> nat) + int"

section \<open>Semaphores and mutexes\<close>

text \<open>\<open>s\<close> is the semaphore in the allocated structure, or \<open>None\<close> when the allocation failed.\<close>

definition sem_alloc :: "nat option \<Rightarrow> nat \<Rightarrow> program" where
  "sem_alloc s n pc ret =
    (case s of None \<Rightarrow> Inr 0
     | Some s \<Rightarrow> if pc = 0 then Inl (Lk (Sem_init s n), 1) else Inr (int s))"

definition sem_free :: "nat \<Rightarrow> program" where
  "sem_free s pc ret =
    (if pc = 0 then Inl (Lk (Sem_destroy s), 1) else if pc = 1 then Inl (Free_memory, 2) else Inr 0)"

definition sem_up :: "nat \<Rightarrow> program" where
  "sem_up s pc ret = (if pc = 0 then Inl (Lk (Sem_post s True), 1) else Inr 0)"

text \<open>\<open>do { thread_yield(); err = sem_wait(); } while (err < 0);\<close>\<close>

definition sem_down :: "nat \<Rightarrow> program" where
  "sem_down s pc ret =
    (if pc = 0 then Inl (Lk Yield, 1)
     else if pc = 1 then Inl (Lk (Sem_wait_op s), 2)
     else if ret < 0 then Inl (Lk Yield, 1) else Inr 0)"

record lkl_mutex =
  recursive :: bool
  lkl_mutex_mutex :: nat
  lkl_mutex_sem :: nat

definition mutex_alloc :: "nat option \<Rightarrow> lkl_mutex \<Rightarrow> program" where
  "mutex_alloc p m pc ret =
    (case p of None \<Rightarrow> Inr 0
     | Some p \<Rightarrow>
         if pc = 0 then Inl (Lk (if recursive m then Mutex_init (lkl_mutex_mutex m)
                                 else Sem_init (lkl_mutex_sem m) 1), 1)
         else Inr (int p))"

definition mutex_lock :: "lkl_mutex \<Rightarrow> program" where
  "mutex_lock m pc ret =
    (if recursive m then
       if pc = 0 then Inl (Lk (Mutex_acquire (lkl_mutex_mutex m) INFINITE_TIME), 1) else Inr 0
     else sem_down (lkl_mutex_sem m) pc ret)"

definition mutex_unlock :: "lkl_mutex \<Rightarrow> program" where
  "mutex_unlock m pc ret =
    (if pc = 0 then Inl (Lk (if recursive m then Mutex_release (lkl_mutex_mutex m)
                             else Sem_post (lkl_mutex_sem m) True), 1)
     else Inr 0)"

definition mutex_free :: "lkl_mutex \<Rightarrow> program" where
  "mutex_free m pc ret =
    (if pc = 0 then Inl (Lk (if recursive m then Mutex_destroy (lkl_mutex_mutex m)
                             else Sem_destroy (lkl_mutex_sem m)), 1)
     else if pc = 1 then Inl (Free_memory, 2) else Inr 0)"

section \<open>The clock\<close>

definition MS2100N :: "u32 \<Rightarrow> u32" where "MS2100N x = x * (1000000 div 100)"

text \<open>\<open>TimerCallback\<close>: 10 milliseconds have passed.\<close>

definition TimerCallback :: "u32 \<Rightarrow> kernel \<Rightarrow> u32 \<times> kres" where
  "TimerCallback ticks k = (ticks + 10, timer_interrupt [] k)"

text \<open>The second half of \<open>lkl_thread_init\<close>: the event \<open>ev\<close> calls \<open>TimerCallback\<close> every 10 milliseconds.\<close>

definition start_ticks :: "nat \<Rightarrow> program" where
  "start_ticks ev pc ret =
    (if pc = 0 then Inl (Create_timer ev, 1)
     else if ret < 0 then Inl (Crash, pc)
     else if pc = 1 then Inl (Set_periodic ev (ucast (MS2100N 10)), 2)
     else Inr 0)"

definition current_time :: "u32 \<Rightarrow> u32" where "current_time ticks = ticks"

definition current_time_hires :: "u32 \<Rightarrow> u64" where "current_time_hires ticks = ucast ticks * 1000"

definition time_ns :: "u32 \<Rightarrow> u64" where "time_ns ticks = ucast (current_time ticks) * 1000000"

section \<open>Threads\<close>

text \<open>\<open>t\<close> and \<open>stk\<close> are the memory the allocator hands out for the structure and the stack.\<close>

definition lkl_thread_create :: "tid \<Rightarrow> nat \<Rightarrow> nat \<Rightarrow> nat option \<Rightarrow> program" where
  "lkl_thread_create t fn arg stk pc ret =
    (if pc = 0 then Inl (Lk (Create t ''lkl'' fn arg DEFAULT_PRIORITY (2 * 1024 * 1024) stk), 1)
     else if pc = 1 then (if ret = 0 then Inr 0 else Inl (Lk (Resume (nat ret)), 2))
     else Inr (int t))"

definition lkl_thread_detach :: "tid \<Rightarrow> program" where
  "lkl_thread_detach self pc ret = (if pc = 0 then Inl (Lk (Detach self), 1) else Inr 0)"

definition lkl_thread_exit :: program where
  "lkl_thread_exit pc ret = (if pc = 0 then Inl (Lk (Exit 0), 1) else Inr 0)"

definition lkl_thread_join :: "tid \<Rightarrow> program" where
  "lkl_thread_join t pc ret =
    (if pc = 0 then Inl (Lk (Join t None INFINITE_TIME), 1) else Inr (if ret \<noteq> 0 then -1 else 0))"

definition thread_self :: "kernel \<Rightarrow> tid" where "thread_self k = current_thread k"

definition thread_equal :: "tid \<Rightarrow> tid \<Rightarrow> bool" where "thread_equal a b \<longleftrightarrow> a = b"

definition gettid :: "kernel \<Rightarrow> tid" where "gettid k = current_thread k"

section \<open>Timers\<close>

text \<open>
  A timer: its address, the client's function and argument, its event object, its UEFI event and its
  thread. The stop request is read and set by actions.
\<close>

record ltimer =
  ltimer_address :: nat
  ltimer_fn :: nat
  ltimer_arg :: nat
  ltimer_cond :: nat
  ltimer_event :: nat
  ltimer_thread :: tid

definition LTimerCallback :: "ltimer \<Rightarrow> program" where
  "LTimerCallback x pc ret = (if pc = 0 then Inl (Lk (Event_signal (ltimer_cond x) True), 1) else Inr 0)"

text \<open>The timer's thread: the loop tests the stop request before the wait and after it.\<close>

definition timer_thread :: "ltimer \<Rightarrow> program" where
  "timer_thread x pc ret =
    (if pc = 0 then Inl (Read_stop, 1)
     else if pc = 1 then
       if ret = 0 then Inl (Lk (Event_wait_op (ltimer_cond x) INFINITE_TIME), 2)
       else Inl (Lk (Event_destroy (ltimer_cond x)), 4)
     else if pc = 2 then Inl (Read_stop, 3)
     else if pc = 3 then
       if ret \<noteq> 0 then Inl (Lk (Event_destroy (ltimer_cond x)), 4) else Inl (Timer_function (ltimer_fn x) (ltimer_arg x), 0)
     else if pc = 4 then Inl (Free_memory, 5)
     else Inr 0)"

text \<open>
  \<open>x\<close> is the structure with the client's function and argument stored, \<open>entry\<close> the address of the code of
  \<open>timer_thread\<close>, which gets the structure as its argument.
\<close>

definition timer_alloc :: "bool \<Rightarrow> ltimer \<Rightarrow> nat \<Rightarrow> nat option \<Rightarrow> program" where
  "timer_alloc allocated x entry stk pc ret =
    (if \<not> allocated then Inl (Crash, pc)
     else if pc = 0 then Inl (Lk (Event_init (ltimer_cond x) False EVENT_FLAG_AUTOUNSIGNAL), 1)
     else if pc = 1 then Inl (Create_timer (ltimer_event x), 2)
     else if pc = 2 then
       if ret < 0 then Inl (Crash, pc)
       else Inl (Lk (Create (ltimer_thread x) ''timer'' entry (ltimer_address x) DEFAULT_PRIORITY (1024 * 1024) stk), 3)
     else if pc = 3 then
       if ret = 0 then Inl (Crash, pc) else Inl (Lk (Detach_and_resume (ltimer_thread x)), 4)
     else Inr (int (ltimer_address x)))"

definition ltimer_set_oneshot :: "ltimer \<Rightarrow> u32 \<Rightarrow> program" where
  "ltimer_set_oneshot x ns pc ret =
    (if pc = 0 then Inl (Set_timer (ltimer_event x) (ucast (ns div 100)), 1)
     else if ret < 0 then Inl (Crash, pc)
     else Inr 0)"

definition timer_free :: "ltimer \<Rightarrow> program" where
  "timer_free x pc ret =
    (if pc = 0 then Inl (Close_timer (ltimer_event x), 1)
     else if pc = 1 then if ret < 0 then Inl (Crash, pc) else Inl (Request_stop, 2)
     else if pc = 2 then Inl (Lk (Event_signal (ltimer_cond x) True), 3)
     else Inr 0)"

section \<open>Memory, output and panic\<close>

text \<open>\<open>print\<close> writes in a debug build only; \<open>out\<close> is what was written so far.\<close>

definition host_print :: "bool \<Rightarrow> string \<Rightarrow> nat \<Rightarrow> string \<Rightarrow> string" where
  "host_print debug str len out = (if debug then out @ take len str else out)"

definition lkl_panic :: kres where "lkl_panic = Panic ''ASSERT(0)''"

definition lkl_mem_alloc :: "'s world \<Rightarrow> bool \<times> 's world" where
  "lkl_mem_alloc w = AllocatePool w"

definition lkl_mem_free :: "bool \<Rightarrow> 's world \<Rightarrow> 's world" where
  "lkl_mem_free ptr w = (if ptr then FreePool w else w)"

section \<open>The block device\<close>

definition uefi_blk_get_capacity :: "u64 \<Rightarrow> u32 \<Rightarrow> u64" where
  "uefi_blk_get_capacity LastBlock block_size = (LastBlock + 1) * ucast block_size"

datatype blk_type =
  LKL_DEV_BLK_TYPE_READ | LKL_DEV_BLK_TYPE_WRITE | LKL_DEV_BLK_TYPE_FLUSH | LKL_DEV_BLK_TYPE_FLUSH_OUT
| Other_blk_type nat

datatype blk_status = LKL_DEV_BLK_STATUS_OK | LKL_DEV_BLK_STATUS_IOERR | LKL_DEV_BLK_STATUS_UNSUP

text \<open>A buffer of the request: its length (an \<open>int\<close>) and its content.\<close>

type_synonym iovec = "u32 \<times> u8 list"

record blk_req =
  blk_type :: blk_type
  blk_sector :: u64
  blk_buf :: "iovec list"

text \<open>\<open>ReadDisk\<close> and \<open>WriteDisk\<close>: media, offset, length and buffer to status, buffer and disk.\<close>

type_synonym 'd disk_fn = "u32 \<Rightarrow> u64 \<Rightarrow> u32 \<Rightarrow> u8 list \<Rightarrow> 'd \<Rightarrow> EFI_STATUS \<times> u8 list \<times> 'd"

primrec rw_loop :: "'d disk_fn \<Rightarrow> u32 \<Rightarrow> iovec list \<Rightarrow> u64 \<Rightarrow> 'd \<Rightarrow> int \<times> iovec list \<times> 'd" where
  "rw_loop fn media [] off d = (0, [], d)"
| "rw_loop fn media (b # bs) off d =
    (let (len, addr) = b;
         (Status, addr, d) = fn media off len addr d
     in if EFI_ERROR Status then (-1, (len, addr) # bs, d)
        else let (ret, bs, d) = rw_loop fn media bs (off + scast len) d in (ret, (len, addr) # bs, d))"

definition do_rw :: "u32 \<Rightarrow> 'd disk_fn \<Rightarrow> blk_req \<Rightarrow> 'd \<Rightarrow> int \<times> iovec list \<times> 'd" where
  "do_rw media fn req d = rw_loop fn media (blk_buf req) (blk_sector req * 512) d"

definition uefi_blk_request ::
  "'d disk_fn \<Rightarrow> 'd disk_fn \<Rightarrow> ('d \<Rightarrow> 'd) \<Rightarrow> u32 \<Rightarrow> blk_req \<Rightarrow> 'd \<Rightarrow> blk_status \<times> iovec list \<times> 'd" where
  "uefi_blk_request ReadDisk WriteDisk FlushBlocks media req d =
    (case blk_type req of
       Other_blk_type n \<Rightarrow> (LKL_DEV_BLK_STATUS_UNSUP, blk_buf req, d)
     | ty \<Rightarrow>
       let (err, bufs, d) =
         (case ty of
            LKL_DEV_BLK_TYPE_READ \<Rightarrow> do_rw media ReadDisk req d
          | LKL_DEV_BLK_TYPE_WRITE \<Rightarrow> do_rw media WriteDisk req d
          | _ \<Rightarrow> (0, blk_buf req, FlushBlocks d))
       in (if err < 0 then LKL_DEV_BLK_STATUS_IOERR else LKL_DEV_BLK_STATUS_OK, bufs, d))"

section \<open>Requests on a byte disk\<close>

text \<open>Disk protocols that cannot fail, on the disk as a function from offsets to bytes.\<close>

type_synonym disk = "u64 \<Rightarrow> u8"

definition disk_read :: "disk disk_fn" where
  "disk_read media off len addr d = (EFI_SUCCESS, map (\<lambda>i. d (off + word_of_nat i)) [0..<unat len], d)"

definition disk_put :: "u64 \<Rightarrow> u8 list \<Rightarrow> disk \<Rightarrow> disk" where
  "disk_put off bs d = (\<lambda>a. if unat (a - off) < length bs then bs ! unat (a - off) else d a)"

definition disk_write :: "disk disk_fn" where
  "disk_write media off len addr d = (EFI_SUCCESS, addr, disk_put off (take (unat len) addr) d)"

definition bytes :: "disk \<Rightarrow> u64 \<Rightarrow> nat \<Rightarrow> u8 list" where
  "bytes d off n = map (\<lambda>i. d (off + word_of_nat i)) [0..<n]"

text \<open>A buffer whose length field is not negative and says how long it is.\<close>

definition iov_ok :: "iovec \<Rightarrow> bool" where
  "iov_ok b \<longleftrightarrow> length (snd b) = unat (fst b) \<and> \<not> neg (fst b)"

definition total :: "iovec list \<Rightarrow> nat" where
  "total bs = sum_list (map (\<lambda>b. length (snd b)) bs)"

lemma total_simps [simp]: "total [] = 0" "total (b # bs) = length (snd b) + total bs"
  by (simp_all add: total_def)

lemma total_concat: "length (concat (map snd bs)) = total bs"
  by (induction bs) simp_all

lemma iov_offset:
  fixes len :: u32
  assumes "\<not> neg len"
  shows "scast len = (word_of_nat (unat len) :: u64)"
proof -
  let ?u = "uint len"
  have s: "sint len = (?u + 2 ^ 31) mod 2 ^ 32 - 2 ^ 31"
    by (simp add: sint_uint signed_take_bit_eq_take_bit_shift take_bit_eq_mod)
  have u: "0 \<le> ?u" "?u < 2 ^ 32" using unsigned_less [where 'a = int, of len] by simp_all
  have "?u < 2 ^ 31"
  proof (rule ccontr)
    assume big: "\<not> ?u < 2 ^ 31"
    have "(?u + 2 ^ 31) mod 2 ^ 32 = (?u - 2 ^ 31 + 2 ^ 32) mod 2 ^ 32" by (simp add: algebra_simps)
    also have "\<dots> = ?u - 2 ^ 31" unfolding mod_add_self2 using big u by (intro mod_pos_pos_trivial) auto
    finally have "sint len < 0" using s u by simp
    then show False using assms by (simp add: neg_def)
  qed
  then have "(?u + 2 ^ 31) mod 2 ^ 32 = ?u + 2 ^ 31" using u by (intro mod_pos_pos_trivial) auto
  then have "sint len = uint len" using s by simp
  then have "(scast len :: u64) = word_of_int (uint len)" by (simp add: scast_eq)
  then show ?thesis by simp
qed

lemma bytes_append: "bytes d off (m + n) = bytes d off m @ bytes d (off + word_of_nat m) n"
  by (rule nth_equalityI) (auto simp: bytes_def nth_append add.assoc simp flip: of_nat_add)

lemma unat_small: "n < 2 ^ 64 \<Longrightarrow> unat (word_of_nat n :: u64) = n"
  by (simp add: unsigned_of_nat take_bit_nat_eq_self)

lemma bytes_put: "length bs \<le> 2 ^ 64 \<Longrightarrow> bytes (disk_put off bs d) off (length bs) = bs"
  by (rule nth_equalityI) (auto simp: bytes_def disk_put_def unat_small)

lemma put_append:
  assumes "length as + length bs \<le> 2 ^ 64"
  shows "disk_put (off + word_of_nat (length as)) bs (disk_put off as d) = disk_put off (as @ bs) d"
proof
  fix a :: u64
  define n where "n = unat (a - off)"
  have n: "n < 2 ^ 64" unfolding n_def using unsigned_less [where 'a = nat, of "a - off"] by simp
  have a: "a - off = word_of_nat n" by (simp add: n_def)
  have shift: "a - (off + word_of_nat (length as)) = word_of_nat n - word_of_nat (length as)"
    using a by (simp add: algebra_simps)
  show "disk_put (off + word_of_nat (length as)) bs (disk_put off as d) a = disk_put off (as @ bs) d a"
  proof (cases "n < length as")
    case True
    have weq: "word_of_nat n - word_of_nat (length as) = (word_of_nat (2 ^ 64 + n - length as) :: u64)"
      using assms True by (simp add: of_nat_diff of_nat_add)
    have "unat (a - (off + word_of_nat (length as))) = 2 ^ 64 + n - length as"
      unfolding shift weq by (rule unat_small) (use assms True in simp)
    moreover have "\<not> 2 ^ 64 + n - length as < length bs" using assms True by linarith
    ultimately show ?thesis using True
      by (simp only: disk_put_def n_def [symmetric] if_False length_append) (simp add: nth_append)
  next
    case False
    have "word_of_nat n - word_of_nat (length as) = (word_of_nat (n - length as) :: u64)"
      using False by (simp add: of_nat_diff)
    then have "unat (a - (off + word_of_nat (length as))) = n - length as"
      using n unfolding shift by (simp add: unat_small)
    then show ?thesis using False by (auto simp: disk_put_def nth_append simp flip: n_def)
  qed
qed

lemma write_loop:
  assumes "list_all iov_ok bs" "total bs \<le> 2 ^ 64"
  shows "rw_loop disk_write media bs off d = (0, bs, disk_put off (concat (map snd bs)) d)"
  using assms
proof (induction bs arbitrary: off d)
  case Nil
  show ?case by (simp add: disk_put_def)
next
  case (Cons b bs)
  obtain len addr where b: "b = (len, addr)" by fastforce
  with Cons.prems have len: "length addr = unat len" "\<not> neg len" by (auto simp: iov_ok_def)
  have IH: "rw_loop disk_write media bs (off + scast len) (disk_put off addr d) =
    (0, bs, disk_put (off + scast len) (concat (map snd bs)) (disk_put off addr d))"
    using Cons b by simp
  have "disk_put (off + scast len) (concat (map snd bs)) (disk_put off addr d) =
    disk_put off (addr @ concat (map snd bs)) d"
    using put_append [of addr "concat (map snd bs)" off d] Cons.prems b len
    by (simp add: iov_offset total_concat)
  then show ?case using IH b len by (simp add: disk_write_def [of media off])
qed

lemma read_loop:
  assumes "list_all iov_ok bs"
  shows "\<exists>rs. rw_loop disk_read media bs off d = (0, rs, d) \<and> map fst rs = map fst bs
    \<and> concat (map snd rs) = bytes d off (total bs)"
  using assms
proof (induction bs arbitrary: off)
  case Nil
  show ?case by (simp add: bytes_def)
next
  case (Cons b bs)
  obtain len addr where b: "b = (len, addr)" by fastforce
  with Cons.prems have len: "length addr = unat len" "\<not> neg len" by (auto simp: iov_ok_def)
  obtain rs where rs: "rw_loop disk_read media bs (off + scast len) d = (0, rs, d)" "map fst rs = map fst bs"
    "concat (map snd rs) = bytes d (off + scast len) (total bs)"
    using Cons by fastforce
  then show ?case using b len
    by (auto simp: disk_read_def [of media off] bytes_append iov_offset) (simp add: bytes_def)
qed

end
