(* ===== verification/Host_System.thy ===== *)
theory Host_System imports Host Lk_Semaphores begin

text \<open>
  The host operations of \<open>UefiHost.c\<close> running on the thread package: every thread is outside of the
  library, about to do the next action of an operation's program, or inside a call of the package.
  A step of the system is an action of the current thread or a timer interrupt; the value that
  \<open>kstep\<close> gives belongs to the thread that runs afterwards.

  The timer threads and the callbacks of the UEFI events are left out, since their bodies are functions of
  the Linux kernel library.
\<close>

section \<open>Operations in progress\<close>

datatype host_call =
  Call_sem_alloc "nat option" nat | Call_sem_free nat | Call_sem_up nat | Call_sem_down nat
| Call_mutex_alloc "nat option" lkl_mutex | Call_mutex_free lkl_mutex
| Call_mutex_lock lkl_mutex | Call_mutex_unlock lkl_mutex
| Call_thread_create tid nat nat "nat option" | Call_thread_detach tid | Call_thread_exit
| Call_thread_join tid

fun program_of :: "host_call \<Rightarrow> program" where
  "program_of (Call_sem_alloc s n) = sem_alloc s n"
| "program_of (Call_sem_free s) = sem_free s"
| "program_of (Call_sem_up s) = sem_up s"
| "program_of (Call_sem_down s) = sem_down s"
| "program_of (Call_mutex_alloc p m) = mutex_alloc p m"
| "program_of (Call_mutex_free m) = mutex_free m"
| "program_of (Call_mutex_lock m) = mutex_lock m"
| "program_of (Call_mutex_unlock m) = mutex_unlock m"
| "program_of (Call_thread_create t fn arg stk) = lkl_thread_create t fn arg stk"
| "program_of (Call_thread_detach t) = lkl_thread_detach t"
| "program_of Call_thread_exit = lkl_thread_exit"
| "program_of (Call_thread_join t) = lkl_thread_join t"

text \<open>\<open>Ready_at c pc r\<close>: the last call returned \<open>r\<close>. \<open>In_call c pc\<close>: inside a call, to go on at \<open>pc\<close>.\<close>

datatype position = Outside | Ready_at host_call nat int | In_call host_call nat

record host =
  kern :: kernel
  place :: "tid \<Rightarrow> position"
  interrupted :: "tid \<Rightarrow> bool"

text \<open>The thread that runs now gets the value, unless it was only interrupted.\<close>

definition deliver :: "int \<Rightarrow> host \<Rightarrow> host" where
  "deliver v h =
    (let t = current_thread (kern h)
     in if interrupted h t then h\<lparr>interrupted := (interrupted h)(t := False)\<rparr>
        else case place h t of
               In_call c pc \<Rightarrow> h\<lparr>place := (place h)(t := Ready_at c pc v)\<rparr>
             | _ \<Rightarrow> h)"

datatype host_event = Begin host_call | Return host_call | Kernel kop | Memory action

inductive hstep :: "host \<Rightarrow> tid \<times> host_event \<Rightarrow> int \<Rightarrow> host \<Rightarrow> bool" where
  begin_call: "t = current_thread (kern h) \<Longrightarrow> t \<noteq> idle_thread \<Longrightarrow> place h t = Outside \<Longrightarrow>
     hstep h (t, Begin c) 0 (h\<lparr>place := (place h)(t := Ready_at c 0 0)\<rparr>)"
| return_call: "t = current_thread (kern h) \<Longrightarrow> place h t = Ready_at c pc r \<Longrightarrow> program_of c pc r = Inr x \<Longrightarrow>
     hstep h (t, Return c) x (h\<lparr>place := (place h)(t := Outside)\<rparr>)"
| kernel_call: "t = current_thread (kern h) \<Longrightarrow> place h t = Ready_at c pc r \<Longrightarrow>
     program_of c pc r = Inl (Lk a, pc') \<Longrightarrow> kstep (kern h) a v k' \<Longrightarrow>
     hstep h (t, Kernel a) v (deliver v (h\<lparr>kern := k', place := (place h)(t := In_call c pc')\<rparr>))"
| memory: "t = current_thread (kern h) \<Longrightarrow> place h t = Ready_at c pc r \<Longrightarrow>
     program_of c pc r = Inl (Free_memory, pc') \<Longrightarrow>
     hstep h (t, Memory Free_memory) 0 (h\<lparr>place := (place h)(t := Ready_at c pc' 0)\<rparr>)"
| interrupt: "t = current_thread (kern h) \<Longrightarrow> a = Timer_interrupt \<or> a = Preempt \<and> t = idle_thread \<Longrightarrow>
     kstep (kern h) a v k' \<Longrightarrow>
     hstep h (t, Kernel a) v (deliver v (h\<lparr>kern := k', interrupted := (interrupted h)(t := True)\<rparr>))"

section \<open>Semaphores as the host uses them\<close>

text \<open>The operations that take from the semaphore \<open>s\<close>, those that give to it, and those that touch it.\<close>

fun down_on :: "nat \<Rightarrow> host_call \<Rightarrow> bool" where
  "down_on s (Call_sem_down u) \<longleftrightarrow> u = s"
| "down_on s (Call_mutex_lock m) \<longleftrightarrow> \<not> recursive m \<and> lkl_mutex_sem m = s"
| "down_on s _ \<longleftrightarrow> False"

fun up_on :: "nat \<Rightarrow> host_call \<Rightarrow> bool" where
  "up_on s (Call_sem_up u) \<longleftrightarrow> u = s"
| "up_on s (Call_mutex_unlock m) \<longleftrightarrow> \<not> recursive m \<and> lkl_mutex_sem m = s"
| "up_on s _ \<longleftrightarrow> False"

fun call_sem :: "host_call \<Rightarrow> nat option" where
  "call_sem (Call_sem_alloc s n) = s"
| "call_sem (Call_sem_free s) = Some s"
| "call_sem (Call_sem_up s) = Some s"
| "call_sem (Call_sem_down s) = Some s"
| "call_sem (Call_mutex_alloc p m) = (if recursive m then None else Some (lkl_mutex_sem m))"
| "call_sem (Call_mutex_free m) = (if recursive m then None else Some (lkl_mutex_sem m))"
| "call_sem (Call_mutex_lock m) = (if recursive m then None else Some (lkl_mutex_sem m))"
| "call_sem (Call_mutex_unlock m) = (if recursive m then None else Some (lkl_mutex_sem m))"
| "call_sem _ = None"

definition regular :: "nat \<Rightarrow> host_call \<Rightarrow> bool" where
  "regular s c \<longleftrightarrow> (call_sem c = Some s \<longrightarrow> down_on s c \<or> up_on s c)"

lemmas program_defs = sem_alloc_def sem_free_def sem_up_def sem_down_def mutex_alloc_def mutex_free_def
  mutex_lock_def mutex_unlock_def lkl_thread_create_def lkl_thread_detach_def lkl_thread_exit_def
  lkl_thread_join_def

lemma program_sem:
  assumes "program_of c pc r = Inl (Lk a, pc')" "on_sem a = Some s"
  shows "call_sem c = Some s"
  using assms by (cases c) (auto simp: program_defs split: if_splits option.splits)

lemma down_program: "down_on s c \<Longrightarrow> program_of c = sem_down s"
  by (cases c) (auto simp: mutex_lock_def fun_eq_iff)

lemma up_program: "up_on s c \<Longrightarrow> program_of c = sem_up s"
  by (cases c) (auto simp: mutex_unlock_def sem_up_def fun_eq_iff)

lemma down_not_up: "down_on s c \<Longrightarrow> \<not> up_on s c"
  by (cases c) auto

text \<open>
  Threads inside \<open>sem_wait\<close>, threads it let through that have not returned yet, and threads that
  will post. \<open>load\<close> counts them; no step makes the sum of the load and the semaphore's count larger,
  except the start of an operation that posts.
\<close>

fun is_waiting :: "nat \<Rightarrow> position \<Rightarrow> bool" where
  "is_waiting s (In_call c pc) \<longleftrightarrow> down_on s c \<and> 1 < pc"
| "is_waiting s _ \<longleftrightarrow> False"

fun is_through :: "nat \<Rightarrow> position \<Rightarrow> bool" where
  "is_through s (Ready_at c pc r) \<longleftrightarrow> down_on s c \<and> 1 < pc \<and> 0 \<le> r"
| "is_through s _ \<longleftrightarrow> False"

fun is_posting :: "nat \<Rightarrow> position \<Rightarrow> bool" where
  "is_posting s (Ready_at c pc r) \<longleftrightarrow> up_on s c \<and> pc = 0"
| "is_posting s _ \<longleftrightarrow> False"

fun position_ok :: "nat \<Rightarrow> position \<Rightarrow> bool" where
  "position_ok s Outside \<longleftrightarrow> True"
| "position_ok s (Ready_at c pc r) \<longleftrightarrow> regular s c"
| "position_ok s (In_call c pc) \<longleftrightarrow> regular s c \<and> (up_on s c \<longrightarrow> pc \<noteq> 0)"

definition share :: "nat \<Rightarrow> position \<Rightarrow> int" where
  "share s p = of_bool (is_waiting s p) + of_bool (is_through s p) + of_bool (is_posting s p)"

definition load_finite :: "nat \<Rightarrow> host \<Rightarrow> bool" where
  "load_finite s h \<longleftrightarrow> finite {t. is_waiting s (place h t)} \<and> finite {t. is_through s (place h t)} \<and>
     finite {t. is_posting s (place h t)}"

definition load :: "nat \<Rightarrow> host \<Rightarrow> int" where
  "load s h = int (card {t. is_waiting s (place h t)}) + int (card {t. is_through s (place h t)}) +
     int (card {t. is_posting s (place h t)})"

definition host_inv :: "nat \<Rightarrow> int \<Rightarrow> host \<Rightarrow> bool" where
  "host_inv s n h \<longleftrightarrow> reachable (kern h) \<and> (\<forall>t. position_ok s (place h t)) \<and> load_finite s h \<and>
     (\<forall>t\<in>set (waiters (kern h) (Sem_wait s)). is_waiting s (place h t)) \<and>
     load s h + s_count (sems (kern h) s) \<le> n"

lemma card_upd:
  assumes "finite {u. P (f u)}"
  shows "finite {u. P ((f(t := p)) u)}"
    and "int (card {u. P ((f(t := p)) u)}) = int (card {u. P (f u)}) - of_bool (P (f t)) + of_bool (P p)"
proof -
  have rest: "finite ({u. P (f u)} - {t})" using assms by simp
  have eq: "{u. P ((f(t := p)) u)} = (if P p then insert t ({u. P (f u)} - {t}) else {u. P (f u)} - {t})"
    by auto
  then show "finite {u. P ((f(t := p)) u)}" using rest by simp
  have "P (f t) \<Longrightarrow> 0 < card {u. P (f u)}" using assms by (auto simp: card_gt_0_iff)
  then show "int (card {u. P ((f(t := p)) u)}) = int (card {u. P (f u)}) - of_bool (P (f t)) + of_bool (P p)"
    unfolding eq using rest assms by (auto simp: card_insert_disjoint card_Diff_singleton_if simp del: insert_Diff_single)
qed

lemma load_upd:
  assumes "load_finite s h" "place h' = (place h)(t := p)"
  shows "load_finite s h'" "load s h' = load s h - share s (place h t) + share s p"
  using assms card_upd [of _ "place h" t p] by (simp_all add: load_finite_def load_def share_def)

lemma running_not_waiting:
  assumes "reachable k"
  shows "current_thread k \<notin> set (waiters k w)"
proof -
  have "user_inv k" using assms by (rule reachable_inv)
  then have "tstate k (current_thread k) = THREAD_RUNNING" "base_inv {} k"
    by (simp_all add: user_inv_def sched_inv_def)
  then show ?thesis by (simp add: base_inv_def waitq_ok_def)
qed

lemma deliver_inv:
  assumes "host_inv s n h"
  shows "host_inv s n (deliver v h)"
proof -
  let ?t = "current_thread (kern h)"
  have nw: "?t \<notin> set (waiters (kern h) (Sem_wait s))"
    using assms by (intro running_not_waiting) (simp add: host_inv_def)
  show ?thesis
  proof (cases "place h ?t")
    case (In_call c pc)
    let ?h = "h\<lparr>place := (place h)(?t := Ready_at c pc v)\<rparr>"
    have "position_ok s (In_call c pc)" using assms In_call unfolding host_inv_def by metis
    then have "share s (Ready_at c pc v) \<le> share s (place h ?t)" "position_ok s (Ready_at c pc v)"
      using In_call by (auto simp: share_def)
    with load_upd [of s h ?h ?t "Ready_at c pc v"] assms nw have "host_inv s n ?h"
      by (auto simp: host_inv_def)
    moreover have "host_inv s n (h\<lparr>interrupted := i\<rparr>)" for i
      using assms by (simp add: host_inv_def load_finite_def load_def)
    ultimately show ?thesis by (simp add: deliver_def In_call Let_def)
  qed (use assms in \<open>simp_all add: deliver_def Let_def host_inv_def load_finite_def load_def\<close>)
qed

section \<open>Steps keep the bound\<close>

lemma kernel_call_inv:
  assumes inv: "host_inv s n h" and t: "t = current_thread (kern h)" "place h t = Ready_at c pc r"
    and act: "program_of c pc r = Inl (Lk a, pc')" and step: "kstep (kern h) a v k'"
  shows "host_inv s n (h\<lparr>kern := k', place := (place h)(t := In_call c pc')\<rparr>)"
proof -
  let ?h = "h\<lparr>kern := k', place := (place h)(t := In_call c pc')\<rparr>"
  have reg: "regular s c" using inv t(2) unfolding host_inv_def by (metis position_ok.simps(2))
  have calm: "calm (kern h)" using inv by (intro reachable_calm) (simp add: host_inv_def)
  have sems: "on_sem a = Some s \<Longrightarrow> down_on s c \<or> up_on s c"
    using program_sem [OF act] reg by (auto simp: regular_def)
  consider (down) "down_on s c" | (up) "up_on s c" | (other) "\<not> down_on s c" "\<not> up_on s c" by blast
  then have "\<not> resets s a \<and> (takes_from s a v \<longrightarrow> is_waiting s (In_call c pc')) \<and> position_ok s (In_call c pc')
    \<and> share s (In_call c pc') + sem_change s a v \<le> share s (Ready_at c pc r)"
  proof cases
    case down
    then have "sem_down s pc r = Inl (Lk a, pc')" using act by (simp add: down_program)
    then show ?thesis
      using down reg down_not_up [OF down] by (auto simp: sem_down_def share_def sem_change_def split: if_splits)
  next
    case up
    then have "sem_up s pc r = Inl (Lk a, pc')" using act by (simp add: up_program)
    then show ?thesis
      using up reg down_not_up [of s c] by (auto simp: sem_up_def share_def sem_change_def split: if_splits)
  next
    case other
    then have "on_sem a \<noteq> Some s" using sems by blast
    then have "\<not> resets s a" "\<not> takes_from s a v" "\<not> posts_to s a" by (cases a; simp)+
    then show ?thesis using other reg by (auto simp: share_def sem_change_def)
  qed
  then have a: "\<not> resets s a" "takes_from s a v \<Longrightarrow> is_waiting s (In_call c pc')"
    and ok: "position_ok s (In_call c pc')"
    and sum: "share s (In_call c pc') + sem_change s a v \<le> share s (Ready_at c pc r)" by blast+
  have k': "s_count (sems k' s) = s_count (sems (kern h) s) + sem_change s a v"
    "set (waiters k' (Sem_wait s)) \<subseteq> set (waiters (kern h) (Sem_wait s)) \<union> (if takes_from s a v then {t} else {})"
    "reachable k'"
    using kstep_sem(2) [OF calm step a(1)] kstep_sem(3) [OF calm step, of s] inv reachable_step [OF _ step]
    unfolding t(1) host_inv_def by blast+
  have "load_finite s ?h" "load s ?h = load s h - share s (Ready_at c pc r) + share s (In_call c pc')"
    using load_upd [of s h ?h t "In_call c pc'"] inv t(2) by (simp_all add: host_inv_def)
  moreover have "is_waiting s (place ?h u)" if u: "u \<in> set (waiters k' (Sem_wait s))" for u
  proof (cases "u = t")
    case True
    have "\<not> is_waiting s (place h t)" using t(2) by simp
    with inv have "t \<notin> set (waiters (kern h) (Sem_wait s))" by (auto simp: host_inv_def)
    with u True k'(2) a(2) show ?thesis by (auto split: if_splits)
  next
    case False
    with u k'(2) inv show ?thesis by (auto simp: host_inv_def split: if_splits)
  qed
  ultimately show ?thesis using inv k' ok sum by (simp add: host_inv_def)
qed

lemma interrupt_inv:
  assumes inv: "host_inv s n h" and a: "a = Timer_interrupt \<or> a = Preempt" and step: "kstep (kern h) a v k'"
  shows "host_inv s n (h\<lparr>kern := k', interrupted := i\<rparr>)"
proof -
  have calm: "calm (kern h)" using inv by (intro reachable_calm) (simp add: host_inv_def)
  have "\<not> resets s a" "\<not> takes_from s a v" "sem_change s a v = 0" using a by (auto simp: sem_change_def)
  with kstep_sem(2) [OF calm step] kstep_sem(3) [OF calm step, of s] inv reachable_step [OF _ step]
  show ?thesis by (auto simp: host_inv_def load_finite_def load_def)
qed

lemma hstep_inv:
  assumes inv: "host_inv s n h" and step: "hstep h (t, e) v h'" and ok: "\<And>c. e = Begin c \<Longrightarrow> regular s c"
  shows "host_inv s (n + of_bool (\<exists>c. e = Begin c \<and> up_on s c) - of_bool (\<exists>c. e = Return c \<and> down_on s c)) h'"
proof (cases rule: hstep.cases [OF step])
  case (1 t' g c)
  with inv ok load_upd [of s h h' t "Ready_at c 0 0"] show ?thesis
    by (auto simp: host_inv_def share_def)
next
  case (2 t' g c pc r)
  then have "down_on s c \<Longrightarrow> 1 < pc \<and> 0 \<le> r"
    by (auto simp: down_program sem_down_def split: if_splits)
  then have "of_bool (down_on s c) \<le> share s (place h t)" using 2 by (auto simp: share_def)
  with 2 inv load_upd [of s h h' t Outside] show ?thesis by (auto simp: host_inv_def share_def)
next
  case (3 t' g c pc r a pc' x k')
  with kernel_call_inv [OF inv, of t c pc r a pc' v k'] show ?thesis by (simp add: deliver_inv)
next
  case (4 t' g c pc r pc')
  have "\<not> down_on s c" "\<not> up_on s c"
    using 4 by (auto simp: down_program up_program sem_down_def sem_up_def split: if_splits)
  moreover have "regular s c" using inv 4 unfolding host_inv_def by (metis position_ok.simps(2) Pair_inject)
  ultimately show ?thesis using 4 inv load_upd [of s h h' t "Ready_at c pc' 0"]
    by (auto simp: host_inv_def share_def)
next
  case (5 t' g a x k')
  with interrupt_inv [OF inv, of a v k'] show ?thesis by (auto intro!: deliver_inv)
qed

text \<open>How many operations of a kind began and returned in a trace.\<close>

definition begun :: "(host_call \<Rightarrow> bool) \<Rightarrow> ((tid \<times> host_event) \<times> int) list \<Rightarrow> nat" where
  "begun P tr = length (filter (\<lambda>((t, e), v). case e of Begin c \<Rightarrow> P c | _ \<Rightarrow> False) tr)"

definition returned :: "(host_call \<Rightarrow> bool) \<Rightarrow> ((tid \<times> host_event) \<times> int) list \<Rightarrow> nat" where
  "returned P tr = length (filter (\<lambda>((t, e), v). case e of Return c \<Rightarrow> P c | _ \<Rightarrow> False) tr)"

definition begins_ok :: "(host_call \<Rightarrow> bool) \<Rightarrow> ((tid \<times> host_event) \<times> int) list \<Rightarrow> bool" where
  "begins_ok P tr = list_all (\<lambda>((t, e), v). case e of Begin c \<Rightarrow> P c | _ \<Rightarrow> True) tr"

lemma run_host_inv:
  assumes "run hstep h tr h'" "host_inv s n h" "begins_ok (regular s) tr"
  shows "host_inv s (n + int (begun (up_on s) tr) - int (returned (down_on s) tr)) h'"
  using assms
proof (induction rule: run.induct)
  case (run_snoc h tr h' e v h'')
  obtain t x where e: "e = (t, x)" by fastforce
  let ?n = "n + int (begun (up_on s) tr) - int (returned (down_on s) tr)"
  have "host_inv s ?n h'" "\<And>c. x = Begin c \<Longrightarrow> regular s c"
    using run_snoc e by (auto simp: begins_ok_def)
  from hstep_inv [OF this(1) run_snoc.hyps(2) [unfolded e] this(2)] show ?case
    by (cases x) (simp_all add: begun_def returned_def e algebra_simps of_bool_def split: if_splits)
qed (simp add: begun_def returned_def)

text \<open>No thread is inside an operation that uses the semaphore \<open>s\<close>.\<close>

fun call_at :: "position \<Rightarrow> host_call option" where
  "call_at Outside = None"
| "call_at (Ready_at c pc r) = Some c"
| "call_at (In_call c pc) = Some c"

definition unused :: "nat \<Rightarrow> host \<Rightarrow> bool" where
  "unused s h \<longleftrightarrow> (\<forall>t. Option.bind (call_at (place h t)) call_sem \<noteq> Some s)"

lemma unused_position:
  assumes "Option.bind (call_at p) call_sem \<noteq> Some s"
  shows "\<not> is_waiting s p" "\<not> is_through s p" "\<not> is_posting s p" "position_ok s p"
proof -
  have calls: "call_sem c \<noteq> Some s \<Longrightarrow> \<not> down_on s c" "call_sem c \<noteq> Some s \<Longrightarrow> \<not> up_on s c" for c
    by (cases c; auto)+
  show "\<not> is_waiting s p" "\<not> is_through s p" "\<not> is_posting s p" "position_ok s p"
    using assms calls by (cases p; simp add: regular_def)+
qed

lemma unused_inv:
  assumes "reachable (kern h)" "0 \<le> s_count (sems (kern h) s)" "unused s h"
  shows "host_inv s (s_count (sems (kern h) s)) h"
proof -
  note none = unused_position [OF assms(3) [unfolded unused_def, rule_format]]
  have "waiters (kern h) (Sem_wait s) = []"
    using sem_okD [OF reachable_inv [OF assms(1)], of s] assms(2) by (simp add: sem_ok_def)
  then show ?thesis using assms(1) by (simp add: host_inv_def load_finite_def load_def none)
qed

lemma host_inv_count: "host_inv s n h \<Longrightarrow> 0 \<le> n"
proof -
  assume inv: "host_inv s n h"
  let ?ws = "waiters (kern h) (Sem_wait s)"
  have k: "user_inv (kern h)" using inv by (intro reachable_inv) (simp add: host_inv_def)
  have "set ?ws \<subseteq> {t. is_waiting s (place h t)}" "finite {t. is_waiting s (place h t)}"
    using inv by (auto simp: host_inv_def load_finite_def)
  then have "card (set ?ws) \<le> card {t. is_waiting s (place h t)}" by (simp add: card_mono)
  moreover have "distinct ?ws" using user_invD(5) [OF k] by (simp add: base_inv_def waitq_ok_def)
  ultimately have "int (length ?ws) \<le> load s h" by (simp add: load_def distinct_card)
  with inv sem_okD [OF k, of s] show "0 \<le> n" by (simp add: host_inv_def sem_ok_def)
qed

end
