(* ===== verification/Host_Properties.thy ===== *)
theory Host_Properties imports Lk_Properties Host_System begin

text \<open>
  What the host operations guarantee: block requests on a byte disk, and where the mutexes of the
  host differ from what the Linux kernel library asks for.
\<close>

section \<open>The block device\<close>

text \<open>C38: On a byte disk a write request stores the concatenation of its buffers at the sector's offset,
  and a read request of the same sector and size gives it back, however the two requests split it
  into buffers.\<close>

theorem block_round_trip:
  assumes "list_all iov_ok ws" "list_all iov_ok rs" "total ws = total rs" "total ws \<le> 2 ^ 64"
    and "uefi_blk_request disk_read disk_write id media
           \<lparr>blk_type = LKL_DEV_BLK_TYPE_WRITE, blk_sector = s, blk_buf = ws\<rparr> d = (st, bufs, d')"
  shows "st = LKL_DEV_BLK_STATUS_OK \<and> bufs = ws \<and> d' = disk_put (s * 512) (concat (map snd ws)) d
    \<and> (\<exists>xs. uefi_blk_request disk_read disk_write id media
           \<lparr>blk_type = LKL_DEV_BLK_TYPE_READ, blk_sector = s, blk_buf = rs\<rparr> d' = (LKL_DEV_BLK_STATUS_OK, xs, d')
         \<and> map fst xs = map fst rs \<and> concat (map snd xs) = concat (map snd ws))"
proof -
  have w: "st = LKL_DEV_BLK_STATUS_OK" "bufs = ws" "d' = disk_put (s * 512) (concat (map snd ws)) d"
    using assms(5) write_loop [OF assms(1,4), of media "s * 512" d]
    by (auto simp: uefi_blk_request_def do_rw_def)
  obtain xs where xs: "rw_loop disk_read media rs (s * 512) d' = (0, xs, d')" "map fst xs = map fst rs"
    "concat (map snd xs) = bytes d' (s * 512) (total rs)"
    using read_loop [OF assms(2)] by blast
  have "bytes d' (s * 512) (total rs) = concat (map snd ws)"
    using bytes_put [of "concat (map snd ws)" "s * 512" d] assms(3,4) w(3) by (simp add: total_concat)
  with xs w show ?thesis by (simp add: uefi_blk_request_def do_rw_def)
qed

lemma block_round_trip_witness:
  "\<exists>xs d'. uefi_blk_request disk_read disk_write id 0
      \<lparr>blk_type = LKL_DEV_BLK_TYPE_READ, blk_sector = 1, blk_buf = [(1, [0]), (1, [0])]\<rparr> d' =
      (LKL_DEV_BLK_STATUS_OK, xs, d') \<and> concat (map snd xs) = [7, 8]"
proof -
  have ok: "list_all iov_ok [(2, [7, 8])]" "list_all iov_ok [(1, [0]), (1, [0])]"
    "total [(2, [7, 8])] = total [(1, [0]), (1, [0])]" "total [(2, [7, 8])] \<le> 2 ^ 64"
    by (simp_all add: iov_ok_def neg_def)
  obtain st bufs d' where "uefi_blk_request disk_read disk_write id 0
    \<lparr>blk_type = LKL_DEV_BLK_TYPE_WRITE, blk_sector = 1, blk_buf = [(2, [7, 8])]\<rparr> (\<lambda>_. 0) = (st, bufs, d')"
    by (metis prod_cases3)
  from block_round_trip [OF ok this] show ?thesis by auto
qed

section \<open>Semaphores\<close>

text \<open>C5: In every interleaving of host operations and timer interrupts, the operations that take from a
  semaphore (sem_down, and mutex_lock of a mutex that is not recursive) return at most as often as
  the semaphore's count at the start plus the posts that have begun; with a count of 1 this is
  mutual exclusion between mutex_lock and mutex_unlock.\<close>

theorem host_semaphore_bound:
  assumes "reachable (kern h)" "0 \<le> s_count (sems (kern h) s)" "unused s h"
    and "run hstep h tr h'" "begins_ok (regular s) tr"
  shows "int (returned (down_on s) tr) \<le> s_count (sems (kern h) s) + int (begun (up_on s) tr)"
  using host_inv_count [OF run_host_inv [OF assms(4) unused_inv [OF assms(1-3)] assms(5)]] by simp

definition boot_host :: host where
  "boot_host = \<lparr>kern = boot_kernel, place = \<lambda>_. Outside, interrupted = \<lambda>_. False\<rparr>"

lemma boot_host_up:
  obtains v h where "run hstep boot_host [((1, Begin (Call_sem_up 7)), 0), ((1, Kernel (Sem_post 7 True)), v)] h"
proof -
  let ?h = "boot_host\<lparr>place := (place boot_host)(1 := Ready_at (Call_sem_up 7) 0 0)\<rparr>"
  have c: "current_thread (kern boot_host) = 1" "current_thread (kern ?h) = 1"
    by (simp_all add: boot_host_def boot_kernel_current)
  have "allowed boot_kernel (Sem_post 7 True)" by (simp add: allowed_def boot_kernel_current idle_thread_def)
  moreover from this obtain v k' where "settle (exec (Sem_post 7 True) boot_kernel) = Ret v k'"
    using exec_user_inv [OF reachable_inv [OF reachable_boot_kernel]] by blast
  ultimately have k: "kstep (kern ?h) (Sem_post 7 True) v k'" by (simp add: boot_host_def kstep.step)
  have b: "run hstep boot_host [((1, Begin (Call_sem_up 7)), 0)] ?h"
    using run_snoc [OF run_nil, of hstep boot_host "(1, Begin (Call_sem_up 7))" 0 ?h]
      hstep.begin_call [of 1 boot_host "Call_sem_up 7"] c
    by (simp add: boot_host_def idle_thread_def)
  define h2 where "h2 = deliver v (?h\<lparr>kern := k', place := (place ?h)(1 := In_call (Call_sem_up 7) 1)\<rparr>)"
  have "hstep ?h (1, Kernel (Sem_post 7 True)) v h2"
    unfolding h2_def by (rule hstep.kernel_call [OF _ _ _ k]) (simp_all add: c sem_up_def)
  with run_snoc [OF b] that show thesis by (metis append_Cons append_Nil)
qed

lemma host_semaphore_bound_witness:
  "\<exists>tr h. run hstep boot_host tr h \<and> length tr = 2
     \<and> int (returned (down_on 7) tr) \<le> s_count (sems boot_kernel 7) + 1"
proof -
  obtain v h where r: "run hstep boot_host [((1, Begin (Call_sem_up 7)), 0), ((1, Kernel (Sem_post 7 True)), v)] h"
    by (rule boot_host_up)
  have "sems boot_kernel = sems zero_kernel"
    using kstart_sem_kept [OF boot_kernel_start] by (simp add: sem_kept_def)
  then have "0 \<le> s_count (sems (kern boot_host) 7)" by (simp add: boot_host_def zero_kernel_def)
  moreover have "reachable (kern boot_host)" "unused 7 boot_host"
    by (simp_all add: boot_host_def reachable_boot_kernel unused_def)
  moreover have "begins_ok (regular 7) [((1, Begin (Call_sem_up 7)), 0), ((1, Kernel (Sem_post 7 True)), v)]"
    by (simp add: begins_ok_def regular_def)
  ultimately have "int (returned (down_on 7) [((1, Begin (Call_sem_up 7)), 0), ((1, Kernel (Sem_post 7 True)), v)])
      \<le> s_count (sems boot_kernel 7) + 1"
    using host_semaphore_bound [OF _ _ _ r, of 7] by (simp add: boot_host_def begun_def)
  with r show ?thesis by (intro exI conjI) auto
qed

section \<open>Mutexes\<close>

text \<open>C39: The host's recursive mutexes are not recursive: a thread that locks one it already holds blocks
  in the mutex's own wait queue and stays its holder.\<close>

theorem recursive_lock_blocks:
  assumes k: "user_inv k" and live: "m_magic (mutexes k (lkl_mutex_mutex x)) = MUTEX_MAGIC"
    and c: "current_thread k \<noteq> idle_thread" and rec: "recursive x"
    and held: "m_holder (mutexes k (lkl_mutex_mutex x)) = Some (current_thread k)"
  shows "\<exists>op k'. mutex_lock x 0 r = Inl (Lk op, 1) \<and> exec op k = Switch k'
    \<and> tstate k' (current_thread k) = THREAD_BLOCKED
    \<and> current_thread k \<in> set (waiters k' (Mutex_wait (lkl_mutex_mutex x)))
    \<and> m_holder (mutexes k' (lkl_mutex_mutex x)) = Some (current_thread k)"
proof -
  let ?m = "lkl_mutex_mutex x"
  have "m_count (mutexes k ?m) \<noteq> 0"
    using mutex_okD(1) [OF k live] held by (auto simp: live_mutex_ok_def mutex_busy_def)
  from mutex_acquire_blocks [OF k live c this, of "[]"] obtain k' where
    "mutex_acquire_timeout ?m INFINITE_TIME [] k = Switch k'"
    "waiters k' (Mutex_wait ?m) = waiters k (Mutex_wait ?m) @ [current_thread k]"
    "tstate k' (current_thread k) = THREAD_BLOCKED" "m_holder (mutexes k' ?m) = m_holder (mutexes k ?m)" .
  then show ?thesis using rec held by (simp add: mutex_lock_def)
qed

lemma recursive_lock_blocks_witness:
  "\<exists>op k'. mutex_lock \<lparr>recursive = True, lkl_mutex_mutex = 0, lkl_mutex_sem = 0\<rparr> 0 0 = Inl (Lk op, 1)
     \<and> exec op (demo_blocked (Mutex_wait 0) (In_mutex_acquire 0 1)) = Switch k' \<and> tstate k' 1 = THREAD_BLOCKED"
  using recursive_lock_blocks [OF demo_blocked_user_inv [of "Mutex_wait 0" "In_mutex_acquire 0 1"],
      of "\<lparr>recursive = True, lkl_mutex_mutex = 0, lkl_mutex_sem = 0\<rparr>" 0]
  by (auto simp: idle_thread_def)

end
