(* ===== verification/Timer_System.thy ===== *)
theory Timer_System imports Lk_Properties Host begin

text \<open>
  The life of a host timer (\<open>UefiHost.c\<close>): the UEFI timer event that calls \<open>LTimerCallback\<close>, the timer's
  thread, and the client that frees the timer. The steps are those of the programs \<open>LTimerCallback\<close>,
  \<open>timer_thread\<close> and \<open>timer_free\<close> of \<open>Host\<close>, in every order: the processor can be taken from a thread
  between any two of its actions by a timer interrupt. The function of the timer belongs to the Linux
  library; it may run for any time between its start and its return. Closing the UEFI event succeeds: a
  failed \<open>ASSERT\<close> in \<open>timer_free\<close> would stop the machine.

  The event object \<open>cond\<close> has one possible waiter, the timer's thread, so its state is the flag and
  whether that thread waits. \<open>kernel_signal\<close> and \<open>kernel_wait\<close> show that this is what \<open>event.c\<close> does
  with an event that unsignals itself.
\<close>

section \<open>The state of a timer\<close>

text \<open>\<open>Thread_at pc r\<close>: the thread's last action returned \<open>r\<close>. \<open>Thread_waits pc\<close>: inside \<open>event_wait\<close>.\<close>

datatype timer_pos = Thread_at nat int | Thread_waits nat | In_function nat | Thread_gone

text \<open>
  \<open>memory\<close>: the structure is allocated; \<open>fault\<close>: it was used after it was freed. \<open>asleep_at_stop\<close> notes
  whether the thread was waiting when the stop was requested.
\<close>

record timer_system =
  signaled :: bool
  stop :: bool
  closed :: bool
  memory :: bool
  thread_pos :: timer_pos
  free_pc :: nat
  fires :: nat
  runs :: nat
  fault :: bool
  asleep_at_stop :: bool

definition timer_start :: timer_system where
  "timer_start =
    \<lparr>signaled = False, stop = False, closed = False, memory = True, thread_pos = Thread_at 0 0, free_pc = 0,
     fires = 0, runs = 0, fault = False, asleep_at_stop = False\<rparr>"

section \<open>Actions\<close>

definition touch :: "timer_system \<Rightarrow> timer_system" where
  "touch s = (if memory s then s else s\<lparr>fault := True\<rparr>)"

definition signal_cond :: "timer_system \<Rightarrow> timer_system" where
  "signal_cond s =
    (case thread_pos s of Thread_waits pc \<Rightarrow> s\<lparr>thread_pos := Thread_at pc 0\<rparr>
     | _ \<Rightarrow> s\<lparr>signaled := True\<rparr>)"

definition is_asleep :: "timer_pos \<Rightarrow> bool" where
  "is_asleep p \<longleftrightarrow> (case p of Thread_waits pc \<Rightarrow> True | _ \<Rightarrow> False)"

fun thread_action :: "action \<Rightarrow> nat \<Rightarrow> timer_system \<Rightarrow> timer_system" where
  "thread_action (Lk (Event_wait_op e t)) pc s =
    (if signaled s then s\<lparr>signaled := False, thread_pos := Thread_at pc 0\<rparr> else s\<lparr>thread_pos := Thread_waits pc\<rparr>)"
| "thread_action Read_stop pc s = s\<lparr>thread_pos := Thread_at pc (of_bool (stop s))\<rparr>"
| "thread_action (Timer_function fn arg) pc s = s\<lparr>runs := runs s + 1, thread_pos := In_function pc\<rparr>"
| "thread_action Free_memory pc s = s\<lparr>memory := False, thread_pos := Thread_at pc 0\<rparr>"
| "thread_action a pc s = s\<lparr>thread_pos := Thread_at pc 0\<rparr>"

fun free_action :: "action \<Rightarrow> nat \<Rightarrow> timer_system \<Rightarrow> timer_system" where
  "free_action (Close_timer ev) pc s = s\<lparr>closed := True, free_pc := pc\<rparr>"
| "free_action Request_stop pc s =
    s\<lparr>stop := True, free_pc := pc, asleep_at_stop := is_asleep (thread_pos s)\<rparr>"
| "free_action (Lk (Event_signal e r)) pc s = (signal_cond s)\<lparr>free_pc := pc\<rparr>"
| "free_action a pc s = s\<lparr>free_pc := pc\<rparr>"

datatype timer_event = Fires | Thread_acts | Function_returns | Thread_ends | Client_frees

inductive timer_step :: "ltimer \<Rightarrow> timer_system \<Rightarrow> timer_event \<Rightarrow> unit \<Rightarrow> timer_system \<Rightarrow> bool" for x where
  fires: "\<not> closed s \<Longrightarrow> LTimerCallback x 0 0 = Inl (Lk (Event_signal e r), pc') \<Longrightarrow>
    timer_step x s Fires () (signal_cond ((touch s)\<lparr>fires := fires s + 1\<rparr>))"
| thread_acts: "thread_pos s = Thread_at pc r \<Longrightarrow> timer_thread x pc r = Inl (a, pc') \<Longrightarrow>
    timer_step x s Thread_acts () (thread_action a pc' (touch s))"
| function_returns: "thread_pos s = In_function pc \<Longrightarrow>
    timer_step x s Function_returns () (s\<lparr>thread_pos := Thread_at pc 0\<rparr>)"
| thread_ends: "thread_pos s = Thread_at pc r \<Longrightarrow> timer_thread x pc r = Inr v \<Longrightarrow>
    timer_step x s Thread_ends () (s\<lparr>thread_pos := Thread_gone\<rparr>)"
| client_frees: "timer_free x (free_pc s) 0 = Inl (a, pc') \<Longrightarrow>
    timer_step x s Client_frees () (free_action a pc' (touch s))"

section \<open>The invariant\<close>

text \<open>A run of the function that was paid for by a fire and has not begun; \<open>due\<close> when its last test has passed.\<close>

definition due :: "timer_system \<Rightarrow> nat" where
  "due s = of_bool (thread_pos s = Thread_at 3 0)"

definition pending :: "timer_system \<Rightarrow> nat" where
  "pending s = of_bool (signaled s) + of_bool (\<exists>r. thread_pos s = Thread_at 2 r)"

fun pos_ok :: "timer_system \<Rightarrow> timer_pos \<Rightarrow> bool" where
  "pos_ok s (Thread_at pc r) \<longleftrightarrow> pc \<le> 5 \<and> (pc \<in> {1, 3} \<and> r \<noteq> 0 \<or> 4 \<le> pc \<longrightarrow> stop s) \<and> (memory s \<longleftrightarrow> pc \<noteq> 5)"
| "pos_ok s (Thread_waits pc) \<longleftrightarrow> pc = 2 \<and> \<not> signaled s \<and> memory s"
| "pos_ok s (In_function pc) \<longleftrightarrow> pc = 0 \<and> memory s"
| "pos_ok s Thread_gone \<longleftrightarrow> stop s \<and> \<not> memory s"

definition timer_inv :: "timer_system \<Rightarrow> bool" where
  "timer_inv s \<longleftrightarrow> pos_ok s (thread_pos s) \<and> (closed s \<longleftrightarrow> 1 \<le> free_pc s) \<and> (stop s \<longleftrightarrow> 2 \<le> free_pc s) \<and>
     runs s + due s + (if stop s then 0 else pending s) \<le> fires s \<and>
     (asleep_at_stop s \<longrightarrow> stop s \<and> \<not> fault s \<and> (free_pc s = 2 \<longrightarrow> is_asleep (thread_pos s))) \<and>
     (fault s \<longrightarrow> free_pc s = 3)"

lemma timer_inv_start: "timer_inv timer_start"
  by (simp add: timer_inv_def timer_start_def pending_def due_def)

lemma timer_thread_cases:
  assumes "timer_thread x pc r = Inl (a, pc')"
  obtains (test) "pc \<in> {0, 2}" "a = Read_stop" "pc' = Suc pc"
    | (wait) "pc = 1" "r = 0" "a = Lk (Event_wait_op (ltimer_cond x) INFINITE_TIME)" "pc' = 2"
    | (call) "pc = 3" "r = 0" "a = Timer_function (ltimer_fn x) (ltimer_arg x)" "pc' = 0"
    | (destroy) "pc \<in> {1, 3}" "r \<noteq> 0" "a = Lk (Event_destroy (ltimer_cond x))" "pc' = 4"
    | (free) "pc = 4" "a = Free_memory" "pc' = 5"
  using assms by (auto simp: timer_thread_def split: if_splits)

lemma timer_free_cases:
  assumes "timer_free x pc 0 = Inl (a, pc')"
  obtains (close) "pc = 0" "a = Close_timer (ltimer_event x)" "pc' = 1"
    | (stop) "pc = 1" "a = Request_stop" "pc' = 2"
    | (signal) "pc = 2" "a = Lk (Event_signal (ltimer_cond x) True)" "pc' = 3"
  using assms by (auto simp: timer_free_def split: if_splits)

lemma timer_inv_thread:
  assumes inv: "timer_inv s" and pos: "thread_pos s = Thread_at pc r"
    and act: "timer_thread x pc r = Inl (a, pc')"
  shows "timer_inv (thread_action a pc' (touch s))"
proof -
  have "pc \<noteq> 5" using act by (cases rule: timer_thread_cases) auto
  then have t: "touch s = s" using inv pos by (auto simp: timer_inv_def touch_def)
  from act have "timer_inv (thread_action a pc' s)"
    by (cases rule: timer_thread_cases)
      (use inv pos in \<open>auto simp: timer_inv_def pending_def due_def is_asleep_def split: if_splits\<close>)
  then show ?thesis by (simp add: t)
qed

lemma timer_inv_fire:
  assumes inv: "timer_inv s" and "\<not> closed s"
  shows "timer_inv (signal_cond ((touch s)\<lparr>fires := fires s + 1\<rparr>))"
proof -
  have st: "\<not> stop s" "free_pc s = 0" "\<not> fault s" "\<not> asleep_at_stop s" using assms by (auto simp: timer_inv_def)
  then have m: "touch s = s" using inv by (cases "thread_pos s") (auto simp: timer_inv_def touch_def)
  show ?thesis
    using inv st by (cases "thread_pos s") (auto simp: m timer_inv_def signal_cond_def pending_def due_def)
qed

lemma timer_inv_free:
  assumes inv: "timer_inv s" and act: "timer_free x (free_pc s) 0 = Inl (a, pc')"
  shows "timer_inv (free_action a pc' (touch s))"
  using act
proof (cases rule: timer_free_cases)
  case close
  with inv have "\<not> stop s" by (simp add: timer_inv_def)
  with inv have "touch s = s" by (cases "thread_pos s") (auto simp: timer_inv_def touch_def)
  with close inv show ?thesis by (cases "thread_pos s") (auto simp: timer_inv_def pending_def due_def)
next
  case stop
  with inv have "\<not> stop s" by (simp add: timer_inv_def)
  with inv have "touch s = s" by (cases "thread_pos s") (auto simp: timer_inv_def touch_def)
  with stop inv show ?thesis by (cases "thread_pos s") (auto simp: timer_inv_def pending_def due_def is_asleep_def)
next
  case signal
  show ?thesis
  proof (cases "memory s")
    case True
    then have "touch s = s" by (simp add: touch_def)
    with signal inv True show ?thesis
      by (cases "thread_pos s") (auto simp: timer_inv_def pending_def due_def signal_cond_def is_asleep_def)
  next
    case False
    with inv have "\<not> asleep_at_stop s" using signal
      by (cases "thread_pos s") (auto simp: timer_inv_def is_asleep_def)
    with signal inv False show ?thesis
      by (cases "thread_pos s") (auto simp: timer_inv_def pending_def due_def signal_cond_def touch_def)
  qed
qed

lemma timer_inv_step:
  assumes "timer_inv s" "timer_step x s ev v s'"
  shows "timer_inv s'"
  using assms(2)
proof (cases rule: timer_step.cases)
  case (fires e r pc')
  then show ?thesis using timer_inv_fire [OF assms(1)] by simp
next
  case (thread_acts pc r a pc')
  then show ?thesis using timer_inv_thread [OF assms(1)] by blast
next
  case (function_returns pc)
  then show ?thesis using assms(1) by (auto simp: timer_inv_def pending_def due_def is_asleep_def)
next
  case (thread_ends pc r v)
  then have "\<not> pc < 5" by (auto simp: timer_thread_def split: if_splits)
  with thread_ends assms(1) show ?thesis by (auto simp: timer_inv_def pending_def due_def is_asleep_def)
next
  case (client_frees a pc')
  then show ?thesis using timer_inv_free [OF assms(1)] by blast
qed

interpretation timer: invariant_machine "\<lambda>s. s = timer_start" "timer_step x" timer_inv
  by unfold_locales (auto simp: timer_inv_start intro: timer_inv_step)

lemma timer_run_inv: "run (timer_step x) timer_start tr s \<Longrightarrow> timer_inv s"
  by (rule timer.run_inv) simp_all

section \<open>After the stop request\<close>

lemma stop_step:
  assumes "timer_step x s ev v s'" "timer_inv s" "stop s"
  shows "stop s' \<and> runs s' + due s' \<le> runs s + due s"
  using assms(1)
proof (cases rule: timer_step.cases)
  case (thread_acts pc r a pc')
  from thread_acts(5) show ?thesis using thread_acts assms(2,3)
    by (cases rule: timer_thread_cases) (auto simp: due_def touch_def)
next
  case (client_frees a pc')
  from client_frees(4) show ?thesis using client_frees assms(2,3)
    by (cases rule: timer_free_cases) (auto simp: due_def touch_def signal_cond_def timer_inv_def split: timer_pos.splits)
qed (use assms(2,3) in \<open>auto simp: due_def touch_def signal_cond_def timer_inv_def split: timer_pos.splits\<close>)

lemma stop_run:
  assumes "run (timer_step x) s tr s'" "timer_inv s" "stop s"
  shows "timer_inv s' \<and> stop s' \<and> runs s' + due s' \<le> runs s + due s"
  using assms
proof (induction rule: run.induct)
  case (run_snoc s tr s' ev v s'')
  then show ?case using stop_step [OF run_snoc.hyps(2)] timer_inv_step [OF _ run_snoc.hyps(2)] by force
qed simp

section \<open>Running a timer\<close>

text \<open>The step relation as a function, for concrete runs.\<close>

fun timer_next :: "ltimer \<Rightarrow> timer_event \<Rightarrow> timer_system \<Rightarrow> timer_system option" where
  "timer_next x Fires s =
    (if closed s then None else Some (signal_cond ((touch s)\<lparr>fires := fires s + 1\<rparr>)))"
| "timer_next x Thread_acts s =
    (case thread_pos s of
       Thread_at pc r \<Rightarrow> (case timer_thread x pc r of Inl (a, pc') \<Rightarrow> Some (thread_action a pc' (touch s)) | Inr v \<Rightarrow> None)
     | _ \<Rightarrow> None)"
| "timer_next x Function_returns s =
    (case thread_pos s of In_function pc \<Rightarrow> Some (s\<lparr>thread_pos := Thread_at pc 0\<rparr>) | _ \<Rightarrow> None)"
| "timer_next x Thread_ends s =
    (case thread_pos s of
       Thread_at pc r \<Rightarrow> (case timer_thread x pc r of Inl y \<Rightarrow> None | Inr v \<Rightarrow> Some (s\<lparr>thread_pos := Thread_gone\<rparr>))
     | _ \<Rightarrow> None)"
| "timer_next x Client_frees s =
    (case timer_free x (free_pc s) 0 of Inl (a, pc') \<Rightarrow> Some (free_action a pc' (touch s)) | Inr v \<Rightarrow> None)"

lemma timer_next_step: "timer_next x ev s = Some s' \<Longrightarrow> timer_step x s ev () s'"
  using timer_step.fires [of s x "ltimer_cond x" True 1]
  by (cases ev)
    (auto split: if_splits timer_pos.splits sum.splits prod.splits simp: LTimerCallback_def
      intro: timer_step.intros)

primrec timer_exec :: "ltimer \<Rightarrow> timer_event list \<Rightarrow> timer_system \<Rightarrow> timer_system option" where
  "timer_exec x [] s = Some s"
| "timer_exec x (ev # evs) s = Option.bind (timer_next x ev s) (timer_exec x evs)"

lemma timer_exec_run: "timer_exec x evs s = Some s' \<Longrightarrow> run (timer_step x) s (map (\<lambda>ev. (ev, ())) evs) s'"
  by (induction evs arbitrary: s) (auto intro: run.run_nil run_Cons timer_next_step split: Option.bind_splits)

section \<open>The event of the thread package\<close>

definition event_view :: "kernel \<Rightarrow> nat \<Rightarrow> bool \<times> tid list" where
  "event_view k e = (e_signaled (events k e), waiters k (Event_wait e))"

text \<open>\<open>signal_cond\<close> and the wait of \<open>thread_action\<close> are what \<open>event.c\<close> does with the flag and the queue.\<close>

lemma kernel_signal:
  assumes "user_inv k" "event_view k e = (False, ws)" "e_flags (events k e) AND EVENT_FLAG_AUTOUNSIGNAL \<noteq> 0"
  shows "\<exists>k'. kernel_of (event_signal e r fs k) = Some k' \<and> event_view k' e = (ws = [], tl ws)"
  using event_signal_auto [of k e r fs] assms by (fastforce simp: event_view_def)

lemma kernel_wait_signaled:
  assumes "event_view k e = (True, ws)" "e_flags (events k e) AND EVENT_FLAG_AUTOUNSIGNAL \<noteq> 0"
  shows "\<exists>k'. event_wait e fs k = Ret NO_ERROR k' \<and> event_view k' e = (False, ws)"
  using assms
  by (auto simp: event_wait_def event_wait_timeout_def event_view_def THREAD_LOCK_locked)

lemma kernel_wait_unsignaled:
  assumes k: "user_inv k" and c: "current_thread k \<noteq> idle_thread" and v: "event_view k e = (False, ws)"
  shows "\<exists>k'. event_wait e fs k = Switch k' \<and> event_view k' e = (False, ws @ [current_thread k])"
proof -
  note u = user_invD [OF k]
  have "sched_inv (locked k)" "current_thread (locked k) \<noteq> idle_thread" using u c by simp_all
  then obtain k' where b: "wait_queue_block (Event_wait e) INFINITE_TIME (In_event_wait (irq_state k) # fs) (locked k) = Switch k'"
    "resched_rel (wq_enqueue (Event_wait e) (locked k)) k'"
    by (rule wait_queue_block_switches)
  have "event_wait e fs k = Switch k'"
    using v b(1) by (simp add: event_wait_def event_wait_timeout_def event_view_def THREAD_LOCK_locked)
  with b(2) v show ?thesis by (auto simp: event_view_def resched_rel_def same_objects_def)
qed

section \<open>The life of a timer\<close>

text \<open>C26: In every interleaving of the timer event, the thread of the timer and the client that frees it:
  the function runs at most once for each time the timer fired, at most one more run begins after
  the stop request, the structure is freed only after the request, and it is not used after it was
  freed when the thread was waiting as the stop was requested.\<close>

theorem timer_life:
  assumes "run (timer_step x) timer_start tr s"
  shows "runs s \<le> fires s \<and> (asleep_at_stop s \<longrightarrow> \<not> fault s) \<and> (memory s \<or> stop s) \<and>
    (stop s \<longrightarrow> (\<forall>tr' s'. run (timer_step x) s tr' s' \<longrightarrow> runs s' \<le> runs s + 1))"
proof -
  have inv: "timer_inv s" using assms by (rule timer_run_inv)
  have "runs s' \<le> runs s + 1" if "run (timer_step x) s tr' s'" "stop s" for tr' s'
  proof -
    have "due s \<le> 1" by (simp add: due_def)
    with stop_run [OF that(1) inv that(2)] show ?thesis by linarith
  qed
  moreover have "memory s \<or> stop s" using inv by (cases "thread_pos s") (auto simp: timer_inv_def)
  ultimately show ?thesis using inv by (simp add: timer_inv_def)
qed

definition demo_timer :: ltimer where
  "demo_timer = \<lparr>ltimer_address = 0x100, ltimer_fn = 0x200, ltimer_arg = 7, ltimer_cond = 0, ltimer_event = 0, ltimer_thread = 2\<rparr>"

text \<open>The timer fires once, its function runs, and the client frees the timer while the thread waits.\<close>

definition quiet_life :: "timer_event list" where
  "quiet_life = [Thread_acts, Thread_acts, Fires, Thread_acts, Thread_acts, Function_returns, Thread_acts, Thread_acts,
     Client_frees, Client_frees, Client_frees, Thread_acts, Thread_acts, Thread_acts, Thread_ends]"

lemma timer_life_witness:
  "\<exists>tr s. run (timer_step demo_timer) timer_start tr s \<and> runs s = 1 \<and> fires s = 1 \<and> \<not> memory s \<and> \<not> fault s"
proof -
  obtain s where s: "timer_exec demo_timer quiet_life timer_start = Some s" "runs s = 1" "fires s = 1" "\<not> memory s"
      "asleep_at_stop s"
    by (simp add: quiet_life_def timer_start_def timer_thread_def timer_free_def touch_def signal_cond_def is_asleep_def)
  note r = timer_exec_run [OF s(1)]
  with timer_life [OF r] s show ?thesis by blast
qed

text \<open>
  A client that frees a timer whose function is running can be overtaken: the thread sees the stop
  request and frees the structure before the client signals its event.
\<close>

lemma timer_free_race:
  "\<exists>tr s. run (timer_step x) timer_start tr s \<and> \<not> memory s \<and> fault s \<and> runs s = 1"
proof -
  let ?evs = "[Thread_acts, Thread_acts, Fires, Thread_acts, Thread_acts, Client_frees, Client_frees, Function_returns,
    Thread_acts, Thread_acts, Thread_acts, Client_frees]"
  obtain s where "timer_exec x ?evs timer_start = Some s" "\<not> memory s" "fault s" "runs s = 1"
    by (simp add: timer_start_def timer_thread_def timer_free_def touch_def signal_cond_def is_asleep_def)
  with timer_exec_run show ?thesis by blast
qed

end
