(* ===== verification/List_Macros.thy ===== *)
theory List_Macros imports Intrusive_List begin

text \<open>
  The macros of \<open>src/Include/lk/list.h\<close> that go from a list node to the structure around it, and the
  four loops. An entry is the address of such a structure and \<open>off\<close> the offset of its node, so
  \<open>containerof\<close> subtracts: an entry is an integer, since the loops also form the entry of the list
  head, which need not be inside a structure. \<open>None\<close> is \<open>NULL\<close>.

  The body of a loop gets the entry, the state of the code around the loop and the heap; it returns
  whether to go on (\<open>False\<close> is \<open>break\<close>). On a corrupt list a loop need not stop, so the loops are
  partial functions. The lemmas show that on a list they return: the plain loops when the body leaves
  the heap alone, the safe loops also when the body deletes the entry it was given.
\<close>

section \<open>The structure around a node\<close>

definition containerof :: "nat \<Rightarrow> nat \<Rightarrow> int" where
  "containerof p off = int p - int off"

text \<open>\<open>&entry->member\<close>\<close>

definition member_at :: "int \<Rightarrow> nat \<Rightarrow> nat" where
  "member_at entry off = nat (entry + int off)"

lemma member_at_containerof [simp]: "member_at (containerof p off) off = p"
  by (simp add: member_at_def containerof_def)

definition list_remove_head_type :: "nat \<Rightarrow> nat \<Rightarrow> list_heap \<Rightarrow> int option \<times> list_heap" where
  "list_remove_head_type l off h =
    (let (nod, h) = list_remove_head l h
     in case nod of Some p \<Rightarrow> (Some (containerof p off), h) | None \<Rightarrow> (None, h))"

definition list_remove_tail_type :: "nat \<Rightarrow> nat \<Rightarrow> list_heap \<Rightarrow> int option \<times> list_heap" where
  "list_remove_tail_type l off h =
    (let (nod, h) = list_remove_tail l h
     in case nod of Some p \<Rightarrow> (Some (containerof p off), h) | None \<Rightarrow> (None, h))"

definition list_peek_head_type :: "nat \<Rightarrow> nat \<Rightarrow> list_heap \<Rightarrow> int option" where
  "list_peek_head_type l off h =
    (case list_peek_head l h of Some p \<Rightarrow> Some (containerof p off) | None \<Rightarrow> None)"

definition list_peek_tail_type :: "nat \<Rightarrow> nat \<Rightarrow> list_heap \<Rightarrow> int option" where
  "list_peek_tail_type l off h =
    (case list_peek_tail l h of Some p \<Rightarrow> Some (containerof p off) | None \<Rightarrow> None)"

definition list_prev_type :: "nat \<Rightarrow> nat \<Rightarrow> nat \<Rightarrow> list_heap \<Rightarrow> int option" where
  "list_prev_type l item off h =
    (case list_prev l item h of Some p \<Rightarrow> Some (containerof p off) | None \<Rightarrow> None)"

definition list_prev_wrap_type :: "nat \<Rightarrow> nat \<Rightarrow> nat \<Rightarrow> list_heap \<Rightarrow> int option" where
  "list_prev_wrap_type l item off h =
    (case list_prev_wrap l item h of Some p \<Rightarrow> Some (containerof p off) | None \<Rightarrow> None)"

definition list_next_type :: "nat \<Rightarrow> nat \<Rightarrow> nat \<Rightarrow> list_heap \<Rightarrow> int option" where
  "list_next_type l item off h =
    (case list_next l item h of Some p \<Rightarrow> Some (containerof p off) | None \<Rightarrow> None)"

definition list_next_wrap_type :: "nat \<Rightarrow> nat \<Rightarrow> nat \<Rightarrow> list_heap \<Rightarrow> int option" where
  "list_next_wrap_type l item off h =
    (case list_next_wrap l item h of Some p \<Rightarrow> Some (containerof p off) | None \<Rightarrow> None)"

section \<open>The loops\<close>

type_synonym ('e, 's) body = "'e \<Rightarrow> 's \<Rightarrow> list_heap \<Rightarrow> bool \<times> 's \<times> list_heap"

partial_function (option) for_every :: "nat \<Rightarrow> (nat, 's) body \<Rightarrow> nat \<Rightarrow> 's \<Rightarrow> list_heap \<Rightarrow> ('s \<times> list_heap) option" where
  "for_every l body node s h =
    (if node \<noteq> l
     then (case body node s h of (go, s, h) \<Rightarrow>
             if go then for_every l body (nxt h node) s h else Some (s, h))
     else Some (s, h))"

definition list_for_every :: "nat \<Rightarrow> (nat, 's) body \<Rightarrow> 's \<Rightarrow> list_heap \<Rightarrow> ('s \<times> list_heap) option" where
  "list_for_every l body s h = for_every l body (nxt h l) s h"

partial_function (option) for_every_safe ::
  "nat \<Rightarrow> (nat, 's) body \<Rightarrow> nat \<Rightarrow> nat \<Rightarrow> 's \<Rightarrow> list_heap \<Rightarrow> ('s \<times> list_heap) option" where
  "for_every_safe l body node temp_node s h =
    (if node \<noteq> l
     then (case body node s h of (go, s, h) \<Rightarrow>
             if go then for_every_safe l body temp_node (nxt h temp_node) s h else Some (s, h))
     else Some (s, h))"

definition list_for_every_safe :: "nat \<Rightarrow> (nat, 's) body \<Rightarrow> 's \<Rightarrow> list_heap \<Rightarrow> ('s \<times> list_heap) option" where
  "list_for_every_safe l body s h = (let node = nxt h l; temp_node = nxt h node in for_every_safe l body node temp_node s h)"

partial_function (option) for_every_entry ::
  "nat \<Rightarrow> nat \<Rightarrow> (int, 's) body \<Rightarrow> int \<Rightarrow> 's \<Rightarrow> list_heap \<Rightarrow> ('s \<times> list_heap) option" where
  "for_every_entry l off body entry s h =
    (if member_at entry off \<noteq> l
     then (case body entry s h of (go, s, h) \<Rightarrow>
             if go then for_every_entry l off body (containerof (nxt h (member_at entry off)) off) s h
             else Some (s, h))
     else Some (s, h))"

definition list_for_every_entry ::
  "nat \<Rightarrow> nat \<Rightarrow> (int, 's) body \<Rightarrow> 's \<Rightarrow> list_heap \<Rightarrow> ('s \<times> list_heap) option" where
  "list_for_every_entry l off body s h = for_every_entry l off body (containerof (nxt h l) off) s h"

partial_function (option) for_every_entry_safe ::
  "nat \<Rightarrow> nat \<Rightarrow> (int, 's) body \<Rightarrow> int \<Rightarrow> int \<Rightarrow> 's \<Rightarrow> list_heap \<Rightarrow> ('s \<times> list_heap) option" where
  "for_every_entry_safe l off body entry temp_entry s h =
    (if member_at entry off \<noteq> l
     then (case body entry s h of (go, s, h) \<Rightarrow>
             if go
             then for_every_entry_safe l off body temp_entry (containerof (nxt h (member_at temp_entry off)) off) s h
             else Some (s, h))
     else Some (s, h))"

definition list_for_every_entry_safe ::
  "nat \<Rightarrow> nat \<Rightarrow> (int, 's) body \<Rightarrow> 's \<Rightarrow> list_heap \<Rightarrow> ('s \<times> list_heap) option" where
  "list_for_every_entry_safe l off body s h =
    (let entry = containerof (nxt h l) off;
         temp_entry = containerof (nxt h (member_at entry off)) off
     in for_every_entry_safe l off body entry temp_entry s h)"

declare for_every.simps [code] for_every_safe.simps [code] for_every_entry.simps [code] for_every_entry_safe.simps [code]

section \<open>On a list the typed operations see the entries\<close>

lemma dlist_peek_head_type:
  "dlist h l xs \<Longrightarrow> list_peek_head_type l off h = (case xs of [] \<Rightarrow> None | x # _ \<Rightarrow> Some (containerof x off))"
  by (auto simp: list_peek_head_type_def dlist_peek_head split: list.splits)

lemma dlist_peek_tail_type:
  "dlist h l xs \<Longrightarrow> list_peek_tail_type l off h = (if xs = [] then None else Some (containerof (last xs) off))"
  by (auto simp: list_peek_tail_type_def dlist_peek_tail)

lemma lists_at_remove_head_type:
  assumes "lists_at h Q" "Q l = Some xs"
  obtains h' where "list_remove_head_type l off h = (case xs of [] \<Rightarrow> None | x # _ \<Rightarrow> Some (containerof x off), h')"
    and "lists_at h' (Q(l \<mapsto> tl xs))"
proof (cases xs)
  case Nil
  with assms have "list_remove_head l h = (None, h)" by (simp add: lists_at_remove_head_Nil)
  moreover have "Q(l \<mapsto> []) = Q" using assms Nil by auto
  ultimately show thesis using assms Nil by (intro that [of h]) (simp_all add: list_remove_head_type_def)
next
  case (Cons x ys)
  with assms lists_at_remove_head_Cons [of h Q l x ys] show thesis
    by (intro that [of "snd (list_remove_head l h)"]) (auto simp: list_remove_head_type_def split: prod.splits)
qed

section \<open>On a list the loops visit the entries\<close>

text \<open>A loop over the elements of a list, with \<open>break\<close>.\<close>

fun visit :: "('e \<Rightarrow> 's \<Rightarrow> bool \<times> 's) \<Rightarrow> 'e list \<Rightarrow> 's \<Rightarrow> 's" where
  "visit f [] s = s"
| "visit f (x # xs) s = (case f x s of (go, s) \<Rightarrow> if go then visit f xs s else s)"

lemma for_every_entry_visit:
  assumes "chain h a xs l" "l \<notin> set xs"
    and "\<And>x s. x \<in> set xs \<Longrightarrow> body (containerof x off) s h = (fst (f x s), snd (f x s), h)"
  shows "for_every_entry l off body (containerof (nxt h a) off) s h = Some (visit f xs s, h)"
  using assms
proof (induction xs arbitrary: a s)
  case Nil
  then show ?case by (subst for_every_entry.simps) (simp add: linked_def)
next
  case (Cons x xs)
  then have x: "nxt h a = x" "x \<noteq> l" "chain h x xs l" by (auto simp: linked_def)
  have "for_every_entry l off body (containerof (nxt h x) off) (snd (f x s)) h = Some (visit f xs (snd (f x s)), h)"
    by (rule Cons.IH) (use x Cons.prems in auto)
  with x Cons.prems(3) [of x s] show ?case
    by (subst for_every_entry.simps) (auto split: prod.splits)
qed

lemma list_for_every_entry_visit:
  assumes "dlist h l xs"
    and "\<And>x s. x \<in> set xs \<Longrightarrow> body (containerof x off) s h = (fst (f x s), snd (f x s), h)"
  shows "list_for_every_entry l off body s h = Some (visit f xs s, h)"
  unfolding list_for_every_entry_def using assms for_every_entry_visit [of h l xs l body off f] by (auto simp: dlist_def)

section \<open>Deleting inside a loop\<close>

text \<open>
  \<open>list_delete\<close> clears the node, so after a deletion the plain loop goes on at the structure around
  \<open>NULL\<close>; the safe loop has read the next entry before the body runs.
\<close>

lemma list_for_every_entry_after_delete:
  assumes "dlist h l (x # xs)" "body (containerof x off) s h = (True, s', list_delete x h)"
  shows "list_for_every_entry l off body s h = for_every_entry l off body (containerof 0 off) s' (list_delete x h)"
proof -
  have "nxt h l = x" "x \<noteq> l" using assms(1) dlist_next by (fastforce simp: dlist_def)+
  moreover have "nxt (list_delete x h) x = 0" by (simp add: list_delete_def Let_def)
  ultimately show ?thesis using assms(2)
    by (simp add: list_for_every_entry_def for_every_entry.simps [of l off body "containerof x off"])
qed

lemma for_every_entry_safe_delete:
  assumes "dlist h l (ks @ xs)"
    and body: "\<And>x s h. x \<in> set xs \<Longrightarrow> body (containerof x off) s h = (True, f x s, if del x then list_delete x h else h)"
  shows "\<exists>h'. for_every_entry_safe l off body (containerof (hd (xs @ [l])) off)
      (containerof (nxt h (hd (xs @ [l]))) off) s h = Some (fold f xs s, h') \<and> dlist h' l (ks @ filter (Not \<circ> del) xs)"
  using assms
proof (induction xs arbitrary: ks s h)
  case Nil
  then show ?case by (subst for_every_entry_safe.simps) simp
next
  case (Cons x xs)
  let ?h = "if del x then list_delete x h else h" and ?ks = "if del x then ks else ks @ [x]"
  have x: "x \<noteq> l" "nxt h x = hd (xs @ [l])" "x \<notin> set ks"
    using Cons.prems(1) by (auto simp: dlist_def dlist_mid(1) [OF Cons.prems(1)])
  have "dlist ?h l (?ks @ xs)"
    using dlist_delete [OF Cons.prems(1), of x] Cons.prems(1) x(3) by (auto simp: remove1_append)
  from Cons.IH [OF this, of "f x s"] Cons.prems(2) x
  show ?case by (subst for_every_entry_safe.simps) (cases "del x"; simp add: o_def)
qed

text \<open>The safe loop visits every entry once, in order, and what its body does not delete stays.\<close>

theorem list_for_every_entry_safe_deletes:
  assumes "dlist h l xs"
    and "\<And>x s h. x \<in> set xs \<Longrightarrow> body (containerof x off) s h = (True, f x s, if del x then list_delete x h else h)"
  shows "\<exists>h'. list_for_every_entry_safe l off body s h = Some (fold f xs s, h') \<and> dlist h' l (filter (Not \<circ> del) xs)"
  using for_every_entry_safe_delete [of h l "[]" xs body off f del s] assms dlist_next [OF assms(1)]
  by (simp add: list_for_every_entry_safe_def Let_def)

end
