(* ===== verification/Debug_Output.thy ===== *)
theory Debug_Output imports Thread begin

text \<open>
  \<open>src/lk/debug.c\<close>, the dumps of \<open>src/lk/kernel/thread.c\<close> and \<open>dprintf\<close> of
  \<open>src/Include/lk/debug.h\<close>: what they print, as a string. Memory is a map from 32-bit addresses to
  bytes, \<open>size_t\<close> and \<open>addr_t\<close> are 32 bits wide and words are little endian, as on the ARM
  targets of \<open>LKL.inf\<close>.

  The outer loops advance a \<open>size_t\<close> by 16 until it reaches the length. For a length above
  \<open>0xFFFFFFF0\<close> the counter wraps round first, so they are partial functions.
  \<open>undump8\<close> and \<open>undump\<close> read a dump back: the lemmas below compute the output of the loops
  and show that the readers recover the memory that was printed.
\<close>

section \<open>The conversions of \<open>printf\<close>\<close>

type_synonym mem = "u32 \<Rightarrow> u8"

abbreviation newline :: char where "newline \<equiv> CHR 0x0A"

definition digit_char :: "nat \<Rightarrow> char" where
  "digit_char n = ''0123456789abcdef'' ! n"

text \<open>\<open>%x\<close>, \<open>%d\<close> and the padding of \<open>%0<w>x\<close>.\<close>

fun hex_number :: "nat \<Rightarrow> string" where
  "hex_number n = (if n < 16 then [digit_char n] else hex_number (n div 16) @ [digit_char (n mod 16)])"

fun dec_number :: "nat \<Rightarrow> string" where
  "dec_number n = (if n < 10 then [digit_char n] else dec_number (n div 10) @ [digit_char (n mod 10)])"

definition dec_int :: "int \<Rightarrow> string" where
  "dec_int i = (if i < 0 then CHR ''-'' # dec_number (nat (- i)) else dec_number (nat i))"

definition pad0 :: "nat \<Rightarrow> string \<Rightarrow> string" where
  "pad0 w s = replicate (w - length s) (CHR ''0'') @ s"

text \<open>\<open>isprint\<close> in the C locale.\<close>

definition isprint :: "u8 \<Rightarrow> bool" where
  "isprint c = (0x20 \<le> c \<and> c \<le> 0x7E)"

definition print_char :: "u8 \<Rightarrow> char" where
  "print_char c = (if isprint c then char_of (unat c) else CHR ''.'')"

section \<open>\<open>hexdump8_ex\<close>\<close>

definition MIN2 :: "u32 \<Rightarrow> u32 \<Rightarrow> u32" where
  "MIN2 a b = (if a < b then a else b)"

definition ROUNDUP :: "u32 \<Rightarrow> u32 \<Rightarrow> u32" where
  "ROUNDUP a b = ((a + (b - 1)) AND NOT (b - 1))"

text \<open>One pass through the body: the address, the bytes, the gap up to sixteen, the characters.\<close>

definition hexdump8_line :: "mem \<Rightarrow> nat \<Rightarrow> u32 \<Rightarrow> u64 \<Rightarrow> u32 \<Rightarrow> u32 \<Rightarrow> string" where
  "hexdump8_line mem addr_fmt len disp_addr address count =
    (let n = unat (MIN2 (len - count) 16)
     in ''0x'' @ pad0 addr_fmt (hex_number (unat (disp_addr + ucast count))) @ '': '' @
        concat (map (\<lambda>i. pad0 2 (hex_number (unat (mem (address + of_nat i)))) @ '' '') [0..<n]) @
        concat (map (\<lambda>i. ''   '') [n..<16]) @
        ''|'' @
        map (\<lambda>i. print_char (mem (address + of_nat i))) [0..<n] @
        [newline])"

partial_function (option) hexdump8_loop ::
  "mem \<Rightarrow> nat \<Rightarrow> u32 \<Rightarrow> u64 \<Rightarrow> u32 \<Rightarrow> u32 \<Rightarrow> string \<Rightarrow> string option" where
  "hexdump8_loop mem addr_fmt len disp_addr address count out =
    (if count < len
     then hexdump8_loop mem addr_fmt len disp_addr (address + 16) (count + 16)
            (out @ hexdump8_line mem addr_fmt len disp_addr address count)
     else Some out)"

declare hexdump8_loop.simps [code]

definition hexdump8_ex :: "mem \<Rightarrow> u32 \<Rightarrow> u32 \<Rightarrow> u64 \<Rightarrow> string option" where
  "hexdump8_ex mem ptr len disp_addr =
    (let addr_fmt = (if disp_addr + ucast len > 0xFFFFFFFF then 16 else 8)
     in hexdump8_loop mem addr_fmt len disp_addr ptr 0 [])"

definition hexdump8 :: "mem \<Rightarrow> u32 \<Rightarrow> u32 \<Rightarrow> string option" where
  "hexdump8 mem ptr len = hexdump8_ex mem ptr len (ucast ptr)"

section \<open>\<open>hexdump\<close>\<close>

text \<open>\<open>((const uint32_t *)address)[i]\<close>, and the bytes of the union that overlays the words.\<close>

definition word_at :: "mem \<Rightarrow> u32 \<Rightarrow> u32" where
  "word_at mem a = word_rcat [mem (a + 3), mem (a + 2), mem (a + 1), mem a]"

definition cbuf :: "u32 list \<Rightarrow> nat \<Rightarrow> u8" where
  "cbuf buf i = ucast (drop_bit (8 * (i mod 4)) (buf ! (i div 4)))"

definition hexdump_line :: "mem \<Rightarrow> u32 \<Rightarrow> u32 \<Rightarrow> u32 \<Rightarrow> string" where
  "hexdump_line mem len address count =
    (let s = unat (ROUNDUP (MIN2 (len - count) 16) 4);
         buf = map (\<lambda>i. word_at mem (address + 4 * of_nat i)) [0..<s div 4]
     in ''0x'' @ pad0 8 (hex_number (unat address)) @ '': '' @
        concat (map (\<lambda>w. pad0 8 (hex_number (unat w)) @ '' '') buf) @
        concat (map (\<lambda>i. ''         '') [s div 4..<4]) @
        ''|'' @
        map (\<lambda>i. if i < s \<and> isprint (cbuf buf i) then char_of (unat (cbuf buf i)) else CHR ''.'') [0..<16] @
        ''|'' @ [newline])"

partial_function (option) hexdump_loop :: "mem \<Rightarrow> u32 \<Rightarrow> u32 \<Rightarrow> u32 \<Rightarrow> string \<Rightarrow> string option" where
  "hexdump_loop mem len address count out =
    (if count < len
     then hexdump_loop mem len (address + 16) (count + 16) (out @ hexdump_line mem len address count)
     else Some out)"

declare hexdump_loop.simps [code]

definition hexdump :: "mem \<Rightarrow> u32 \<Rightarrow> u32 \<Rightarrow> string option" where
  "hexdump mem ptr len = hexdump_loop mem len ptr 0 []"

section \<open>The dumps of threads\<close>

text \<open>\<open>LK_DEBUGLEVEL\<close> is 0 in this build, below the level of the dumps. \<open>%p\<close> is a parameter.\<close>

definition LK_DEBUGLEVEL :: int where "LK_DEBUGLEVEL = 0"
definition INFO :: int where "INFO = 1"

definition dprintf :: "int \<Rightarrow> string \<Rightarrow> string \<Rightarrow> string" where
  "dprintf level x out = (if level \<le> LK_DEBUGLEVEL then out @ x else out)"

datatype pointer = To_thread tid | To_wait_queue wq_ref | Address nat | NULL_pointer

definition arch_dump_thread :: "tid \<Rightarrow> kernel \<Rightarrow> string \<Rightarrow> string" where
  "arch_dump_thread t k out = out"

definition dump_thread :: "(pointer \<Rightarrow> string) \<Rightarrow> tid \<Rightarrow> kernel \<Rightarrow> string \<Rightarrow> string" where
  "dump_thread p t k out =
    (let th = threads k t;
         tab = [CHR 0x09];
         out = dprintf INFO (''dump_thread: t '' @ p (To_thread t) @ '' ('' @ t_name th @ '')'' @ [newline]) out;
         out = dprintf INFO (tab @ ''state '' @ thread_state_to_str (t_state th) @ '', priority '' @
           dec_int (t_priority th) @ '', remaining quantum '' @ dec_int (t_remaining_quantum th) @ [newline]) out;
         out = dprintf INFO (tab @ ''stack '' @ p (case t_stack th of Some a \<Rightarrow> Address a | None \<Rightarrow> NULL_pointer) @
           '', stack_size '' @ dec_number (t_stack_size th) @ [newline]) out;
         out = dprintf INFO (tab @ ''entry '' @ p (Address (t_entry th)) @ '', arg '' @ p (Address (t_arg th)) @
           '', flags 0x'' @ hex_number (unat (t_flags th)) @ [newline]) out;
         out = dprintf INFO (tab @ ''wait queue '' @
           p (case t_blocking_wait_queue th of Some w \<Rightarrow> To_wait_queue w | None \<Rightarrow> NULL_pointer) @
           '', wait queue ret '' @ dec_int (t_wait_queue_block_ret th) @ [newline]) out
     in arch_dump_thread t k out)"

text \<open>\<open>struct_at t\<close> is the address of the thread structure and \<open>struct_size\<close> its size.\<close>

primrec dump_threads ::
  "(pointer \<Rightarrow> string) \<Rightarrow> mem \<Rightarrow> (tid \<Rightarrow> u32) \<Rightarrow> u32 \<Rightarrow> kernel \<Rightarrow> tid list \<Rightarrow> string \<Rightarrow> string option" where
  "dump_threads p mem struct_at struct_size k [] out = Some out"
| "dump_threads p mem struct_at struct_size k (t # ts) out =
    (if t_magic (threads k t) \<noteq> THREAD_MAGIC
     then let out = dprintf INFO (''bad magic on thread struct '' @ p (To_thread t) @ '', aborting.'' @ [newline]) out
          in map_option (\<lambda>x. out @ x) (hexdump mem (struct_at t) struct_size)
     else dump_threads p mem struct_at struct_size k ts (dump_thread p t k out))"

definition dump_all_threads ::
  "(pointer \<Rightarrow> string) \<Rightarrow> mem \<Rightarrow> (tid \<Rightarrow> u32) \<Rightarrow> u32 \<Rightarrow> kernel \<Rightarrow> string \<Rightarrow> (string \<times> kernel) option" where
  "dump_all_threads p mem struct_at struct_size k out =
    (let (st, k) = THREAD_LOCK k
     in map_option (\<lambda>out. (out, THREAD_UNLOCK st k))
          (dump_threads p mem struct_at struct_size k (thread_list k) out))"

text \<open>\<open>_panic\<close> up to its \<open>abort\<close>; \<open>msg\<close> is the formatted message.\<close>

definition panic_output :: "(pointer \<Rightarrow> string) \<Rightarrow> pointer \<Rightarrow> string \<Rightarrow> string" where
  "panic_output p caller msg = ''panic (caller '' @ p caller @ ''): '' @ msg"

section \<open>Reading a dump back\<close>

definition char_value :: "char \<Rightarrow> nat" where
  "char_value c = (let n = of_char c in if n < 58 then n - 48 else n - 87)"

definition read_number :: "string \<Rightarrow> nat" where
  "read_number s = foldl (\<lambda>v c. 16 * v + char_value c) 0 s"

fun lines :: "string \<Rightarrow> string list" where
  "lines [] = []"
| "lines (c # s) =
    (if c = newline then [] # lines s
     else case lines s of [] \<Rightarrow> [[c]] | l # ls \<Rightarrow> (c # l) # ls)"

text \<open>At most \<open>k\<close> cells of \<open>w\<close> digits and a blank; the gap of the last line starts with a blank.\<close>

fun read_cells :: "nat \<Rightarrow> nat \<Rightarrow> string \<Rightarrow> nat list" where
  "read_cells w 0 s = []"
| "read_cells w (Suc k) s =
    (if s = [] \<or> hd s = CHR '' '' then [] else read_number (take w s) # read_cells w k (drop (Suc w) s))"

definition undump_line :: "nat \<Rightarrow> nat \<Rightarrow> string \<Rightarrow> nat list" where
  "undump_line w k l = read_cells w k (drop 2 (dropWhile (\<lambda>c. c \<noteq> CHR '':'') l))"

definition undump :: "nat \<Rightarrow> nat \<Rightarrow> string \<Rightarrow> nat list" where
  "undump w k out = concat (map (undump_line w k) (lines out))"

lemma lines_append: "newline \<notin> set l \<Longrightarrow> lines (l @ newline # s) = l # lines s"
  by (induction l) auto

lemma undump_append:
  "newline \<notin> set l \<Longrightarrow> undump w k (l @ newline # s) = undump_line w k l @ undump w k s"
  by (simp add: undump_def lines_append)

lemma less_16_cases:
  fixes n :: nat
  assumes "n < 16"
  shows "n \<in> {0, 1, 2, 3, 4, 5, 6, 7, 8, 9, 10, 11, 12, 13, 14, 15}"
  using assms by (simp, presburger)

lemma digit_char_facts:
  assumes "n < 16"
  shows "char_value (digit_char n) = n" "digit_char n \<notin> {newline, CHR '' '', CHR '':''}"
  using less_16_cases [OF assms] by (auto simp: digit_char_def char_value_def)

lemma read_number_snoc: "read_number (s @ [c]) = 16 * read_number s + char_value c"
  by (simp add: read_number_def)

lemma read_number_hex: "read_number (hex_number n) = n"
proof (induction n rule: hex_number.induct)
  case (1 n)
  then show ?case
    by (subst hex_number.simps) (auto simp: read_number_snoc digit_char_facts simp del: hex_number.simps,
      simp add: read_number_def digit_char_facts)
qed

lemma read_number_pad0 [simp]: "read_number (pad0 w s) = read_number s"
proof -
  have "foldl (\<lambda>v c. 16 * v + char_value c) 0 (replicate m (CHR ''0'')) = 0" for m
    by (induction m) (auto simp: char_value_def)
  then show ?thesis by (simp add: read_number_def pad0_def)
qed

lemma hex_number_chars: "set (hex_number n) \<inter> {newline, CHR '' '', CHR '':''} = {}"
proof (induction n rule: hex_number.induct)
  case (1 n)
  have "digit_char (n mod 16) \<notin> {newline, CHR '' '', CHR '':''}" by (rule digit_char_facts) simp
  with 1 show ?case
    by (subst hex_number.simps) (use digit_char_facts(2) [of n] in \<open>auto simp del: hex_number.simps\<close>)
qed

lemma hex_number_length: "n < 16 ^ w \<Longrightarrow> 0 < w \<Longrightarrow> length (hex_number n) \<le> w"
proof (induction w arbitrary: n)
  case 0
  then show ?case by simp
next
  case (Suc w)
  show ?case
  proof (cases "n < 16")
    case True
    then show ?thesis by simp
  next
    case False
    with Suc.prems have "0 < w" by (cases w) auto
    moreover have "n div 16 < 16 ^ w" using Suc.prems by (simp add: less_mult_imp_div_less mult.commute)
    ultimately have "length (hex_number (n div 16)) \<le> w" by (rule Suc.IH [rotated])
    with False show ?thesis by (subst hex_number.simps) (simp del: hex_number.simps)
  qed
qed

declare hex_number.simps [simp del]

lemma pad0_chars: "set (pad0 w (hex_number n)) \<inter> {newline, CHR '' '', CHR '':''} = {}"
  using hex_number_chars [of n] by (auto simp: pad0_def)

lemma pad0_length: "n < 16 ^ w \<Longrightarrow> 0 < w \<Longrightarrow> length (pad0 w (hex_number n)) = w"
  using hex_number_length [of n w] by (simp add: pad0_def)

lemma read_cells_numbers:
  assumes "\<forall>v\<in>set vs. v < 16 ^ w" "0 < w" "length vs \<le> k"
    and "length vs = k \<or> rest = [] \<or> hd rest = CHR '' ''"
  shows "read_cells w k (concat (map (\<lambda>v. pad0 w (hex_number v) @ '' '') vs) @ rest) = vs"
  using assms
proof (induction vs arbitrary: k)
  case Nil
  then show ?case by (cases k) auto
next
  case (Cons v vs)
  let ?p = "pad0 w (hex_number v)"
  obtain j where k: "k = Suc j" using Cons.prems by (cases k) auto
  have len: "length ?p = w" using Cons.prems by (simp add: pad0_length)
  with Cons.prems obtain c cs where p: "?p = c # cs" by (cases ?p) auto
  then have "c \<noteq> CHR '' ''" using pad0_chars [of w v] by auto
  with p len Cons k show ?case
    by (simp add: read_number_hex flip: p) (simp add: p)
qed

section \<open>The loops\<close>

text \<open>Both loops print a chunk of up to sixteen bytes and advance by sixteen.\<close>

lemma chunk_loop:
  fixes count len address :: u32
  assumes g: "\<And>a c out. g a c out = (if c < len then g (a + 16) (c + 16) (out @ line a c) else Some out)"
    and "k = (unat len - unat count + 15) div 16" "unat count + 16 * k < 2 ^ 32"
  shows "g address count out =
    Some (out @ concat (map (\<lambda>j. line (address + 16 * of_nat j) (count + 16 * of_nat j)) [0..<k]))"
  using assms(2,3)
proof (induction k arbitrary: address count out)
  case 0
  then show ?case by (subst g) (auto simp: word_less_nat_alt)
next
  case (Suc k)
  have less: "count < len" using Suc.prems by (auto simp: word_less_nat_alt)
  have "unat count + 16 < 2 ^ 32" using Suc.prems(2) by simp
  then have c: "unat (count + 16) = unat count + 16" by (simp add: unat_word_ariths)
  have k: "k = (unat len - unat (count + 16) + 15) div 16"
    using Suc.prems(1) c by linarith
  have "unat (count + 16) + 16 * k < 2 ^ 32"
    using Suc.prems(2) c by simp
  from Suc.IH [OF k this, of "address + 16" "out @ line address count"] less
  show ?case
    by (subst g) (simp add: upt_conv_Cons map_Suc_upt [symmetric] algebra_simps o_def del: upt_Suc)
qed

text \<open>The chunks in order are the whole range.\<close>

lemma chunks_upto:
  "concat (map (\<lambda>j. map (\<lambda>i. f (b * j + i)) [0..<min b (n - b * j)]) [0..<k]) = map f [0..<min (b * k) n]"
proof (induction k)
  case 0
  then show ?case by simp
next
  case (Suc k)
  have split: "[0..<min (b * Suc k) n] = [0..<min (b * k) n] @ [b * k..<min (b * Suc k) n]"
  proof (cases "b * k \<le> n")
    case True
    then show ?thesis by (simp add: upt_add_eq_append [symmetric] min_def)
      (metis le_add2 upt_add_eq_append le_iff_add zero_le)
  next
    case False
    then show ?thesis by (simp add: min_def)
  qed
  have "map (\<lambda>i. f (b * k + i)) [0..<min b (n - b * k)] = map f [b * k..<min (b * Suc k) n]"
    by (rule nth_equalityI) (auto simp: min_def nth_upt split: if_splits)
  with Suc split show ?case by simp
qed

lemma unat_MIN2: "unat (MIN2 a b) = min (unat a) (unat b)"
  by (simp add: MIN2_def word_less_nat_alt)

lemma ROUNDUP_4:
  assumes "unat m \<le> 16"
  shows "unat (ROUNDUP m 4) = 4 * ((unat m + 3) div 4)"
proof -
  define n where "n = unat m"
  then have m: "m = of_nat n" by simp
  have "n < 16 \<or> n = 16" using assms n_def by auto
  then have "n \<in> {0, 1, 2, 3, 4, 5, 6, 7, 8, 9, 10, 11, 12, 13, 14, 15, 16}" using less_16_cases [of n] by auto
  then show ?thesis by (auto simp: m ROUNDUP_def)
qed

text \<open>Above \<open>0xFFFFFFF0\<close> the counter, a multiple of sixteen, never reaches the length.\<close>

lemma dvd_16_add: "16 dvd unat c \<Longrightarrow> 16 dvd unat (c + 16)" for c :: u32
proof -
  assume "16 dvd unat c"
  moreover have "(16::nat) dvd 2 ^ 32" by simp
  ultimately show ?thesis by (simp add: unat_word_ariths dvd_mod)
qed

lemma dvd_16_bound: "16 dvd unat c \<Longrightarrow> \<not> c < len \<Longrightarrow> unat len \<le> 0xFFFFFFF0" for c :: u32
  using unsigned_less [of c, where ?'a = nat] by (auto simp: word_less_nat_alt elim!: dvdE)

lemma hexdump_loop_bound:
  assumes "hexdump_loop mem len address count out = Some r"
  shows "16 dvd unat count \<longrightarrow> unat len \<le> 0xFFFFFFF0"
  by (rule hexdump_loop.raw_induct
      [where P = "\<lambda>mem len address count out r. 16 dvd unat count \<longrightarrow> unat len \<le> 0xFFFFFFF0", OF _ assms])
    (auto simp: dvd_16_bound split: if_splits, metis dvd_16_add)

lemma hexdump8_loop_bound:
  assumes "hexdump8_loop mem addr_fmt len disp address count out = Some r"
  shows "16 dvd unat count \<longrightarrow> unat len \<le> 0xFFFFFFF0"
  by (rule hexdump8_loop.raw_induct
      [where P = "\<lambda>mem f len disp address count out r. 16 dvd unat count \<longrightarrow> unat len \<le> 0xFFFFFFF0", OF _ assms])
    (auto simp: dvd_16_bound split: if_splits, metis dvd_16_add)

section \<open>What the readers recover\<close>

lemma undump_lines:
  assumes "\<And>x. x \<in> set xs \<Longrightarrow> \<exists>l. newline \<notin> set l \<and> L x = l @ [newline] \<and> undump_line w k l = V x"
  shows "undump w k (concat (map L xs)) = concat (map V xs)"
  using assms
proof (induction xs)
  case Nil
  then show ?case by (simp add: undump_def)
next
  case (Cons x xs)
  from Cons.prems [of x] obtain l where "newline \<notin> set l" "L x = l @ [newline]" "undump_line w k l = V x" by auto
  with Cons show ?case by (simp add: undump_append)
qed

lemma isprint_newline: "isprint c \<Longrightarrow> char_of (unat c) \<noteq> newline"
proof
  assume "isprint c" "char_of (unat c) = newline"
  then have "of_char (char_of (unat c) :: char) = (10 :: nat)" by simp
  with \<open>isprint c\<close> show False by (simp add: isprint_def word_le_nat_alt)
qed

lemma print_char_newline: "newline \<noteq> print_char c"
  using isprint_newline [of c] by (auto simp: print_char_def)

text \<open>The part of a line before the cells.\<close>

lemma undump_line_prefix:
  "undump_line w k (''0x'' @ pad0 v (hex_number a) @ '': '' @ l) = read_cells w k l"
proof -
  have "\<forall>c\<in>set (''0x'' @ pad0 v (hex_number a)). c \<noteq> CHR '':''" using pad0_chars [of v a] by auto
  then have "dropWhile (\<lambda>c. c \<noteq> CHR '':'') ((''0x'' @ pad0 v (hex_number a)) @ '': '' @ l) = '': '' @ l"
    by (subst dropWhile_append2) auto
  then show ?thesis by (simp add: undump_line_def)
qed

lemma newline_line:
  assumes "newline \<notin> set rest"
  shows "newline \<notin> set (''0x'' @ pad0 v (hex_number a) @ '': '' @
    concat (map (\<lambda>n. pad0 w (hex_number n) @ '' '') vs) @ rest)"
  using assms pad0_chars by auto

lemma gap_starts_blank:
  "n = k \<or> concat (map (\<lambda>i. CHR '' '' # g) [n..<k]) @ rest = [] \<or>
    hd (concat (map (\<lambda>i. CHR '' '' # g) [n..<k]) @ rest) = CHR '' ''" if "n \<le> k"
  using that by (cases "n = k") (auto simp: upt_conv_Cons)

lemma hexdump8_line_undump:
  assumes "n = min 16 (unat len - unat count)" "count \<le> len"
  shows "\<exists>l. newline \<notin> set l \<and> hexdump8_line mem f len disp address count = l @ [newline] \<and>
    undump_line 2 16 l = map (\<lambda>i. unat (mem (address + of_nat i))) [0..<n]"
proof -
  let ?vs = "map (\<lambda>i. unat (mem (address + of_nat i))) [0..<n]"
  let ?rest = "concat (map (\<lambda>i. ''   '') [n..<16]) @ ''|'' @ map (\<lambda>i. print_char (mem (address + of_nat i))) [0..<n]"
  let ?l = "''0x'' @ pad0 f (hex_number (unat (disp + ucast count))) @ '': '' @
    concat (map (\<lambda>v. pad0 2 (hex_number v) @ '' '') ?vs) @ ?rest"
  have n: "unat (MIN2 (len - count) 16) = n"
    using assms by (simp add: unat_MIN2 unat_sub word_le_nat_alt min.commute)
  have "hexdump8_line mem f len disp address count = ?l @ [newline]"
    by (simp add: hexdump8_line_def n o_def)
  moreover have "newline \<notin> set ?l" by (rule newline_line) (auto simp: print_char_newline)
  moreover have "read_cells 2 16 (concat (map (\<lambda>v. pad0 2 (hex_number v) @ '' '') ?vs) @ ?rest) = ?vs"
  proof (rule read_cells_numbers)
    show "\<forall>v\<in>set ?vs. v < 16 ^ 2"
      using unsigned_less [where ?'a = nat and ?'b = 8] by (auto simp: power2_eq_square)
    show "length ?vs = 16 \<or> ?rest = [] \<or> hd ?rest = CHR '' ''"
      using gap_starts_blank [of n 16] assms(1) by auto
  qed (use assms in auto)
  ultimately show ?thesis using undump_line_prefix by metis
qed

lemma hexdump_line_undump:
  assumes "n = (min 16 (unat len - unat count) + 3) div 4" "count \<le> len"
  shows "\<exists>l. newline \<notin> set l \<and> hexdump_line mem len address count = l @ [newline] \<and>
    undump_line 8 4 l = map (\<lambda>i. unat (word_at mem (address + 4 * of_nat i))) [0..<n]"
proof -
  let ?buf = "map (\<lambda>i. word_at mem (address + 4 * of_nat i)) [0..<n]"
  let ?vs = "map (\<lambda>i. unat (word_at mem (address + 4 * of_nat i))) [0..<n]"
  let ?ch = "\<lambda>i. if i < 4 * n \<and> isprint (cbuf ?buf i) then char_of (unat (cbuf ?buf i)) else CHR ''.''"
  let ?rest = "concat (map (\<lambda>i. ''         '') [n..<4]) @ ''|'' @ map ?ch [0..<16] @ ''|''"
  let ?l = "''0x'' @ pad0 8 (hex_number (unat address)) @ '': '' @
    concat (map (\<lambda>v. pad0 8 (hex_number v) @ '' '') ?vs) @ ?rest"
  have "unat (MIN2 (len - count) 16) = min (unat len - unat count) 16"
    using assms by (simp add: unat_MIN2 unat_sub word_le_nat_alt)
  then have n: "unat (ROUNDUP (MIN2 (len - count) 16) 4) = 4 * n"
    using assms by (simp add: ROUNDUP_4 min.commute)
  have line: "hexdump_line mem len address count = ?l @ [newline]"
    by (simp add: hexdump_line_def n o_def Let_def)
  have "newline \<notin> set (map ?ch [0..<16])"
    using isprint_newline by (auto split: if_splits) metis+
  then have nl: "newline \<notin> set ?l" by (intro newline_line) auto
  have "read_cells 8 4 (concat (map (\<lambda>v. pad0 8 (hex_number v) @ '' '') ?vs) @ ?rest) = ?vs"
  proof (rule read_cells_numbers)
    show "\<forall>v\<in>set ?vs. v < 16 ^ 8"
      using unsigned_less [where ?'a = nat and ?'b = 32] by auto
    show "length ?vs = 4 \<or> ?rest = [] \<or> hd ?rest = CHR '' ''"
      unfolding length_map length_upt diff_zero by (rule gap_starts_blank) (use assms(1) in linarith)
  qed (use assms in auto)
  then have "undump_line 8 4 ?l = ?vs" by (simp only: undump_line_prefix)
  with line nl show ?thesis by blast
qed

lemma chunk_start:
  fixes len :: u32
  assumes "unat len \<le> 0xFFFFFFF0" "j < (unat len + 15) div 16"
  shows "unat (16 * of_nat j :: u32) = 16 * j" "16 * of_nat j \<le> len"
proof -
  have "16 * j < 2 ^ 32" "16 * j \<le> unat len" using assms by auto
  then show *: "unat (16 * of_nat j :: u32) = 16 * j" by (simp add: unat_of_nat unat_word_ariths mod_mult_right_eq)
  with \<open>16 * j \<le> unat len\<close> show "16 * of_nat j \<le> len" by (simp add: word_le_nat_alt)
qed

lemma dump_reads_back:
  fixes ptr len :: u32
  assumes g: "\<And>a c out. g a c out = (if c < len then g (a + 16) (c + 16) (out @ line a c) else Some out)"
    and "unat len \<le> 0xFFFFFFF0"
    and V: "\<And>j. j < (unat len + 15) div 16 \<Longrightarrow>
      \<exists>l. newline \<notin> set l \<and> line (ptr + 16 * of_nat j) (16 * of_nat j) = l @ [newline] \<and> undump_line w k l = V j"
  shows "\<exists>s. g ptr 0 [] = Some s \<and> undump w k s = concat (map V [0..<(unat len + 15) div 16])"
proof -
  let ?n = "(unat len + 15) div 16"
  have "g ptr 0 [] = Some ([] @ concat (map (\<lambda>j. line (ptr + 16 * of_nat j) (0 + 16 * of_nat j)) [0..<?n]))"
    by (rule chunk_loop [where g = g and line = line, OF g]) (use assms(2) in auto)
  moreover have "undump w k (concat (map (\<lambda>j. line (ptr + 16 * of_nat j) (16 * of_nat j)) [0..<?n])) = concat (map V [0..<?n])"
    by (rule undump_lines) (use V in auto)
  ultimately show ?thesis by simp
qed

text \<open>C40: For up to 0xFFFFFFF0 bytes hexdump8_ex returns, and reading its output back line by line gives
  exactly the bytes that were dumped, in order; for a longer range its counter wraps round and it
  never returns.\<close>

theorem hexdump8_round_trip:
  "if unat len \<le> 0xFFFFFFF0
   then \<exists>s. hexdump8_ex mem ptr len disp = Some s \<and>
          undump 2 16 s = map (\<lambda>i. unat (mem (ptr + of_nat i))) [0..<unat len]
   else hexdump8_ex mem ptr len disp = None"
proof (cases "unat len \<le> 0xFFFFFFF0")
  case False
  then show ?thesis using hexdump8_loop_bound [of mem _ len disp ptr 0 "[]"]
    by (cases "hexdump8_ex mem ptr len disp") (auto simp: hexdump8_ex_def Let_def split: if_splits)
next
  case True
  define f where "f = (if disp + ucast len > 0xFFFFFFFF then 16 else 8 :: nat)"
  let ?B = "\<lambda>i. unat (mem (ptr + of_nat i))"
  let ?V = "\<lambda>j. map (\<lambda>i. ?B (16 * j + i)) [0..<min 16 (unat len - 16 * j)]"
  have "\<exists>l. newline \<notin> set l \<and> hexdump8_line mem f len disp (ptr + 16 * of_nat j) (16 * of_nat j) = l @ [newline] \<and>
      undump_line 2 16 l = ?V j" if "j < (unat len + 15) div 16" for j
    using hexdump8_line_undump [OF refl chunk_start(2) [OF True that], of mem f disp "ptr + 16 * of_nat j"]
    by (simp add: chunk_start(1) [OF True that] add.assoc)
  from dump_reads_back [where g = "hexdump8_loop mem f len disp" and line = "hexdump8_line mem f len disp",
      OF hexdump8_loop.simps True this]
  obtain s where "hexdump8_loop mem f len disp ptr 0 [] = Some s" "undump 2 16 s = concat (map ?V [0..<(unat len + 15) div 16])"
    by blast
  moreover have "min (16 * ((unat len + 15) div 16)) (unat len) = unat len" by linarith
  ultimately show ?thesis using True chunks_upto [of ?B 16 "unat len"] by (simp add: hexdump8_ex_def f_def Let_def)
qed

text \<open>
  A dump of words reads back as every word that holds one of the bytes: up to three bytes past the
  end are read.
\<close>

theorem hexdump_reads_whole_words:
  "if unat len \<le> 0xFFFFFFF0
   then \<exists>s. hexdump mem ptr len = Some s \<and>
          undump 8 4 s = map (\<lambda>i. unat (word_at mem (ptr + 4 * of_nat i))) [0..<(unat len + 3) div 4]
   else hexdump mem ptr len = None"
proof (cases "unat len \<le> 0xFFFFFFF0")
  case False
  then show ?thesis using hexdump_loop_bound [of mem len ptr 0 "[]"]
    by (cases "hexdump mem ptr len") (auto simp: hexdump_def)
next
  case True
  let ?W = "\<lambda>i. unat (word_at mem (ptr + 4 * of_nat i))"
  let ?w = "(unat len + 3) div 4"
  let ?V = "\<lambda>j. map (\<lambda>i. ?W (4 * j + i)) [0..<min 4 (?w - 4 * j)]"
  have n: "(min 16 (unat len - 16 * j) + 3) div 4 = min 4 (?w - 4 * j)" for j by linarith
  have "\<exists>l. newline \<notin> set l \<and> hexdump_line mem len (ptr + 16 * of_nat j) (16 * of_nat j) = l @ [newline] \<and>
      undump_line 8 4 l = ?V j" if "j < (unat len + 15) div 16" for j
    using hexdump_line_undump [OF refl chunk_start(2) [OF True that], of mem "ptr + 16 * of_nat j"]
    by (simp only: chunk_start(1) [OF True that] n) (simp add: algebra_simps)
  from dump_reads_back [where g = "hexdump_loop mem len" and line = "hexdump_line mem len", OF hexdump_loop.simps True this]
  obtain s where "hexdump mem ptr len = Some s" "undump 8 4 s = concat (map ?V [0..<(unat len + 15) div 16])"
    by (auto simp: hexdump_def)
  moreover have "min (4 * ((unat len + 15) div 16)) ?w = ?w" by linarith
  ultimately show ?thesis using True chunks_upto [of ?W 4 ?w] by simp
qed

section \<open>The dumps of this build\<close>

lemma dump_thread_quiet: "dump_thread p t k out = out"
  by (simp add: dump_thread_def dprintf_def arch_dump_thread_def INFO_def LK_DEBUGLEVEL_def)

text \<open>
  Only the bytes of the first thread with a bad magic number are printed, without the line that would name it.
\<close>

lemma dump_threads_output:
  "dump_threads p mem struct_at struct_size k ts out =
    (case find (\<lambda>t. t_magic (threads k t) \<noteq> THREAD_MAGIC) ts of
       None \<Rightarrow> Some out
     | Some t \<Rightarrow> map_option ((@) out) (hexdump mem (struct_at t) struct_size))"
  by (induction ts arbitrary: out) (auto simp: dump_thread_quiet dprintf_def INFO_def LK_DEBUGLEVEL_def)

lemma dump_all_threads_kernel:
  assumes "thread_lock k = 0" "dump_all_threads p mem struct_at struct_size k out = Some (out', k')"
  shows "k' = k"
  using assms by (cases k) (auto simp: dump_all_threads_def THREAD_LOCK_eq THREAD_UNLOCK_eq split: if_splits)

end
