(* ===== verification/Spec2Isabelle.thy ===== *)
theory Spec2Isabelle
  imports Lk_Properties Arm_Properties Driver_Properties File_Properties Volume_Properties Host_Properties Timer_System
    List_Macros Debug_Output
begin

text \<open>
  LKL (EFIDroid) is a UEFI driver that gives the firmware access to Linux file systems. It carries the
  Linux kernel as a library (the \<open>lkl\<close> submodule, not part of the sources), runs it on a small thread
  package taken from the LK kernel, hands it the firmware's disks, mounts their file systems and
  exports the mounts through the firmware's file protocol. This development models the driver, the
  thread package and the code between them, and proves what makes each of them correct.

  \<^bold>\<open>The program's parts and the theories that model them.\<close> Each part of the program is one theory or a
  chain of theories; a definition has the name of the C function, a record or datatype that of the
  structure.

  \<^item> \<open>Prelude\<close>: the fixed-width integers, the collection \<open>kdefs\<close>, facts on lists and words, the runs of a
    machine and the locale \<open>invariant_machine\<close>.
  \<^item> Intrusive lists (\<open>Include/lk/list.h\<close>): \<open>Intrusive_List\<close>, on a heap of \<open>prev\<close> and \<open>next\<close> pointers.
    The locale \<open>node_lists\<close> is what the thread code relies on; it is interpreted on the pointer code.
    \<open>List_Macros\<close> has the macros that go to the structure around a node, and the loops.
  \<^item> The thread package (\<open>lk/kernel/*.c\<close>, \<open>lk/arch_thread.c\<close>, \<open>lk/heap.c\<close> and their headers):
    \<open>Thread_State\<close> (the record \<open>kernel\<close> with threads, run queues, bitmap, wait queues, objects and the
    lock), \<open>Scheduler\<close> (run queues, \<open>thread_resched\<close>), \<open>Wait_Queue\<close>, \<open>Thread\<close> (life cycle, priorities,
    start-up), \<open>Sync\<close> (mutexes, semaphores, events). \<open>Lk_System\<close> makes a state machine of it: \<open>exec\<close> is a
    call by the current thread, \<open>settle\<close> goes on with the saved call stack of the thread the
    dispatcher chose, \<open>kstep\<close> is the step relation and \<open>reachable\<close> the states after \<open>lkl_thread_init\<close>.
  \<^item> Debug output (\<open>lk/debug.c\<close>, the dumps of \<open>thread.c\<close>): \<open>Debug_Output\<close>, the characters printed.
  \<^item> The context switch (\<open>Arm/*\<close>, \<open>lk/arch_thread.c\<close>): \<open>Arm_Context\<close>, the assembler routines as lists of
    instructions run on a register machine (record \<open>cpu\<close>), \<open>makecontext\<close> on its memory and the C layout of
    \<open>ucontext_t\<close>; \<open>Arm_Switch\<close>, the contract of a context switch as the locale \<open>context_switch\<close>, interpreted
    on these routines and on the saved call stacks of \<open>Scheduler\<close>, which are the view the rest of the
    thread package has of it.
  \<^item> The host operations (\<open>UefiHost.c\<close>): \<open>Host\<close>, where an operation that makes several calls of the
    package is a program with a program counter, and \<open>Host_System\<close>, the interleaving of these programs
    and of timer interrupts over \<open>kstep\<close>. \<open>Timer_System\<close> is the life of one host timer, from its allocation
    to its end: the steps of \<open>LTimerCallback\<close>, \<open>timer_thread\<close> and \<open>timer_free\<close> in every order, on the state of
    the timer's event object that \<open>event.c\<close> shows (\<open>kernel_signal\<close>, \<open>kernel_wait_signaled\<close>,
    \<open>kernel_wait_unsignaled\<close>).
  \<^item> Types, errors and dates (\<open>Misc.c\<close>): \<open>Efi_Types\<close>, \<open>Efi_Time\<close>.
  \<^item> Path strings and path resolution (\<open>Misc.c\<close>): \<open>Paths\<close>, \<open>Real_Path\<close> (\<open>RealPath\<close>) and
    \<open>Path_Resolution\<close> (a reference resolver on lists of components).
  \<^item> The Linux system calls the driver makes: \<open>Linux_Calls\<close>.
  \<^item> The file protocol (\<open>Open.c\<close>, \<open>OpenVolume.c\<close>, \<open>Flush.c\<close>, \<open>ReadWrite.c\<close>, \<open>Info.c\<close>): \<open>Files\<close>, \<open>File_Io\<close>, and
    \<open>Open_Trace\<close> for the calls that \<open>LKLOpen\<close> makes. \<open>File_Session\<close> is the table \<open>LKLFileInterface\<close> of \<open>Data.c\<close>
    as a dispatcher and the step relation of a session: the volume is opened, files are opened from one
    another, and calls come in any order on the open files. \<open>File_Data\<close> is what an open file promises: the
    abstract file \<open>efi_file\<close> (bytes and a position) and its steps \<open>efi_step\<close>.
  \<^item> Recognising file systems (\<open>filesystems/*.c\<close>): \<open>Fs_Id\<close>. Encrypted partitions (\<open>dmcrypt.c\<close>): \<open>Dm_Crypt\<close>.
  \<^item> The firmware's services as the driver uses them (\<open>Misc.c\<close>, \<open>UnicodeCollation.c\<close>, \<open>ComponentName.c\<close>):
    \<open>Uefi\<close>. Volumes (\<open>Init.c\<close>): \<open>Volume\<close>. Entry point, binding and unloading (\<open>LKL.c\<close>): \<open>Driver\<close>.
    \<open>Volume_Trace\<close> reads the traces of building a volume: the protocols held, the key search, the mount.

  \<^bold>\<open>How the parts interact.\<close> The entry point starts the thread package and the Linux library. Binding a
  controller builds a volume: the disk protocols become a Linux disk, whose requests come back to
  \<open>uefi_blk_request\<close>; \<open>GetFsType\<close> reads the disk, an encrypted partition goes through \<open>dmcrypt.c\<close>, and the
  disk is mounted. The file protocol turns a firmware path into a path below the mount point
  (\<open>PathToUnix\<close>, \<open>RealPath\<close>), opens it by a system call and works on the descriptor. The library's
  threads block and wake each other through the semaphores, mutexes and events of the package.

  \<^bold>\<open>Conventions.\<close> The build is the one of \<open>LKL.inf\<close>: 32-bit ARM, one processor, no debug checks in the
  thread package. \<open>UINTN\<close> and \<open>INTN\<close> are 32-bit words, \<open>UINT64\<close> 64-bit words; counters that cannot
  overflow before memory runs out (semaphore counts, mutex counts) are \<open>int\<close>. A status is a
  value of \<open>EFI_STATUS\<close>; \<open>None\<close> as the result of a routine is a run that stops in a failed \<open>ASSERT\<close> or
  writes outside of its memory, \<open>Panic\<close> is a panic of the thread package. A C call stack that waits in the
  dispatcher is a list of frames (\<open>frame\<close>), one constructor for each call site.

  \<^bold>\<open>Parameters.\<close> What is not in the sources is an argument of the definitions: the Linux kernel is the
  record \<open>lkl\<close> of functions on an abstract state, with every call that has an effect or works on a
  descriptor or a directory noted in the log of the \<open>world\<close>, and a directory that \<open>lkl_fdopendir\<close> opened counted
  as a buffer of the pool, which the library takes it from; boot services and other drivers are the record \<open>efi\<close>, whose calls on protocols of the controller, on the file system
  protocol and on the files of other drivers are noted in the trace \<open>uefi\<close> (looking up handles, device paths
  and the collation protocol are outcomes only); the outcomes of pool
  allocations are a list; the conversions between \<open>CHAR16\<close> and \<open>CHAR8\<close> strings are functions. The only
  hypotheses on them are named in the statements that need them (\<open>serves\<close> in \<open>Fs_Id\<close>: a Linux device
  returns the bytes of an image; \<open>regular_file\<close> in \<open>File_Data\<close>: \<open>read\<close>, \<open>write\<close> and \<open>lseek\<close> on a regular file,
  held by the kernel \<open>one_file\<close> of \<open>File_Properties\<close>; the byte disk of \<open>Host\<close>: what is written can be read back).

  \<^bold>\<open>What is shown.\<close>

  \<^item> \<open>Lk_Invariant\<close>, \<open>Lk_Calls\<close>, \<open>Lk_Boot\<close>: start-up establishes \<open>user_inv\<close> and every allowed call keeps it
    and completes.
  \<^item> \<open>Lk_Semaphores\<close>: no call but those on a semaphore changes its counter, and the balance of posts and
    waits over whole runs.
  \<^item> \<open>Lk_Properties\<close>: the choice of the dispatcher, mutual exclusion, every branch of the synchronisation
    calls, yielding, preemption, joining and exiting, the wake-up loop down to the list pointers.
  \<^item> \<open>Arm_Properties\<close>: the two sides of the context layout agree, a new thread starts with an aligned stack
    in its own memory, the arguments of \<open>makecontext\<close> are where the callee looks for them, and a thread
    that was switched away from resumes with its registers and its stack.
  \<^item> \<open>Driver_Properties\<close>: errors and dates, \<open>RealPath\<close> (canonical results, agreement with the reference
    resolver, its buffers), \<open>LKLOpen\<close> (contained, and how containment fails), deleting, the invariant of
    sessions (buffers, descriptors, directories, paths), reading directories, setting information.
  \<^item> \<open>File_Properties\<close>: the data operations refine the abstract file, and what was written is read back.
  \<^item> \<open>Volume_Properties\<close>: recognition of file systems, the hexadecimal key, the mapping table, building
    and releasing volumes, starting and stopping on a controller, with the protocols held in between.
  \<^item> \<open>Host_Properties\<close>: block requests, semaphores and locks of the host under every interleaving.
  \<^item> \<open>Timer_System\<close>: how often the function of a timer runs, before and after the request to stop, and when
    the memory of the timer may be used; \<open>timer_free_race\<close> is the run in which it is used after it was freed.

  \<^item> \<open>List_Macros\<close>, \<open>Debug_Output\<close>: the loops over a list visit its entries, the safe ones also while entries
    are deleted; a hex dump reads back as the memory that was dumped.

  \<^bold>\<open>Bounds.\<close> No definition uses fuel: \<open>realpath_loop\<close> terminates because a round follows one of at most 40
  links or shortens the name, \<open>load_loop\<close> after \<open>TABLE_LOAD_RETRIES\<close> = 10 attempts, \<open>get_top_loop\<close> because it
  clears a bit of the bitmap, the other loops because they go through a list. The loops of \<open>list.h\<close> on a corrupt
  list and the hex dumps of more than \<open>0xFFFFFFF0\<close> bytes need not end: they are partial functions, with
  lemmas that say when they return. \<open>sem_down\<close> of the host may
  repeat for ever and is therefore a program whose steps are taken one at a time.

  \<^bold>\<open>Not modelled.\<close> On the machine: the iWMMXt registers, which this build skips, the instruction set bit of
  code addresses, and accesses that are not to aligned words. In the thread package: the idle loop
  \<open>idle_thread_routine\<close> beyond its body \<open>arch_idle\<close>, the stubs for several processors and the locals of
  threads (there are no entries). Compiler attributes and the code disabled by \<open>#if 0\<close> (volume labels,
  renaming, secondary processors). The \<open>printf\<close> and \<open>usleep\<close> calls of \<open>dmcrypt.c\<close>, whose requests are taken to be as
  they were after a failed \<open>ioctl\<close>. The numbers of the requests in \<open>dm-ioctl.h\<close>, a header of Linux. The
  functions that the host's timers call belong to the Linux library: in \<open>Timer_System\<close> they run for any time
  and return.
\<close>

end
